(* ===== verification/Psc_Prelude.thy ===== *)
theory Psc_Prelude
  imports Main "HOL-Library.Word"
begin

text \<open>
  Shared vocabulary of the development: bytes and machine words, the big-endian byte
  encodings of 16, 32 and 64 bit integers, the outcomes of C++ code (a value, a C++
  exception, an abort), and generic facts on lists that the component theories use.
\<close>

unbundle bit_operations_syntax

named_theorems wire_simps \<open>byte encodings of integers and headers\<close>
named_theorems outcome_simps \<open>outcomes of C++ code\<close>

section \<open>Bytes and machine words\<close>

type_synonym byte = "8 word"
type_synonym u16 = "16 word"
type_synonym u32 = "32 word"
type_synonym u64 = "64 word"

text \<open>
  The memory image of an integer that went through \<open>htons\<close>, \<open>htonl\<close> (most significant
  byte first), and its inverse.
\<close>

definition be16 :: "u16 \<Rightarrow> byte list" where
  "be16 w = [ucast (drop_bit 8 w), ucast w]"

definition be32 :: "u32 \<Rightarrow> byte list" where
  "be32 w = [ucast (drop_bit 24 w), ucast (drop_bit 16 w), ucast (drop_bit 8 w), ucast w]"

definition be64 :: "u64 \<Rightarrow> byte list" where
  "be64 w = be32 (ucast (drop_bit 32 w)) @ be32 (ucast w)"

definition cat16 :: "byte \<Rightarrow> byte \<Rightarrow> u16" where
  "cat16 a b = push_bit 8 (ucast a) OR ucast b"

definition cat32 :: "u16 \<Rightarrow> u16 \<Rightarrow> u32" where
  "cat32 a b = push_bit 16 (ucast a) OR ucast b"

definition cat64 :: "u32 \<Rightarrow> u32 \<Rightarrow> u64" where
  "cat64 a b = push_bit 32 (ucast a) OR ucast b"

fun unbe16 :: "byte list \<Rightarrow> u16" where
  "unbe16 [a, b] = cat16 a b"
| "unbe16 _ = 0"

fun unbe32 :: "byte list \<Rightarrow> u32" where
  "unbe32 [a, b, c, d] = cat32 (cat16 a b) (cat16 c d)"
| "unbe32 _ = 0"

definition unbe64 :: "byte list \<Rightarrow> u64" where
  "unbe64 bs = cat64 (unbe32 (take 4 bs)) (unbe32 (drop 4 bs))"

lemma cat16_split: "cat16 (ucast (drop_bit 8 w)) (ucast w) = w"
  unfolding cat16_def by (rule bit_word_eqI) (auto simp: bit_simps)

lemma cat32_split: "cat32 (ucast (drop_bit 16 w)) (ucast w) = w"
  unfolding cat32_def by (rule bit_word_eqI) (auto simp: bit_simps)

lemma cat64_split: "cat64 (ucast (drop_bit 32 w)) (ucast w) = w"
  unfolding cat64_def by (rule bit_word_eqI) (auto simp: bit_simps)

lemma cat16_hi: "ucast (drop_bit 8 (cat16 a b)) = a"
  unfolding cat16_def
  by (rule bit_word_eqI) (auto simp: bit_simps dest: bit_imp_le_length)

lemma cat16_lo: "ucast (cat16 a b) = b"
  unfolding cat16_def
  by (rule bit_word_eqI) (auto simp: bit_simps)

lemma cat32_hi: "ucast (drop_bit 16 (cat32 a b)) = a"
  unfolding cat32_def
  by (rule bit_word_eqI) (auto simp: bit_simps dest: bit_imp_le_length)

lemma cat32_lo: "ucast (cat32 a b) = b"
  unfolding cat32_def
  by (rule bit_word_eqI) (auto simp: bit_simps)

lemma cat64_hi: "ucast (drop_bit 32 (cat64 a b)) = a"
  unfolding cat64_def
  by (rule bit_word_eqI) (auto simp: bit_simps dest: bit_imp_le_length)

lemma cat64_lo: "ucast (cat64 a b) = b"
  unfolding cat64_def
  by (rule bit_word_eqI) (auto simp: bit_simps)

text \<open>A 32 bit word is two 16 bit halves, each encoded most significant byte first.\<close>

lemma be32_halves: "be32 w = be16 (ucast (drop_bit 16 w)) @ be16 (ucast w)"
proof -
  have "(ucast (drop_bit 24 w) :: byte) = ucast (drop_bit 8 (ucast (drop_bit 16 w) :: u16))"
    by (rule bit_word_eqI) (auto simp: bit_simps)
  moreover have "(ucast (drop_bit 16 w) :: byte) = ucast (ucast (drop_bit 16 w) :: u16)"
    by (rule bit_word_eqI) (auto simp: bit_simps)
  moreover have "(ucast (drop_bit 8 w) :: byte) = ucast (drop_bit 8 (ucast w :: u16))"
    by (rule bit_word_eqI) (auto simp: bit_simps)
  moreover have "(ucast w :: byte) = ucast (ucast w :: u16)"
    by (rule bit_word_eqI) (auto simp: bit_simps)
  ultimately show ?thesis by (simp add: be32_def be16_def)
qed

lemma length_be16 [simp, wire_simps]: "length (be16 w) = 2"
  by (simp add: be16_def)

lemma length_be32 [simp, wire_simps]: "length (be32 w) = 4"
  by (simp add: be32_def)

lemma length_be64 [simp, wire_simps]: "length (be64 w) = 8"
  by (simp add: be64_def)

lemma unbe16_be16 [simp, wire_simps]: "unbe16 (be16 w) = w"
  by (simp add: be16_def cat16_split)

lemma unbe32_be32 [simp, wire_simps]: "unbe32 (be32 w) = w"
proof -
  have "unbe32 (be32 w) = cat32 (unbe16 (be16 (ucast (drop_bit 16 w)))) (unbe16 (be16 (ucast w)))"
    unfolding be32_halves by (simp add: be16_def)
  then show ?thesis by (simp add: cat32_split)
qed

lemma unbe64_be64 [simp, wire_simps]: "unbe64 (be64 w) = w"
  by (simp add: unbe64_def be64_def cat64_split)

lemma be16_unbe16: "length bs = 2 \<Longrightarrow> be16 (unbe16 bs) = bs"
  by (auto simp: numeral_2_eq_2 length_Suc_conv be16_def cat16_hi cat16_lo)

lemma be32_unbe32: "length bs = 4 \<Longrightarrow> be32 (unbe32 bs) = bs"
proof -
  assume "length bs = 4"
  then obtain a b c d where bs: "bs = [a, b, c, d]"
    by (auto simp: eval_nat_numeral length_Suc_conv)
  then show ?thesis
    by (simp add: be32_halves cat32_hi cat32_lo be16_def cat16_hi cat16_lo)
qed

lemma be64_unbe64: "length bs = 8 \<Longrightarrow> be64 (unbe64 bs) = bs"
  by (simp add: unbe64_def be64_def cat64_hi cat64_lo be32_unbe32)

section \<open>Outcomes of C++ code\<close>

text \<open>
  A call returns a value, leaves with a C++ exception, or takes the process down: a failed
  \<open>assert\<close>, an integer division by zero, an access outside of an object, the use of a
  null pointer or of freed memory, or a loop that makes no progress.
\<close>

datatype exn = RecAlarm nat nat | RuntimeError string | BadAlloc | LogicError string

datatype crash = AssertFailed | DivByZero | OutOfBounds | NullPointer | NoProgress | UseAfterFree

datatype 'a outcome = Ok 'a | Throw exn | Crash crash

primrec returns :: "'a outcome \<Rightarrow> bool" where
  "returns (Ok _) = True"
| "returns (Throw _) = False"
| "returns (Crash _) = False"

primrec crashed :: "'a outcome \<Rightarrow> bool" where
  "crashed (Ok _) = False"
| "crashed (Throw _) = False"
| "crashed (Crash _) = True"

lemma returns_iff [outcome_simps]: "returns r \<longleftrightarrow> (\<exists>x. r = Ok x)"
  by (cases r) auto

lemma crashed_iff [outcome_simps]: "crashed r \<longleftrightarrow> (\<exists>c. r = Crash c)"
  by (cases r) auto

section \<open>Lists\<close>

text \<open>Overwriting a slice of a list in place: what \<open>memcpy\<close> into the middle of it does.\<close>

definition splice_at :: "nat \<Rightarrow> 'a list \<Rightarrow> 'a list \<Rightarrow> 'a list" where
  "splice_at i ys xs = take i xs @ ys @ drop (i + length ys) xs"

lemma length_splice_at [simp]: "i + length ys \<le> length xs \<Longrightarrow> length (splice_at i ys xs) = length xs"
  by (simp add: splice_at_def)

lemma splice_at_Nil [simp]: "splice_at i [] xs = xs"
  by (simp add: splice_at_def)

lemma take_drop_splice_at:
  "i + length ys \<le> length xs \<Longrightarrow> take (length ys) (drop i (splice_at i ys xs)) = ys"
  by (simp add: splice_at_def)

lemma splice_at_append1:
  "i + length ys \<le> length xs \<Longrightarrow> splice_at i ys (xs @ zs) = splice_at i ys xs @ zs"
  by (simp add: splice_at_def)

lemma splice_at_append2:
  "length xs \<le> i \<Longrightarrow> splice_at i ys (xs @ zs) = xs @ splice_at (i - length xs) ys zs"
  by (simp add: splice_at_def)

text \<open>A write that reaches the end of the first part goes on at the start of the second.\<close>

lemma splice_at_cross:
  assumes "i \<le> length xs" and "length xs - i \<le> length ys"
  shows "splice_at i ys (xs @ zs) =
    splice_at i (take (length xs - i) ys) xs @ splice_at 0 (drop (length xs - i) ys) zs"
proof -
  have "ys @ vs = take n ys @ drop n ys @ vs" for n vs
    by (simp flip: append_assoc)
  with assms show ?thesis by (simp add: splice_at_def add.commute)
qed

lemma take_add_drop: "take (m + n) xs = take m xs @ take n (drop m xs)"
  by (rule take_add)

lemma concat_upt_nth: "concat (map (\<lambda>i. xs ! i) [0..<length xs]) = concat xs"
  by (simp add: map_nth)

end
