(* ===== verification/Libevent.thy ===== *)
theory Libevent
  imports Psc_Prelude
begin

text \<open>
  The part of libevent that the driver calls on byte buffers. libevent is not part of the
  repository: its calls are the fields of a record \<open>evbuffer_api\<close>, a parameter of every
  definition that uses them, and what the driver relies on (the behaviour that
  event2/buffer.h documents) is the predicate \<open>evbuffer_lawful\<close>, a hypothesis of the
  theorems that need it.

  An evbuffer is a queue of bytes kept in a list of contiguous chunks (\<open>chains\<close>), together
  with the space at its end that a call of evbuffer_expand reserved (\<open>room\<close>). A call that
  reports failure returns \<open>None\<close>, or a negative count.
\<close>

section \<open>Byte queues\<close>

record evbuffer =
  chains :: "byte list list"
  room :: nat

definition evbytes :: "evbuffer \<Rightarrow> byte list" where
  "evbytes e = concat (chains e)"

record evbuffer_api =
  evbuffer_new :: "evbuffer option"
  evbuffer_get_length :: "evbuffer \<Rightarrow> nat"
  evbuffer_add :: "evbuffer \<Rightarrow> byte list \<Rightarrow> evbuffer option"
  evbuffer_expand :: "evbuffer \<Rightarrow> nat \<Rightarrow> evbuffer option"
  evbuffer_add_buffer :: "evbuffer \<Rightarrow> evbuffer \<Rightarrow> (evbuffer \<times> evbuffer) option"
  evbuffer_remove_buffer :: "evbuffer \<Rightarrow> evbuffer \<Rightarrow> nat \<Rightarrow> int \<times> evbuffer \<times> evbuffer"
  evbuffer_remove :: "evbuffer \<Rightarrow> nat \<Rightarrow> byte list \<times> evbuffer"
  evbuffer_drain :: "evbuffer \<Rightarrow> nat \<Rightarrow> evbuffer"
  evbuffer_copyout :: "evbuffer \<Rightarrow> nat \<Rightarrow> byte list"
  evbuffer_peek :: "evbuffer \<Rightarrow> nat \<Rightarrow> (nat \<times> nat) list"

section \<open>The documented behaviour\<close>

text \<open>
  The chunks of an evbuffer as the extents \<open>(chunk, length)\<close> that evbuffer_peek reports
  when it is asked for the whole content.
\<close>

definition extents :: "evbuffer \<Rightarrow> (nat \<times> nat) list" where
  "extents e = map (\<lambda>i. (i, length (chains e ! i))) [0..<length (chains e)]"

definition law_read :: "evbuffer_api \<Rightarrow> bool" where
  "law_read api \<longleftrightarrow>
     (\<forall>e. evbuffer_get_length api e = length (evbytes e)) \<and>
     (\<forall>e n. evbuffer_copyout api e n = take n (evbytes e)) \<and>
     (\<forall>e. evbuffer_peek api e (length (evbytes e)) = extents e)"

definition law_take :: "evbuffer_api \<Rightarrow> bool" where
  "law_take api \<longleftrightarrow>
     (\<forall>e n. fst (evbuffer_remove api e n) = take n (evbytes e)) \<and>
     (\<forall>e n. evbytes (snd (evbuffer_remove api e n)) = drop n (evbytes e)) \<and>
     (\<forall>e n. evbytes (evbuffer_drain api e n) = drop n (evbytes e))"

definition law_add :: "evbuffer_api \<Rightarrow> bool" where
  "law_add api \<longleftrightarrow>
     (\<forall>e bs e'. evbuffer_add api e bs = Some e' \<longrightarrow>
        evbytes e' = evbytes e @ bs \<and> room e \<le> room e' + length bs) \<and>
     (\<forall>e bs. length bs \<le> room e \<longrightarrow> evbuffer_add api e bs \<noteq> None) \<and>
     (\<forall>e n e'. evbuffer_expand api e n = Some e' \<longrightarrow> evbytes e' = evbytes e \<and> n \<le> room e')"

definition law_move :: "evbuffer_api \<Rightarrow> bool" where
  "law_move api \<longleftrightarrow>
     (\<forall>e. evbuffer_new api = Some e \<longrightarrow> evbytes e = []) \<and>
     (\<forall>d s d' s'. evbuffer_add_buffer api d s = Some (d', s') \<longrightarrow>
        evbytes d' = evbytes d @ evbytes s \<and> evbytes s' = []) \<and>
     (\<forall>s d n r s' d'. evbuffer_remove_buffer api s d n = (r, s', d') \<longrightarrow> 0 \<le> r \<longrightarrow>
        r = int (min n (length (evbytes s))) \<and>
        evbytes s' = drop n (evbytes s) \<and> evbytes d' = evbytes d @ take n (evbytes s))"

definition evbuffer_lawful :: "evbuffer_api \<Rightarrow> bool" where
  "evbuffer_lawful api \<longleftrightarrow> law_read api \<and> law_take api \<and> law_add api \<and> law_move api"

named_theorems ev_laws \<open>consequences of evbuffer_lawful\<close>

lemma ev_length [ev_laws]:
  "evbuffer_lawful api \<Longrightarrow> evbuffer_get_length api e = length (evbytes e)"
  by (simp add: evbuffer_lawful_def law_read_def)

lemma ev_copyout [ev_laws]:
  "evbuffer_lawful api \<Longrightarrow> evbuffer_copyout api e n = take n (evbytes e)"
  by (simp add: evbuffer_lawful_def law_read_def)

lemma ev_peek:
  "evbuffer_lawful api \<Longrightarrow> n = length (evbytes e) \<Longrightarrow> evbuffer_peek api e n = extents e"
  by (simp add: evbuffer_lawful_def law_read_def)

lemma ev_remove [ev_laws]:
  "evbuffer_lawful api \<Longrightarrow> fst (evbuffer_remove api e n) = take n (evbytes e)"
  "evbuffer_lawful api \<Longrightarrow> evbytes (snd (evbuffer_remove api e n)) = drop n (evbytes e)"
  by (simp_all add: evbuffer_lawful_def law_take_def)

lemma ev_drain [ev_laws]:
  "evbuffer_lawful api \<Longrightarrow> evbytes (evbuffer_drain api e n) = drop n (evbytes e)"
  by (simp add: evbuffer_lawful_def law_take_def)

lemma ev_add:
  assumes "evbuffer_lawful api" and "evbuffer_add api e bs = Some e'"
  shows "evbytes e' = evbytes e @ bs" and "room e \<le> room e' + length bs"
  using assms by (auto simp: evbuffer_lawful_def law_add_def)

lemma ev_add_room:
  "evbuffer_lawful api \<Longrightarrow> length bs \<le> room e \<Longrightarrow> \<exists>e'. evbuffer_add api e bs = Some e'"
  by (auto simp: evbuffer_lawful_def law_add_def)

lemma ev_expand:
  assumes "evbuffer_lawful api" and "evbuffer_expand api e n = Some e'"
  shows "evbytes e' = evbytes e" and "n \<le> room e'"
  using assms by (auto simp: evbuffer_lawful_def law_add_def)

lemma ev_new: "evbuffer_lawful api \<Longrightarrow> evbuffer_new api = Some e \<Longrightarrow> evbytes e = []"
  by (simp add: evbuffer_lawful_def law_move_def)

lemma ev_add_buffer:
  assumes "evbuffer_lawful api" and "evbuffer_add_buffer api d s = Some (d', s')"
  shows "evbytes d' = evbytes d @ evbytes s" and "evbytes s' = []"
  using assms by (auto simp: evbuffer_lawful_def law_move_def)

lemma ev_remove_buffer:
  assumes "evbuffer_lawful api" and "evbuffer_remove_buffer api s d n = (r, s', d')" and "0 \<le> r"
  shows "r = int (min n (length (evbytes s)))" and "evbytes s' = drop n (evbytes s)"
    and "evbytes d' = evbytes d @ take n (evbytes s)"
  using assms by (auto simp: evbuffer_lawful_def law_move_def)

text \<open>The calls that allocate memory fail only when there is none.\<close>

definition evbuffer_reliable :: "evbuffer_api \<Rightarrow> bool" where
  "evbuffer_reliable api \<longleftrightarrow>
     evbuffer_new api \<noteq> None \<and> (\<forall>e bs. evbuffer_add api e bs \<noteq> None) \<and>
     (\<forall>s d n. 0 \<le> fst (evbuffer_remove_buffer api s d n))"

lemma reliable_add: "evbuffer_reliable api \<Longrightarrow> \<exists>e'. evbuffer_add api e bs = Some e'"
  by (auto simp: evbuffer_reliable_def)

section \<open>A concrete instance\<close>

text \<open>
  A chunk queue that never runs out of memory. It shows that the documented behaviour can be
  met, and the concrete runs of the development use it.
\<close>

fun split_chains :: "nat \<Rightarrow> byte list list \<Rightarrow> byte list list \<times> byte list list" where
  "split_chains n [] = ([], [])"
| "split_chains n (c # cs) =
     (if n = 0 then ([], c # cs)
      else if length c \<le> n
      then (let (a, b) = split_chains (n - length c) cs in (c # a, b))
      else ([take n c], drop n c # cs))"

definition chunk_api :: evbuffer_api where
  "chunk_api =
     \<lparr>evbuffer_new = Some \<lparr>chains = [], room = 0\<rparr>,
      evbuffer_get_length = (\<lambda>e. length (concat (chains e))),
      evbuffer_add = (\<lambda>e bs. Some \<lparr>chains = chains e @ (if bs = [] then [] else [bs]),
                                   room = room e - length bs\<rparr>),
      evbuffer_expand = (\<lambda>e n. Some (e\<lparr>room := max n (room e)\<rparr>)),
      evbuffer_add_buffer = (\<lambda>d s. Some (\<lparr>chains = chains d @ chains s, room = room s\<rparr>,
                                        \<lparr>chains = [], room = 0\<rparr>)),
      evbuffer_remove_buffer = (\<lambda>s d n. let (a, b) = split_chains n (chains s) in
         (int (length (concat a)), s\<lparr>chains := b\<rparr>, \<lparr>chains = chains d @ a, room = 0\<rparr>)),
      evbuffer_remove = (\<lambda>e n. let (a, b) = split_chains n (chains e) in
         (concat a, e\<lparr>chains := b\<rparr>)),
      evbuffer_drain = (\<lambda>e n. e\<lparr>chains := snd (split_chains n (chains e))\<rparr>),
      evbuffer_copyout = (\<lambda>e n. take n (concat (chains e))),
      evbuffer_peek = (\<lambda>e n. map (\<lambda>i. (i, length (chains e ! i))) [0..<length (chains e)])\<rparr>"

lemma split_chains_concat:
  "concat (fst (split_chains n cs)) = take n (concat cs)"
  "concat (snd (split_chains n cs)) = drop n (concat cs)"
  by (induction n cs rule: split_chains.induct) (auto simp: case_prod_beta Let_def)

lemma chunk_api_lawful: "evbuffer_lawful chunk_api"
  unfolding evbuffer_lawful_def law_read_def law_take_def law_add_def law_move_def
  by (auto simp: chunk_api_def evbytes_def extents_def case_prod_beta Let_def split_chains_concat)

lemma chunk_api_reliable: "evbuffer_reliable chunk_api"
  by (simp add: evbuffer_reliable_def chunk_api_def case_prod_beta)

end
