(* ===== verification/Dbuffer.thy ===== *)
theory Dbuffer
  imports Libevent
begin

text \<open>
  The discontiguous byte buffer \<open>dbuffer\<close> of coreApp/src/psc/evbase.h and evbase.cpp, which
  holds the body of every message. Its bytes live either in a vector (\<open>backingv\<close>) or in an
  evbuffer (\<open>backingb\<close>), and are reached through \<open>strides\<close>, a list of pointers into that
  memory. Every copy goes through a cursor over the strides (\<open>stride_ptr\<close>).

  The theory models each operation on that representation, states the representation
  invariant \<open>dbuffer_ok\<close> and the abstraction \<open>dbytes\<close> (the plain list of bytes), and shows that
  the operations implement the obvious operations on byte lists, whatever the strides are.
\<close>

section \<open>Representation\<close>

datatype iov_ptr = PVec | PChain nat

record iovec =
  iov_base :: iov_ptr
  iov_len :: nat

record dbuffer =
  strides :: "iovec list"
  backingv :: "byte list"
  backingb :: "evbuffer option"

text \<open>The memory a pointer designates, and a store to it.\<close>

fun region :: "dbuffer \<Rightarrow> iov_ptr \<Rightarrow> byte list" where
  "region d PVec = backingv d"
| "region d (PChain i) =
     (case backingb d of None \<Rightarrow> []
      | Some e \<Rightarrow> if i < length (chains e) then chains e ! i else [])"

fun store :: "dbuffer \<Rightarrow> iov_ptr \<Rightarrow> byte list \<Rightarrow> dbuffer" where
  "store d PVec m = d\<lparr>backingv := m\<rparr>"
| "store d (PChain i) m =
     (case backingb d of None \<Rightarrow> d
      | Some e \<Rightarrow> d\<lparr>backingb := Some (e\<lparr>chains := (chains e)[i := m]\<rparr>)\<rparr>)"

section \<open>Operations\<close>

definition dbuffer_empty :: dbuffer where
  "dbuffer_empty = \<lparr>strides = [], backingv = [], backingb = None\<rparr>"

definition vec_stride :: "nat \<Rightarrow> iovec list" where
  "vec_stride n = [\<lparr>iov_base = PVec, iov_len = n\<rparr>]"

definition dbuffer_new :: "nat \<Rightarrow> dbuffer" where
  "dbuffer_new n = \<lparr>strides = vec_stride n, backingv = replicate n 0, backingb = None\<rparr>"

definition dbuffer_size :: "evbuffer_api \<Rightarrow> dbuffer \<Rightarrow> nat" where
  "dbuffer_size api d =
     (case backingb d of Some b \<Rightarrow> evbuffer_get_length api b | None \<Rightarrow> length (backingv d))"

definition dbuffer_clear :: "dbuffer \<Rightarrow> dbuffer" where
  "dbuffer_clear d = \<lparr>strides = [], backingv = [], backingb = None\<rparr>"

text \<open>The largest vector of char: beyond it \<open>reserve\<close> throws std::length_error.\<close>

definition vec_max :: nat where
  "vec_max = 2 ^ 63 - 1"

definition vec_resize :: "byte list \<Rightarrow> nat \<Rightarrow> byte list" where
  "vec_resize v n = take n v @ replicate (n - length v) 0"

definition dbuffer_resize :: "evbuffer_api \<Rightarrow> dbuffer \<Rightarrow> nat \<Rightarrow> dbuffer \<times> unit outcome" where
  "dbuffer_resize api d newlen =
     (if newlen > vec_max then (d, Throw (LogicError ''vector::reserve''))
      else
        let v = (case backingb d of
                   Some b \<Rightarrow> splice_at 0 (evbuffer_copyout api b newlen) (replicate newlen 0)
                 | None \<Rightarrow> vec_resize (backingv d) newlen)
        in (\<lparr>strides = vec_stride newlen, backingv = v, backingb = None\<rparr>, Ok ()))"

definition dbuffer_assign :: "dbuffer \<Rightarrow> byte list \<Rightarrow> dbuffer" where
  "dbuffer_assign d buf =
     \<lparr>strides = vec_stride (length buf), backingv = buf, backingb = None\<rparr>"

text \<open>
  The loop of \<open>consume\<close> that grows the vector of strides: evbuffer_peek reports how many
  extents there are, and the vector (2 entries at first) is doubled until they fit. The
  capacity is \<open>2 ^ Suc k\<close>.
\<close>

function peek_loop :: "evbuffer_api \<Rightarrow> evbuffer \<Rightarrow> nat \<Rightarrow> nat \<Rightarrow> iovec list" where
  "peek_loop api b len k =
     (let ext = evbuffer_peek api b len; nstrides = length ext
      in if nstrides \<le> 2 ^ Suc k
         then map (\<lambda>(i, n). \<lparr>iov_base = PChain i, iov_len = n\<rparr>) (take nstrides ext)
         else peek_loop api b len (Suc k))"
  by pat_completeness auto
termination
proof (relation "measure (\<lambda>(api, b, len, k). length (evbuffer_peek api b len) - k)", goal_cases)
  case (2 api b len k x xa)
  have "k < (2::nat) ^ Suc k" by (induction k) auto
  with 2 show ?case by simp
qed simp

declare peek_loop.simps [simp del]

definition dbuffer_consume ::
  "evbuffer_api \<Rightarrow> dbuffer \<Rightarrow> evbuffer \<Rightarrow> nat \<Rightarrow> (dbuffer \<times> evbuffer) \<times> unit outcome" where
  "dbuffer_consume api d buf len =
     (let total = evbuffer_get_length api buf;
          len = (if len > total then total else len)
      in case evbuffer_new api of
           None \<Rightarrow> ((d, buf), Throw BadAlloc)
         | Some b \<Rightarrow>
             (case evbuffer_remove_buffer api buf b len of (ret, buf', b') \<Rightarrow>
                if ret \<noteq> int len then ((d, buf'), Throw (LogicError ''consume() move buffer fail''))
                else ((\<lparr>strides = peek_loop api b' len 0, backingv = [], backingb = Some b'\<rparr>, buf'),
                      Ok ())))"

text \<open>
  \<open>stride_ptr::copy\<close>: the destination is null (skip), an output buffer, or the source of a
  write. The cursor is the pair of the members \<open>stride\<close> and \<open>off\<close>.
\<close>

datatype xfer = XSkip | XOut "byte list" | XIn "byte list"

record cursor =
  stride :: nat
  off :: nat

definition cursor_start :: cursor where
  "cursor_start = \<lparr>stride = 0, off = 0\<rparr>"

fun move :: "dbuffer \<Rightarrow> iovec \<Rightarrow> nat \<Rightarrow> nat \<Rightarrow> xfer \<Rightarrow> dbuffer \<times> xfer" where
  "move d v o' ncopy XSkip = (d, XSkip)"
| "move d v o' ncopy (XOut dest) =
     (d, XOut (dest @ take ncopy (drop o' (region d (iov_base v)))))"
| "move d v o' ncopy (XIn src) =
     (store d (iov_base v) (splice_at o' (take ncopy src) (region d (iov_base v))),
      XIn (drop ncopy src))"

lemma strides_store [simp]: "strides (store d p m) = strides d"
  by (cases p) (auto split: option.splits)

lemma strides_move [simp]: "strides (fst (move d v o' n x)) = strides d"
  by (cases x) auto

function copy ::
  "dbuffer \<Rightarrow> nat \<Rightarrow> xfer \<Rightarrow> cursor \<Rightarrow> nat \<Rightarrow> dbuffer \<times> xfer \<times> cursor \<times> nat" where
  "copy d n x c nmoved =
     (if n \<noteq> 0 \<and> stride c < length (strides d) then
        let v = strides d ! stride c;
            avail = iov_len v - off c;
            r = move d v (off c) (min n avail) x
        in if n \<ge> avail
           then copy (fst r) (n - avail) (snd r) \<lparr>stride = Suc (stride c), off = 0\<rparr> (nmoved + avail)
           else (fst r, snd r, c\<lparr>off := off c + n\<rparr>, nmoved + n)
      else (d, x, c, nmoved))"
  by pat_completeness auto
termination
  by (relation "measure (\<lambda>(d, n, x, c, m). length (strides d) - stride c)") auto

declare copy.simps [simp del]

definition dbuffer_copyin :: "dbuffer \<Rightarrow> byte list \<Rightarrow> nat \<Rightarrow> dbuffer \<times> bool" where
  "dbuffer_copyin d buf offset =
     (case copy d offset XSkip cursor_start 0 of (d1, _, c1, _) \<Rightarrow>
        case copy d1 (length buf) (XIn buf) c1 0 of (d2, _, _, nmoved) \<Rightarrow>
          (d2, nmoved = length buf))"

text \<open>The element loop of \<open>copyout_shape\<close>, for the elements \<open>e, \<dots>, actual - 1\<close>.\<close>

fun shape_loop :: "dbuffer \<Rightarrow> nat \<Rightarrow> nat \<Rightarrow> cursor \<Rightarrow> nat \<Rightarrow> byte list \<Rightarrow> byte list" where
  "shape_loop d esize eskip c 0 dest = dest"
| "shape_loop d esize eskip c (Suc left) dest =
     (case copy d esize (XOut dest) c 0 of (_, XOut dest', c', _) \<Rightarrow>
        (if left > 0
         then (case copy d eskip XSkip c' 0 of (_, _, c'', _) \<Rightarrow>
                 shape_loop d esize eskip c'' left dest')
         else shape_loop d esize eskip c' left dest')
      | (_, _, c', _) \<Rightarrow> dest)"

text \<open>
  \<open>copyout_shape\<close> returns the number of elements and what it wrote to the destination. The
  sums of \<open>size_t\<close> wrap at \<open>2 ^ 64\<close>; a divisor of zero traps.
\<close>

definition copyout_shape ::
  "evbuffer_api \<Rightarrow> dbuffer \<Rightarrow> nat \<Rightarrow> nat \<Rightarrow> nat \<Rightarrow> nat \<Rightarrow> (nat \<times> byte list) outcome" where
  "copyout_shape api d offset esize eskip ecount =
     (let total = dbuffer_size api d
      in if ecount = 0 \<or> offset \<ge> total then Ok (0, [])
         else
           let divisor = (esize + eskip) mod 2 ^ 64
           in if divisor = 0 then Crash DivByZero
              else
                let fit = (total - offset + eskip) mod 2 ^ 64 div divisor;
                    actual = (if fit > ecount then ecount else fit);
                    c = fst (snd (snd (copy d offset XSkip cursor_start 0)))
                in Ok (actual, shape_loop d esize eskip c actual []))"

definition dbuffer_copyout ::
  "evbuffer_api \<Rightarrow> dbuffer \<Rightarrow> nat \<Rightarrow> nat \<Rightarrow> (bool \<times> byte list) outcome" where
  "dbuffer_copyout api d offset nbytes =
     (case copyout_shape api d offset nbytes 0 1 of
        Ok (n, dest) \<Rightarrow> Ok (n = 1, dest) | Throw x \<Rightarrow> Throw x | Crash x \<Rightarrow> Crash x)"

text \<open>\<open>copyout(evbuffer*)\<close> appends the strides to an evbuffer, one after the other.\<close>

fun copyout_ev_loop ::
  "evbuffer_api \<Rightarrow> dbuffer \<Rightarrow> iovec list \<Rightarrow> evbuffer \<Rightarrow> evbuffer \<times> unit outcome" where
  "copyout_ev_loop api d [] dest = (dest, Ok ())"
| "copyout_ev_loop api d (v # vs) dest =
     (case evbuffer_add api dest (take (iov_len v) (region d (iov_base v))) of
        None \<Rightarrow> (dest, Throw (RuntimeError ''copyout() evbuffer_add() error''))
      | Some dest' \<Rightarrow> copyout_ev_loop api d vs dest')"

definition copyout_ev :: "evbuffer_api \<Rightarrow> dbuffer \<Rightarrow> evbuffer \<Rightarrow> evbuffer \<times> unit outcome" where
  "copyout_ev api d dest = copyout_ev_loop api d (strides d) dest"


section \<open>Invariant and abstraction\<close>

text \<open>
  The strides are the whole vector, or every chunk of the evbuffer in order; a buffer that
  was never filled has none.
\<close>

definition chain_strides :: "evbuffer \<Rightarrow> iovec list" where
  "chain_strides b =
     map (\<lambda>i. \<lparr>iov_base = PChain i, iov_len = length (chains b ! i)\<rparr>) [0..<length (chains b)]"

definition dbuffer_ok :: "dbuffer \<Rightarrow> bool" where
  "dbuffer_ok d \<longleftrightarrow>
     (case backingb d of
        Some b \<Rightarrow> backingv d = [] \<and> strides d = chain_strides b
      | None \<Rightarrow> strides d = vec_stride (length (backingv d)) \<or> strides d = [] \<and> backingv d = [])"

definition dbytes :: "dbuffer \<Rightarrow> byte list" where
  "dbytes d = (case backingb d of Some b \<Rightarrow> evbytes b | None \<Rightarrow> backingv d)"

text \<open>What the strides show of the memory, and the part of it that a cursor has ahead.\<close>

definition parts :: "dbuffer \<Rightarrow> byte list list" where
  "parts d = map (\<lambda>v. region d (iov_base v)) (strides d)"

definition ahead :: "dbuffer \<Rightarrow> cursor \<Rightarrow> byte list" where
  "ahead d c =
     (if stride c < length (parts d)
      then drop (off c) (parts d ! stride c) @ concat (drop (Suc (stride c)) (parts d)) else [])"

definition behind :: "dbuffer \<Rightarrow> cursor \<Rightarrow> byte list" where
  "behind d c =
     concat (take (stride c) (parts d)) @
     (if stride c < length (parts d) then take (off c) (parts d ! stride c) else [])"

definition cursor_ok :: "dbuffer \<Rightarrow> cursor \<Rightarrow> bool" where
  "cursor_ok d c \<longleftrightarrow> stride c < length (strides d) \<longrightarrow> off c \<le> length (parts d ! stride c)"

lemma length_parts [simp]: "length (parts d) = length (strides d)"
  by (simp add: parts_def)

lemma dbuffer_ok_distinct: "dbuffer_ok d \<Longrightarrow> distinct (map iov_base (strides d))"
  by (auto simp: dbuffer_ok_def vec_stride_def chain_strides_def distinct_map inj_on_def comp_def
      split: option.splits)

lemma dbuffer_ok_len:
  "dbuffer_ok d \<Longrightarrow> v \<in> set (strides d) \<Longrightarrow> iov_len v = length (region d (iov_base v))"
  by (auto simp: dbuffer_ok_def vec_stride_def chain_strides_def split: option.splits)

lemma dbuffer_ok_nth:
  "dbuffer_ok d \<Longrightarrow> i < length (strides d) \<Longrightarrow> iov_len (strides d ! i) = length (parts d ! i)"
  by (simp add: parts_def dbuffer_ok_len)

lemma concat_parts: "dbuffer_ok d \<Longrightarrow> concat (parts d) = dbytes d"
proof (cases "backingb d")
  case (Some b)
  assume "dbuffer_ok d"
  with Some have "parts d = map (\<lambda>i. chains b ! i) [0..<length (chains b)]"
    by (auto simp: dbuffer_ok_def parts_def chain_strides_def)
  with Some show ?thesis by (simp add: dbytes_def evbytes_def map_nth)
qed (auto simp: dbuffer_ok_def parts_def dbytes_def vec_stride_def)

lemma behind_ahead:
  assumes "dbuffer_ok d" and "cursor_ok d c"
  shows "behind d c @ ahead d c = dbytes d"
proof (cases "stride c < length (strides d)")
  case True
  then have "take (stride c) (parts d) @ parts d ! stride c # drop (Suc (stride c)) (parts d) = parts d"
    by (simp add: id_take_nth_drop [symmetric])
  then have "concat (take (stride c) (parts d)) @ parts d ! stride c @
      concat (drop (Suc (stride c)) (parts d)) = concat (parts d)"
    by (metis concat.simps(2) concat_append)
  with True concat_parts [OF assms(1)] show ?thesis
    by (simp add: behind_def ahead_def) (metis append.assoc append_take_drop_id)
next
  case False
  with concat_parts [OF assms(1)] show ?thesis
    by (simp add: behind_def ahead_def)
qed

lemma ahead_start: "dbuffer_ok d \<Longrightarrow> ahead d cursor_start = dbytes d"
  by (cases "parts d") (auto simp: ahead_def cursor_start_def concat_parts [symmetric])

lemma behind_start [simp]: "behind d cursor_start = []"
  by (simp add: behind_def cursor_start_def)

lemma cursor_ok_start [simp]: "cursor_ok d cursor_start"
  by (simp add: cursor_ok_def cursor_start_def)

lemma dbuffer_size_eq:
  "evbuffer_lawful api \<Longrightarrow> dbuffer_size api d = length (dbytes d)"
  by (simp add: dbuffer_size_def dbytes_def ev_laws split: option.splits)

section \<open>The cursor\<close>

text \<open>
  Moving over the rest of a stride, or into the middle of it: what is ahead of and behind
  the cursor afterwards.
\<close>

lemma ahead_next:
  assumes "cursor_ok d c" and "stride c < length (strides d)"
  shows "ahead d c = drop (off c) (parts d ! stride c) @ ahead d \<lparr>stride = Suc (stride c), off = 0\<rparr>"
    and "behind d \<lparr>stride = Suc (stride c), off = 0\<rparr> = behind d c @ drop (off c) (parts d ! stride c)"
    and "cursor_ok d \<lparr>stride = Suc (stride c), off = 0\<rparr>"
proof -
  show "ahead d c = drop (off c) (parts d ! stride c) @ ahead d \<lparr>stride = Suc (stride c), off = 0\<rparr>"
    using assms(2) by (auto simp: ahead_def Cons_nth_drop_Suc [symmetric])
  show "behind d \<lparr>stride = Suc (stride c), off = 0\<rparr> = behind d c @ drop (off c) (parts d ! stride c)"
    using assms(2) by (auto simp: behind_def take_Suc_conv_app_nth)
  show "cursor_ok d \<lparr>stride = Suc (stride c), off = 0\<rparr>"
    by (simp add: cursor_ok_def)
qed

lemma ahead_within:
  assumes "cursor_ok d c" and "stride c < length (strides d)"
    and "n < length (parts d ! stride c) - off c"
  shows "ahead d (c\<lparr>off := off c + n\<rparr>) = drop n (ahead d c)"
    and "behind d (c\<lparr>off := off c + n\<rparr>) = behind d c @ take n (ahead d c)"
    and "cursor_ok d (c\<lparr>off := off c + n\<rparr>)"
proof -
  show "ahead d (c\<lparr>off := off c + n\<rparr>) = drop n (ahead d c)"
    using assms(2,3) by (auto simp: ahead_def add.commute)
  show "behind d (c\<lparr>off := off c + n\<rparr>) = behind d c @ take n (ahead d c)"
    using assms(2,3) by (auto simp: behind_def ahead_def take_add)
  show "cursor_ok d (c\<lparr>off := off c + n\<rparr>)"
    using assms by (auto simp: cursor_ok_def)
qed

text \<open>Skipping and reading: the memory is not touched.\<close>

fun xfer_read :: "xfer \<Rightarrow> byte list \<Rightarrow> xfer" where
  "xfer_read XSkip bs = XSkip"
| "xfer_read (XOut dest) bs = XOut (dest @ bs)"
| "xfer_read (XIn src) bs = XIn src"

fun is_read :: "xfer \<Rightarrow> bool" where
  "is_read (XIn _) = False"
| "is_read _ = True"

lemma xfer_read_Nil [simp]: "xfer_read x [] = x"
  by (cases x) auto

lemma xfer_read_append: "xfer_read (xfer_read x as) bs = xfer_read x (as @ bs)"
  by (cases x) auto

lemma is_read_xfer_read [simp]: "is_read (xfer_read x bs) = is_read x"
  by (cases x) auto

lemma move_read:
  "is_read x \<Longrightarrow>
   move d v k n x = (d, xfer_read x (take n (drop k (region d (iov_base v)))))"
  by (cases x) auto

lemma copy_read:
  assumes "dbuffer_ok d" and "cursor_ok d c" and "is_read x"
  shows "\<exists>c'. copy d n x c m =
             (d, xfer_read x (take n (ahead d c)), c', m + min n (length (ahead d c))) \<and>
           cursor_ok d c' \<and> ahead d c' = drop n (ahead d c) \<and>
           behind d c' = behind d c @ take n (ahead d c)"
  using assms
proof (induction d n x c m rule: copy.induct)
  case (1 d n x c m)
  define a where "a = length (parts d ! stride c) - off c"
  show ?case
  proof (cases "n \<noteq> 0 \<and> stride c < length (strides d)")
    case False
    then show ?thesis
      using "1.prems" by (auto simp: copy.simps [of d n x c m] ahead_def)
  next
    case True
    then have len: "iov_len (strides d ! stride c) - off c = a"
      using "1.prems"(1) by (simp add: a_def dbuffer_ok_nth)
    have part: "region d (iov_base (strides d ! stride c)) = parts d ! stride c"
      using True by (simp add: parts_def)
    let ?c = "\<lparr>stride = Suc (stride c), off = 0\<rparr>"
    note nxt = ahead_next [OF "1.prems"(2) conjunct2 [OF True]]
    have alen: "length (drop (off c) (parts d ! stride c)) = a"
      by (simp add: a_def)
    show ?thesis
    proof (cases "n \<ge> a")
      case big: True
      let ?x = "xfer_read x (take a (drop (off c) (parts d ! stride c)))"
      have mv: "move d (strides d ! stride c) (off c) a x = (d, ?x)"
        using "1.prems"(3) by (simp add: move_read part)
      have "copy d n x c m = copy d (n - a) ?x ?c (m + a)"
        using True big by (simp add: copy.simps [of d n x c m] len mv Let_def)
      moreover have "\<exists>c'. copy d (n - a) ?x ?c (m + a) =
             (d, xfer_read ?x (take (n - a) (ahead d ?c)), c',
              m + a + min (n - a) (length (ahead d ?c))) \<and>
           cursor_ok d c' \<and> ahead d c' = drop (n - a) (ahead d ?c) \<and>
           behind d c' = behind d ?c @ take (n - a) (ahead d ?c)"
        using "1.IH" [OF True refl refl refl] True big "1.prems" mv nxt(3) by (simp add: len)
      ultimately show ?thesis
        using nxt(1,2) big alen by (auto simp: xfer_read_append)
    next
      case small: False
      have mv: "move d (strides d ! stride c) (off c) n x =
          (d, xfer_read x (take n (drop (off c) (parts d ! stride c))))"
        using "1.prems"(3) by (simp add: move_read part)
      have "take n (drop (off c) (parts d ! stride c)) = take n (ahead d c)"
        using nxt(1) small alen by simp
      moreover have "n \<le> length (ahead d c)"
        using nxt(1) small alen by simp
      ultimately show ?thesis
        using True small ahead_within [OF "1.prems"(2) conjunct2 [OF True], of n]
        by (auto simp: copy.simps [of d n x c m] len mv a_def Let_def)
    qed
  qed
qed


text \<open>Writing: a store through one stride changes that part only, and keeps the invariant.\<close>

lemma parts_chains: "dbuffer_ok d \<Longrightarrow> backingb d = Some b \<Longrightarrow> parts d = chains b"
  by (auto simp: dbuffer_ok_def parts_def chain_strides_def intro: nth_equalityI)

lemma store_part:
  assumes "dbuffer_ok d" and "i < length (strides d)" and "length w = length (parts d ! i)"
  shows "parts (store d (iov_base (strides d ! i)) w) = (parts d)[i := w]"
    and "dbuffer_ok (store d (iov_base (strides d ! i)) w)"
proof -
  let ?d = "store d (iov_base (strides d ! i)) w"
  have "parts ?d = (parts d)[i := w] \<and> dbuffer_ok ?d"
  proof (cases "backingb d")
    case None
    with assms show ?thesis
      by (auto simp: dbuffer_ok_def vec_stride_def parts_def)
  next
    case (Some b)
    with assms have i: "iov_base (strides d ! i) = PChain i" "i < length (chains b)"
      by (auto simp: dbuffer_ok_def chain_strides_def)
    have "length w = length (chains b ! i)"
      using parts_chains [OF assms(1) Some] assms(3) by simp
    then have "chain_strides (b\<lparr>chains := (chains b)[i := w]\<rparr>) = chain_strides b"
      using i(2) by (auto simp: chain_strides_def nth_list_update)
    with assms(1) Some i have ok: "dbuffer_ok ?d"
      by (simp add: dbuffer_ok_def)
    then show ?thesis
      using Some i parts_chains [OF ok] parts_chains [OF assms(1) Some] by simp
  qed
  then show "parts ?d = (parts d)[i := w]" and "dbuffer_ok ?d" by auto
qed

lemma store_cursor:
  assumes "dbuffer_ok d" and "cursor_ok d c" and "stride c < length (strides d)"
    and "off c + length w \<le> length (parts d ! stride c)"
  defines "d' \<equiv> store d (iov_base (strides d ! stride c)) (splice_at (off c) w (parts d ! stride c))"
  shows "dbuffer_ok d'" and "cursor_ok d' c" and "behind d' c = behind d c"
    and "ahead d' c = w @ drop (length w) (ahead d c)"
    and "length (parts d' ! stride c) = length (parts d ! stride c)"
proof -
  note st = store_part [OF assms(1,3), of "splice_at (off c) w (parts d ! stride c)"]
  show ok: "dbuffer_ok d'" using st(2) assms(4) by (simp add: d'_def)
  have p: "parts d' = (parts d)[stride c := splice_at (off c) w (parts d ! stride c)]"
    using st(1) assms(4) by (simp add: d'_def)
  then show l: "length (parts d' ! stride c) = length (parts d ! stride c)"
    using assms(3,4) by simp
  then show "cursor_ok d' c" using assms(2) by (simp add: cursor_ok_def d'_def)
  show "behind d' c = behind d c"
    using p assms(3,4) by (simp add: behind_def splice_at_def)
  show "ahead d' c = w @ drop (length w) (ahead d c)"
    using p assms(3,4) by (simp add: ahead_def splice_at_def add.commute)
qed

lemma copy_write:
  assumes "dbuffer_ok d" and "cursor_ok d c" and "n \<le> length src"
  shows "\<exists>d' c' src'. copy d n (XIn src) c m = (d', XIn src', c', m + min n (length (ahead d c))) \<and>
           dbuffer_ok d' \<and> cursor_ok d' c' \<and>
           behind d' c' = behind d c @ take (min n (length (ahead d c))) src \<and>
           ahead d' c' = drop n (ahead d c)"
  using assms
proof (induction d n "XIn src" c m arbitrary: src rule: copy.induct)
  case (1 d n c m src)
  define a where "a = length (parts d ! stride c) - off c"
  show ?case
  proof (cases "n \<noteq> 0 \<and> stride c < length (strides d)")
    case False
    then show ?thesis
      using "1.prems" by (auto simp: copy.simps [of d n _ c m] ahead_def)
  next
    case True
    then have sc: "stride c < length (strides d)" ..
    have len: "iov_len (strides d ! stride c) - off c = a"
      using "1.prems"(1) sc by (simp add: a_def dbuffer_ok_nth)
    have part: "region d (iov_base (strides d ! stride c)) = parts d ! stride c"
      using sc by (simp add: parts_def)
    have offs: "off c \<le> length (parts d ! stride c)"
      using "1.prems"(2) sc by (simp add: cursor_ok_def)
    have alen: "length (drop (off c) (parts d ! stride c)) = a"
      by (simp add: a_def)
    note al = ahead_next [OF "1.prems"(2) sc]
    define k where "k = min n a"
    define d1 where "d1 = store d (iov_base (strides d ! stride c))
        (splice_at (off c) (take k src) (parts d ! stride c))"
    have fits: "off c + length (take k src) \<le> length (parts d ! stride c)"
      using offs by (auto simp: k_def a_def)
    have lk: "length (take k src) = k" using "1.prems"(3) by (auto simp: k_def)
    note sto = store_cursor [OF "1.prems"(1,2) sc fits, folded d1_def]
    have mv: "move d (strides d ! stride c) (off c) k (XIn src) = (d1, XIn (drop k src))"
      by (simp add: part d1_def)
    have sc1: "stride c < length (strides d1)" using sc by (simp add: d1_def)
    show ?thesis
    proof (cases "n \<ge> a")
      case big: True
      let ?c = "\<lparr>stride = Suc (stride c), off = 0\<rparr>"
      have ka: "k = a" using big by (simp add: k_def)
      note nx = ahead_next [OF sto(2) sc1]
      have d1a: "drop (off c) (parts d1 ! stride c) = take a src"
        using nx(1) sto(4,5) lk ka al(1) alen by (metis append_eq_append_conv length_drop)
      have "copy d n (XIn src) c m = copy d1 (n - a) (XIn (drop a src)) ?c (m + a)"
        using True big mv ka by (simp add: copy.simps [of d n _ c m] len Let_def)
      moreover have ah: "ahead d1 ?c = ahead d ?c"
        using nx(1) sto(4) d1a lk ka al(1) alen by simp
      moreover have "behind d1 ?c = behind d c @ take a src"
        using nx(2) sto(3) d1a by simp
      moreover have "\<exists>d' c' src'. copy d1 (n - a) (XIn (drop a src)) ?c (m + a) =
          (d', XIn src', c', m + a + min (n - a) (length (ahead d1 ?c))) \<and>
           dbuffer_ok d' \<and> cursor_ok d' c' \<and>
           behind d' c' = behind d1 ?c @ take (min (n - a) (length (ahead d1 ?c))) (drop a src) \<and>
           ahead d' c' = drop (n - a) (ahead d1 ?c)"
        using "1.hyps" [OF True refl refl refl, of "drop a src"] big mv sto(1) nx(3) "1.prems"(3) ka
        by (simp add: len)
      moreover have lah: "length (ahead d c) = a + length (ahead d ?c)"
        and dah: "drop n (ahead d c) = drop (n - a) (ahead d ?c)"
        using al(1) big by (simp_all add: a_def)
      moreover have mn: "min n (length (ahead d c)) = a + min (n - a) (length (ahead d ?c))"
        using lah big by simp
      moreover have "take (min n (length (ahead d c))) src =
          take a src @ take (min (n - a) (length (ahead d ?c))) (drop a src)"
        unfolding mn by (rule take_add)
      ultimately show ?thesis
        by (simp del: take_take drop_drop add: add.assoc)
    next
      case small: False
      have kn: "k = n" using small by (simp add: k_def)
      have "n \<le> length (ahead d c)" using al(1) small alen by simp
      moreover have "n < length (parts d1 ! stride c) - off c"
        using small sto(5) by (simp add: a_def)
      ultimately show ?thesis
        using True small mv kn sto ahead_within [OF sto(2) sc1, of n] lk
        by (auto simp: copy.simps [of d n _ c m] len Let_def)
    qed
  qed
qed


section \<open>Refinement: the operations on the byte list\<close>

lemma copy_skip_start:
  assumes "dbuffer_ok d"
  shows "\<exists>c. copy d n XSkip cursor_start 0 = (d, XSkip, c, min n (length (dbytes d))) \<and>
    cursor_ok d c \<and> ahead d c = drop n (dbytes d) \<and> behind d c = take n (dbytes d)"
  using copy_read [OF assms cursor_ok_start, of XSkip n 0] by (simp add: ahead_start assms)

text \<open>\<open>copyin\<close>: what fits is written, and the result tells whether all of it did.\<close>

lemma copyin_refines:
  assumes "dbuffer_ok d"
  shows "dbuffer_ok (fst (dbuffer_copyin d w k))"
    and "dbytes (fst (dbuffer_copyin d w k)) =
      take k (dbytes d) @ take (length (dbytes d) - k) w @ drop (k + length w) (dbytes d)"
    and "snd (dbuffer_copyin d w k) \<longleftrightarrow> length w \<le> length (dbytes d) - k"
proof -
  obtain c where c: "copy d k XSkip cursor_start 0 = (d, XSkip, c, min k (length (dbytes d)))"
    "cursor_ok d c" "ahead d c = drop k (dbytes d)" "behind d c = take k (dbytes d)"
    using copy_skip_start [OF assms] by blast
  obtain d' c' w' where w: "copy d (length w) (XIn w) c 0 =
      (d', XIn w', c', min (length w) (length (dbytes d) - k))"
    "dbuffer_ok d'" "cursor_ok d' c'"
    "behind d' c' = take k (dbytes d) @ take (min (length w) (length (dbytes d) - k)) w"
    "ahead d' c' = drop (length w) (drop k (dbytes d))"
    using copy_write [OF assms c(2), of "length w" w 0] c(3,4) by auto
  have r: "dbuffer_copyin d w k = (d', min (length w) (length (dbytes d) - k) = length w)"
    by (simp add: dbuffer_copyin_def c(1) w(1))
  then show "dbuffer_ok (fst (dbuffer_copyin d w k))" using w(2) by simp
  show "dbytes (fst (dbuffer_copyin d w k)) =
      take k (dbytes d) @ take (length (dbytes d) - k) w @ drop (k + length w) (dbytes d)"
    using r behind_ahead [OF w(2,3)] w(4,5)
    by (simp add: add.commute min.commute flip: take_take)
  show "snd (dbuffer_copyin d w k) \<longleftrightarrow> length w \<le> length (dbytes d) - k"
    using r by auto
qed

lemma copyin_length:
  "dbuffer_ok d \<Longrightarrow> length (dbytes (fst (dbuffer_copyin d w k))) = length (dbytes d)"
  by (simp add: copyin_refines)

lemma copyin_splice:
  assumes "dbuffer_ok d" and "k + length w \<le> length (dbytes d)"
  shows "dbytes (fst (dbuffer_copyin d w k)) = splice_at k w (dbytes d)"
  using assms by (simp add: copyin_refines splice_at_def)

text \<open>\<open>copyout_shape\<close>: the elements it copies, taken from the byte list.\<close>

definition elements :: "byte list \<Rightarrow> nat \<Rightarrow> nat \<Rightarrow> nat \<Rightarrow> nat \<Rightarrow> byte list" where
  "elements bs k esize eskip n =
     concat (map (\<lambda>i. take esize (drop (k + i * (esize + eskip)) bs)) [0..<n])"

lemma elements_Suc:
  "elements bs k esize eskip (Suc n) =
   take esize (drop k bs) @ elements bs (k + esize + eskip) esize eskip n"
proof -
  have "[0..<Suc n] = 0 # map Suc [0..<n]" by (simp add: upt_conv_Cons map_Suc_upt)
  then show ?thesis by (simp add: elements_def comp_def algebra_simps del: upt_Suc)
qed

lemma elements_0 [simp]: "elements bs k esize eskip 0 = []"
  by (simp add: elements_def)

lemma elements_drop: "elements (drop j bs) k esize eskip n = elements bs (j + k) esize eskip n"
  by (simp add: elements_def algebra_simps)

lemma elements_one: "elements bs k n s 1 = take n (drop k bs)"
  by (simp add: elements_def)

lemma shape_loop_eq:
  assumes "dbuffer_ok d" and "cursor_ok d c"
  shows "shape_loop d esize eskip c n dest = dest @ elements (ahead d c) 0 esize eskip n"
  using assms(2)
proof (induction n arbitrary: c dest)
  case 0
  then show ?case by simp
next
  case (Suc n)
  obtain c1 where c1: "copy d esize (XOut dest) c 0 =
      (d, XOut (dest @ take esize (ahead d c)), c1, min esize (length (ahead d c)))"
    "cursor_ok d c1" "ahead d c1 = drop esize (ahead d c)"
    using copy_read [OF assms(1) Suc.prems, of "XOut dest" esize 0] by auto
  obtain c2 where c2: "copy d eskip XSkip c1 0 = (d, XSkip, c2, min eskip (length (ahead d c1)))"
    "cursor_ok d c2" "ahead d c2 = drop eskip (ahead d c1)"
    using copy_read [OF assms(1) c1(2), of XSkip eskip 0] by auto
  have "ahead d c2 = drop (esize + eskip) (ahead d c)"
    using c1(3) c2(3) by (simp add: add.commute)
  then show ?case
    using c1 c2 Suc.IH [OF c2(2)] Suc.IH [OF c1(2)]
    by (cases "n = 0") (simp_all add: elements_Suc elements_drop)
qed

lemma copyout_shape_eq:
  assumes "evbuffer_lawful api" and "dbuffer_ok d"
    and "0 < ecount" and "k < length (dbytes d)"
    and "0 < esize + eskip" and "length (dbytes d) + esize + eskip < 2 ^ 64"
  shows "copyout_shape api d k esize eskip ecount =
    (let n = min ecount ((length (dbytes d) - k + eskip) div (esize + eskip))
     in Ok (n, elements (dbytes d) k esize eskip n))"
proof -
  obtain c where c: "copy d k XSkip cursor_start 0 = (d, XSkip, c, min k (length (dbytes d)))"
    "cursor_ok d c" "ahead d c = drop k (dbytes d)"
    using copy_skip_start [OF assms(2)] by blast
  show ?thesis
    using assms(3-6) c shape_loop_eq [OF assms(2) c(2), of esize eskip _ "[]"]
    by (auto simp: copyout_shape_def dbuffer_size_eq [OF assms(1)] Let_def elements_drop min_def)
qed

lemma copyout_shape_max:
  assumes "evbuffer_lawful api" and "dbuffer_ok d"
    and "0 < ecount" and "offset < length (dbytes d)"
    and "0 < esize" and "length (dbytes d) + esize + eskip < 2 ^ 64"
  shows "\<exists>n. copyout_shape api d offset esize eskip ecount =
             Ok (n, elements (dbytes d) offset esize eskip n) \<and>
           n \<le> ecount \<and>
           (\<forall>m. 0 < m \<and> m \<le> ecount \<longrightarrow>
              (m \<le> n \<longleftrightarrow> offset + m * esize + (m - 1) * eskip \<le> length (dbytes d)))"
proof -
  let ?q = "(length (dbytes d) - offset + eskip) div (esize + eskip)"
  have "m \<le> min ecount ?q \<longleftrightarrow> offset + m * esize + (m - 1) * eskip \<le> length (dbytes d)"
    if m: "0 < m" "m \<le> ecount" for m
  proof -
    have "m * (esize + eskip) = m * esize + (m - 1) * eskip + eskip"
      using m(1) by (cases m) (simp_all add: algebra_simps)
    moreover have "m \<le> ?q \<longleftrightarrow> m * (esize + eskip) \<le> length (dbytes d) - offset + eskip"
      using assms(5) by (intro less_eq_div_iff_mult_less_eq) simp
    ultimately show ?thesis using m(2) assms(4) by auto
  qed
  then show ?thesis
    using copyout_shape_eq [OF assms(1-4) _ assms(6)] assms(5)
    by (intro exI [of _ "min ecount ?q"]) (simp add: Let_def)
qed

lemma copyout_shape_none:
  assumes "evbuffer_lawful api" and "ecount = 0 \<or> length (dbytes d) \<le> k"
  shows "copyout_shape api d k esize eskip ecount = Ok (0, [])"
  using assms by (auto simp: copyout_shape_def dbuffer_size_eq)

lemma copyout_one:
  assumes "evbuffer_lawful api" and "dbuffer_ok d"
    and "0 < n" and "length (dbytes d) + n < 2 ^ 64"
  shows "copyout_shape api d k n 0 1 =
    Ok (if k + n \<le> length (dbytes d) then (1, take n (drop k (dbytes d))) else (0, []))"
proof (cases "k < length (dbytes d)")
  case True
  let ?q = "(length (dbytes d) - k) div n"
  have "copyout_shape api d k n 0 1 = Ok (min 1 ?q, elements (dbytes d) k n 0 (min 1 ?q))"
    using copyout_shape_eq [of api d 1 k n 0] assms True by (simp add: Let_def)
  moreover have "min 1 ?q = (if k + n \<le> length (dbytes d) then 1 else 0)"
    using assms(3) True by (auto simp: min_def div_greater_zero_iff Suc_le_eq)
  ultimately show ?thesis
    by (simp add: elements_one del: One_nat_def)
next
  case False
  then show ?thesis
    using assms(3) copyout_shape_none [OF assms(1), of 1 d k n 0] by simp
qed

lemma copyout_eq:
  assumes "evbuffer_lawful api" and "dbuffer_ok d"
    and "0 < n" and "length (dbytes d) + n < 2 ^ 64"
  shows "dbuffer_copyout api d k n =
    Ok (k + n \<le> length (dbytes d),
        if k + n \<le> length (dbytes d) then take n (drop k (dbytes d)) else [])"
  using copyout_one [OF assms] by (simp add: dbuffer_copyout_def)


text \<open>\<open>resize\<close>, \<open>assign\<close>, \<open>consume\<close> and the copy into an evbuffer.\<close>

lemma vec_buffer_ok [simp]:
  "dbuffer_ok \<lparr>strides = vec_stride (length v), backingv = v, backingb = None\<rparr>"
  by (simp add: dbuffer_ok_def)

lemma dbuffer_ok_empty [simp]: "dbuffer_ok dbuffer_empty" "dbytes dbuffer_empty = []"
  by (simp_all add: dbuffer_empty_def dbuffer_ok_def dbytes_def)

lemma assign_refines [simp]:
  "dbuffer_ok (dbuffer_assign d bs)" "dbytes (dbuffer_assign d bs) = bs"
  by (simp_all add: dbuffer_assign_def dbytes_def)

lemma length_vec_resize [simp]: "length (vec_resize v n) = n"
  by (simp add: vec_resize_def)

lemma resize_refines:
  assumes "evbuffer_lawful api" and "n \<le> vec_max"
  shows "snd (dbuffer_resize api d n) = Ok ()"
    and "dbuffer_ok (fst (dbuffer_resize api d n))"
    and "dbytes (fst (dbuffer_resize api d n)) = vec_resize (dbytes d) n"
proof -
  have c: "splice_at 0 (take n bs) (replicate n 0) = vec_resize bs n" for bs :: "byte list"
    by (simp add: splice_at_def vec_resize_def)
  then have r: "dbuffer_resize api d n =
      (\<lparr>strides = vec_stride n, backingv = vec_resize (dbytes d) n, backingb = None\<rparr>, Ok ())"
    using assms by (simp add: dbuffer_resize_def Let_def dbytes_def ev_laws split: option.splits)
  then show "snd (dbuffer_resize api d n) = Ok ()" by simp
  show "dbuffer_ok (fst (dbuffer_resize api d n))"
    using r vec_buffer_ok [of "vec_resize (dbytes d) n"] by simp
  show "dbytes (fst (dbuffer_resize api d n)) = vec_resize (dbytes d) n"
    using r by (simp add: dbytes_def)
qed

lemma peek_loop_extents:
  assumes "evbuffer_lawful api" and "len = length (evbytes b)"
  shows "peek_loop api b len k = chain_strides b"
  using assms
proof (induction api b len k rule: peek_loop.induct)
  case (1 api b len k)
  have "evbuffer_peek api b len = extents b" using "1.prems" by (rule ev_peek)
  then show ?case
    using "1.IH" "1.prems"
    by (subst peek_loop.simps) (auto simp: Let_def chain_strides_def extents_def)
qed

lemma consume_refines:
  assumes "evbuffer_lawful api" and "dbuffer_consume api d buf n = ((d', buf'), r)"
  shows "r = Ok () \<Longrightarrow> dbuffer_ok d' \<and> dbytes d' = take n (evbytes buf) \<and>
           evbytes buf' = drop n (evbytes buf)"
    and "r \<noteq> Ok () \<Longrightarrow> d' = d \<and> (\<exists>x. r = Throw x)"
proof -
  define k where "k = (if n > length (evbytes buf) then length (evbytes buf) else n)"
  have k: "min k (length (evbytes buf)) = k" "take k (evbytes buf) = take n (evbytes buf)"
    "drop k (evbytes buf) = drop n (evbytes buf)"
    by (auto simp: k_def)
  have "r = Ok () \<and> dbuffer_ok d' \<and> dbytes d' = take n (evbytes buf) \<and>
      evbytes buf' = drop n (evbytes buf) \<or> d' = d \<and> (\<exists>x. r = Throw x)"
  proof (cases "evbuffer_new api")
    case None
    then show ?thesis using assms(2) by (auto simp: dbuffer_consume_def Let_def)
  next
    case (Some b)
    obtain ret s1 b1 where rb: "evbuffer_remove_buffer api buf b k = (ret, s1, b1)"
      by (cases "evbuffer_remove_buffer api buf b k")
    show ?thesis
    proof (cases "ret = int k")
      case False
      then show ?thesis
        using assms Some rb by (auto simp: dbuffer_consume_def Let_def ev_laws k_def split: if_splits)
    next
      case True
      note mv = ev_remove_buffer [OF assms(1) rb]
      have b1: "evbytes b1 = take n (evbytes buf)" "evbytes s1 = drop n (evbytes buf)"
        using mv(2,3) True k ev_new [OF assms(1) Some] by auto
      then have "k = length (evbytes b1)" by (auto simp: k_def)
      then have pk: "peek_loop api b1 k 0 = chain_strides b1"
        by (rule peek_loop_extents [OF assms(1)])
      have "r = Ok ()" "d' = \<lparr>strides = chain_strides b1, backingv = [], backingb = Some b1\<rparr>"
        "buf' = s1"
        using assms Some rb True pk
        by (auto simp: dbuffer_consume_def Let_def ev_laws k_def split: if_splits)
      then show ?thesis using b1 by (simp add: dbuffer_ok_def dbytes_def)
    qed
  qed
  then show "r = Ok () \<Longrightarrow> dbuffer_ok d' \<and> dbytes d' = take n (evbytes buf) \<and>
           evbytes buf' = drop n (evbytes buf)"
    and "r \<noteq> Ok () \<Longrightarrow> d' = d \<and> (\<exists>x. r = Throw x)"
    by auto
qed

lemma consume_reliable:
  assumes "evbuffer_lawful api" and "evbuffer_reliable api"
  shows "\<exists>d' buf'. dbuffer_consume api d buf n = ((d', buf'), Ok ()) \<and> dbuffer_ok d' \<and>
    dbytes d' = take n (evbytes buf) \<and> evbytes buf' = drop n (evbytes buf)"
proof -
  let ?n = "min n (length (evbytes buf))"
  obtain b where b: "evbuffer_new api = Some b"
    using assms(2) by (auto simp: evbuffer_reliable_def)
  obtain r s' b' where r: "evbuffer_remove_buffer api buf b ?n = (r, s', b')"
    by (metis prod_cases3)
  have "0 \<le> r"
    using assms(2) r unfolding evbuffer_reliable_def by (metis fst_conv)
  then have "r = int ?n"
    using ev_remove_buffer(1) [OF assms(1) r] by simp
  moreover have "(if n > length (evbytes buf) then length (evbytes buf) else n) = ?n" by simp
  ultimately obtain d' buf' where c: "dbuffer_consume api d buf n = ((d', buf'), Ok ())"
    using b r assms(1) by (auto simp: dbuffer_consume_def ev_laws Let_def)
  then show ?thesis using consume_refines(1) [OF assms(1) c] by simp
qed

lemma copyout_ev_loop_refines:
  assumes "evbuffer_lawful api" and "\<forall>v \<in> set vs. iov_len v = length (region d (iov_base v))"
    and "copyout_ev_loop api d vs dest = (dest', r)"
  shows "r = Ok () \<Longrightarrow> evbytes dest' = evbytes dest @ concat (map (\<lambda>v. region d (iov_base v)) vs)"
    and "length (concat (map (\<lambda>v. region d (iov_base v)) vs)) \<le> room dest \<Longrightarrow> r = Ok ()"
  using assms(2,3)
proof (induction vs arbitrary: dest)
  case Nil
  { case 1 then show ?case by simp }
  { case 2 then show ?case by simp }
next
  case (Cons v vs)
  { case 1
    then show ?case
      using Cons.IH(1) by (auto split: option.splits dest: ev_add [OF assms(1)]) }
  { case 2
    then obtain e where e: "evbuffer_add api dest (region d (iov_base v)) = Some e"
      using ev_add_room [OF assms(1), of "region d (iov_base v)" dest] by auto
    then have "length (concat (map (\<lambda>v. region d (iov_base v)) vs)) \<le> room e"
      using ev_add(2) [OF assms(1) e] 2 by simp
    then show ?case using e Cons.IH(2) [of e] 2 by simp }
qed

lemma copyout_ev_reliable:
  assumes "evbuffer_reliable api" and "copyout_ev api d dest = (dest', r)"
  shows "r = Ok ()"
proof -
  note add = reliable_add [OF assms(1)]
  have "copyout_ev_loop api d vs e = (dest', r) \<Longrightarrow> r = Ok ()" for vs e
  proof (induction vs arbitrary: e)
    case (Cons v vs)
    then show ?case using add [of e "take (iov_len v) (region d (iov_base v))"] by auto
  qed simp
  then show ?thesis using assms(2) by (simp add: copyout_ev_def)
qed

lemma copyout_ev_refines:
  assumes "evbuffer_lawful api" and "dbuffer_ok d" and "copyout_ev api d dest = (dest', r)"
  shows "r = Ok () \<Longrightarrow> evbytes dest' = evbytes dest @ dbytes d"
    and "length (dbytes d) \<le> room dest \<Longrightarrow> r = Ok ()"
  using copyout_ev_loop_refines [OF assms(1) _ assms(3) [unfolded copyout_ev_def]]
    dbuffer_ok_len [OF assms(2)] concat_parts [OF assms(2)]
  by (auto simp: parts_def)


section \<open>The interface to device support\<close>

text \<open>
  What the register device supports rely on: a buffer they write words into and read words
  from, each at a byte offset.
\<close>

locale byte_buffer =
  fixes ok :: "'b \<Rightarrow> bool"
    and bytes :: "'b \<Rightarrow> byte list"
    and put :: "'b \<Rightarrow> byte list \<Rightarrow> nat \<Rightarrow> 'b \<times> bool"
    and get :: "'b \<Rightarrow> nat \<Rightarrow> nat \<Rightarrow> (bool \<times> byte list) outcome"
  assumes put_ok: "ok b \<Longrightarrow> ok (fst (put b w k))"
    and put_bytes: "ok b \<Longrightarrow> bytes (fst (put b w k)) =
      take k (bytes b) @ take (length (bytes b) - k) w @ drop (k + length w) (bytes b)"
    and put_fits: "ok b \<Longrightarrow> snd (put b w k) \<longleftrightarrow> length w \<le> length (bytes b) - k"
    and get_eq: "ok b \<Longrightarrow> 0 < n \<Longrightarrow> n \<le> 8 \<Longrightarrow> get b k n =
      Ok (k + n \<le> length (bytes b),
          if k + n \<le> length (bytes b) then take n (drop k (bytes b)) else [])"
begin

lemma put_splice:
  assumes "ok b" and "k + length w \<le> length (bytes b)"
  shows "bytes (fst (put b w k)) = splice_at k w (bytes b)" and "snd (put b w k)"
  using assms by (simp_all add: put_bytes put_fits splice_at_def le_diff_conv2)

lemma put_length: "ok b \<Longrightarrow> length (bytes (fst (put b w k))) = length (bytes b)"
  by (simp add: put_bytes)

lemma get_put_same:
  assumes "ok b" and "w \<noteq> []" and "length w \<le> 8" and "snd (put b w k)"
  shows "get (fst (put b w k)) k (length w) = Ok (True, w)"
proof -
  have "length w \<le> length (bytes b) - k" using assms(1,4) by (simp add: put_fits)
  moreover from this have fit: "k + length w \<le> length (bytes b)"
    using assms(2) by (cases w) auto
  ultimately show ?thesis
    using assms put_splice(1) [OF assms(1) fit] put_length [OF assms(1), of w k]
      get_eq [OF put_ok [OF assms(1)], of "length w" w k k]
    by (simp add: take_drop_splice_at)
qed

lemma get_put_other:
  assumes "ok b" and "k + length w \<le> length (bytes b)" and "0 < n" and "n \<le> 8"
    and "j + n \<le> k \<or> k + length w \<le> j"
  shows "get (fst (put b w k)) j n = get b j n"
proof -
  have "take n (drop j (splice_at k w (bytes b))) = take n (drop j (bytes b))"
    if "j + n \<le> length (bytes b)"
    using assms(2,5) that
    by (intro nth_equalityI) (auto simp: splice_at_def nth_append)
  then show ?thesis
    using assms(1,3,4) put_splice(1) [OF assms(1,2)] put_length [OF assms(1), of w k]
    by (simp add: get_eq put_ok)
qed

end

definition dbuffer_lawful :: "evbuffer_api \<Rightarrow> dbuffer \<Rightarrow> bool" where
  "dbuffer_lawful api d \<longleftrightarrow> evbuffer_lawful api \<and> dbuffer_ok d \<and> length (dbytes d) < 2 ^ 63"

interpretation dbuf: byte_buffer "dbuffer_lawful api" dbytes dbuffer_copyin "dbuffer_copyout api"
  for api
proof unfold_locales
  fix b :: dbuffer and w k
  assume b: "dbuffer_lawful api b"
  then have ok: "dbuffer_ok b" by (simp add: dbuffer_lawful_def)
  show "dbuffer_lawful api (fst (dbuffer_copyin b w k))"
    using b copyin_refines(1) [OF ok] by (simp add: dbuffer_lawful_def copyin_length [OF ok])
  show "dbytes (fst (dbuffer_copyin b w k)) =
      take k (dbytes b) @ take (length (dbytes b) - k) w @ drop (k + length w) (dbytes b)"
    and "snd (dbuffer_copyin b w k) \<longleftrightarrow> length w \<le> length (dbytes b) - k"
    by (rule copyin_refines [OF ok])+
next
  fix b :: dbuffer and n k :: nat
  assume "dbuffer_lawful api b" and "0 < n" and "n \<le> 8"
  then show "dbuffer_copyout api b k n =
      Ok (k + n \<le> length (dbytes b),
          if k + n \<le> length (dbytes b) then take n (drop k (dbytes b)) else [])"
    by (intro copyout_eq) (auto simp: dbuffer_lawful_def)
qed

section \<open>Properties\<close>

text \<open>
  A buffer of five bytes kept in two chunks, for concrete runs.
\<close>

definition two_chunks :: dbuffer where
  "two_chunks = \<lparr>strides = [\<lparr>iov_base = PChain 0, iov_len = 3\<rparr>, \<lparr>iov_base = PChain 1, iov_len = 2\<rparr>],
     backingv = [], backingb = Some \<lparr>chains = [[1, 2, 3], [4, 5]], room = 0\<rparr>\<rparr>"

lemma two_chunks_ok: "dbuffer_ok two_chunks" "dbytes two_chunks = [1, 2, 3, 4, 5]"
  by (simp_all add: two_chunks_def dbuffer_ok_def chain_strides_def dbytes_def evbytes_def
      upt_rec eval_nat_numeral)

lemma two_chunks_lawful: "dbuffer_lawful chunk_api two_chunks"
  by (simp add: dbuffer_lawful_def chunk_api_lawful two_chunks_ok)

text \<open>
  C27: \<open>copyout_shape\<close> copies the elements at the offsets \<open>offset + i * (esize + eskip)\<close>,
  \<open>i < n\<close>, independently of how the bytes are spread over strides, and \<open>n\<close> is the largest number of
  elements, at most \<open>ecount\<close>, the last of which still ends inside of the buffer.
\<close>

theorem copyout_shape_correct:
  assumes "evbuffer_lawful api" and "dbuffer_ok d"
    and "0 < ecount" and "offset < length (dbytes d)"
    and "0 < esize" and "length (dbytes d) + esize + eskip < 2 ^ 64"
  shows "\<exists>n. copyout_shape api d offset esize eskip ecount =
             Ok (n, elements (dbytes d) offset esize eskip n) \<and>
           n \<le> ecount \<and>
           (\<forall>m. 0 < m \<and> m \<le> ecount \<longrightarrow>
              (m \<le> n \<longleftrightarrow> offset + m * esize + (m - 1) * eskip \<le> length (dbytes d)))"
  using assms by (rule copyout_shape_max)

theorem copyout_shape_correct_witness:
  "\<exists>n. copyout_shape chunk_api two_chunks 1 1 1 9 = Ok (n, elements [1, 2, 3, 4, 5] 1 1 1 n) \<and> n \<le> 9"
  using copyout_shape_correct [OF chunk_api_lawful two_chunks_ok(1), of 9 1 1 1]
  by (auto simp: two_chunks_ok(2))

text \<open>
  a value written with \<open>copyin\<close> is read back by \<open>copyout\<close> at the same offset, and every
  value at a disjoint offset keeps its content; the size of the buffer does not change.
\<close>

theorem copyin_copyout_roundtrip:
  assumes "dbuffer_lawful api d" and "w \<noteq> []" and "length w \<le> 8"
    and "offset + length w \<le> length (dbytes d)"
  shows "snd (dbuffer_copyin d w offset) \<and>
    dbuffer_copyout api (fst (dbuffer_copyin d w offset)) offset (length w) = Ok (True, w) \<and>
    (\<forall>k n. 0 < n \<and> n \<le> 8 \<and> (k + n \<le> offset \<or> offset + length w \<le> k) \<longrightarrow>
       dbuffer_copyout api (fst (dbuffer_copyin d w offset)) k n = dbuffer_copyout api d k n) \<and>
    dbuffer_size api (fst (dbuffer_copyin d w offset)) = dbuffer_size api d"
proof -
  have law: "evbuffer_lawful api" using assms(1) by (simp add: dbuffer_lawful_def)
  have fits: "snd (dbuffer_copyin d w offset)"
    using assms(1,4) by (rule dbuf.put_splice)
  moreover have "dbuffer_copyout api (fst (dbuffer_copyin d w offset)) offset (length w) = Ok (True, w)"
    using assms(1-3) fits by (rule dbuf.get_put_same)
  moreover have "dbuffer_copyout api (fst (dbuffer_copyin d w offset)) k n = dbuffer_copyout api d k n"
    if "0 < n \<and> n \<le> 8 \<and> (k + n \<le> offset \<or> offset + length w \<le> k)" for k n
    using assms(1,4) that by (intro dbuf.get_put_other) auto
  moreover have "dbuffer_size api (fst (dbuffer_copyin d w offset)) = dbuffer_size api d"
    using dbuf.put_length [OF assms(1)] by (simp add: dbuffer_size_eq [OF law])
  ultimately show ?thesis by blast
qed

theorem copyin_copyout_roundtrip_witness:
  "dbuffer_copyout chunk_api (fst (dbuffer_copyin two_chunks [8, 9] 2)) 2 2 = Ok (True, [8, 9])"
  using copyin_copyout_roundtrip [OF two_chunks_lawful, of "[8, 9]" 2]
  by (simp add: two_chunks_ok numeral_2_eq_2)

text \<open>
  \<open>copyin\<close> is not atomic. A write that does not fit reports failure, but the bytes that
  did fit have been stored.
\<close>

theorem copyin_overrun_writes_prefix:
  assumes "dbuffer_ok d" and "offset \<le> length (dbytes d)"
    and "length (dbytes d) < offset + length w"
  shows "\<not> snd (dbuffer_copyin d w offset) \<and>
    dbytes (fst (dbuffer_copyin d w offset)) =
      take offset (dbytes d) @ take (length (dbytes d) - offset) w"
  using assms by (simp add: copyin_refines)

theorem copyin_overrun_writes_prefix_witness:
  "\<not> snd (dbuffer_copyin two_chunks [7, 8, 9] 4) \<and>
   dbytes (fst (dbuffer_copyin two_chunks [7, 8, 9] 4)) = [1, 2, 3, 4, 7]"
  using copyin_overrun_writes_prefix [OF two_chunks_ok(1), of 4 "[7, 8, 9]"]
  by (simp add: two_chunks_ok)

text \<open>
  \<open>consume\<close> takes the first \<open>len\<close> bytes (or all, if there are fewer) out of the evbuffer and
  makes them the content, with strides that cover them; when libevent fails, it throws and
  the buffer keeps its former content.
\<close>

theorem consume_correct:
  assumes "evbuffer_lawful api"
  shows "case dbuffer_consume api d buf len of ((d', buf'), r) \<Rightarrow>
    (r = Ok () \<and> dbuffer_ok d' \<and> dbytes d' = take len (evbytes buf) \<and>
     evbytes buf' = drop len (evbytes buf)) \<or> (d' = d \<and> (\<exists>x. r = Throw x))"
proof -
  obtain d' buf' r where "dbuffer_consume api d buf len = ((d', buf'), r)"
    by (metis prod.exhaust)
  then show ?thesis
    using consume_refines [OF assms, of d buf len d' buf' r] by (cases "r = Ok ()") auto
qed

theorem consume_correct_witness:
  "case dbuffer_consume chunk_api dbuffer_empty \<lparr>chains = [[1, 2], [3]], room = 0\<rparr> 2 of
     ((d', buf'), r) \<Rightarrow> r = Ok () \<and> dbytes d' = [1, 2] \<and> evbytes buf' = [3]"
proof -
  have "snd (dbuffer_consume chunk_api dbuffer_empty \<lparr>chains = [[1, 2], [3]], room = 0\<rparr> 2) = Ok ()"
    by (simp add: dbuffer_consume_def chunk_api_def)
  then show ?thesis
    using consume_correct [OF chunk_api_lawful, where d = dbuffer_empty and len = 2
        and buf = "\<lparr>chains = [[1, 2], [3]], room = 0\<rparr>"]
    by (auto simp: evbytes_def case_prod_beta)
qed

text \<open>
  \<open>resize\<close> keeps the first bytes of the content and fills up with zeros, wherever the
  content was kept, and leaves one contiguous stride.
\<close>

theorem resize_correct:
  assumes "evbuffer_lawful api" and "newlen \<le> vec_max"
  shows "\<exists>d'. dbuffer_resize api d newlen = (d', Ok ()) \<and> dbuffer_ok d' \<and>
    dbytes d' = take newlen (dbytes d) @ replicate (newlen - length (dbytes d)) 0 \<and>
    dbuffer_size api d' = newlen \<and> length (strides d') = 1"
proof -
  obtain d' r where d': "dbuffer_resize api d newlen = (d', r)" by fastforce
  have "length (strides d') = 1"
    using d' assms(2) by (auto simp: dbuffer_resize_def Let_def vec_stride_def)
  then show ?thesis
    using d' resize_refines [OF assms, of d] by (simp add: dbuffer_size_eq [OF assms(1)] vec_resize_def)
qed

theorem resize_correct_witness:
  "\<exists>d'. dbuffer_resize chunk_api two_chunks 6 = (d', Ok ()) \<and> dbytes d' = [1, 2, 3, 4, 5, 0]"
  using resize_correct [OF chunk_api_lawful, of 6 two_chunks]
  by (auto simp: two_chunks_ok(2) vec_max_def)

end
