(* ===== verification/Psc_Protocol.thy ===== *)
theory Psc_Protocol
  imports Psc_Prelude
begin

text \<open>
  The PSC wire protocol (documentation/protocol.rst, and the framing code that psc.cpp,
  pscudp.cpp, udpdrv.cpp and targetApp/pscmsg.c share): a message is an 8 byte header, made
  of the marker bytes P and S, the message number and the length of the body, both most
  significant byte first, followed by the body.

  The theory holds the encoder of a message, and an abstract decoder of a byte stream that
  the drivers are later shown to implement. The decoder works on a plain list of bytes and
  reports what a receiver sees: headers, bodies, and a framing error.
\<close>

section \<open>Messages\<close>

abbreviation (input) chr_P :: byte where "chr_P \<equiv> 80"
abbreviation (input) chr_S :: byte where "chr_S \<equiv> 83"

definition enc_header :: "u16 \<Rightarrow> u32 \<Rightarrow> byte list" where
  "enc_header msgid len = [chr_P, chr_S] @ be16 msgid @ be32 len"

definition frame :: "u16 \<Rightarrow> byte list \<Rightarrow> byte list" where
  "frame msgid body = enc_header msgid (of_nat (length body)) @ body"

text \<open>The fields of a header, read from the first 8 bytes of a buffer.\<close>

definition hdr_marked :: "byte list \<Rightarrow> bool" where
  "hdr_marked bs \<longleftrightarrow> take 2 bs = [chr_P, chr_S]"

definition hdr_id :: "byte list \<Rightarrow> u16" where
  "hdr_id bs = unbe16 (take 2 (drop 2 bs))"

definition hdr_len :: "byte list \<Rightarrow> u32" where
  "hdr_len bs = unbe32 (take 4 (drop 4 bs))"

lemma length_enc_header [simp, wire_simps]: "length (enc_header k n) = 8"
  by (simp add: enc_header_def)

lemma hdr_enc_header [simp, wire_simps]:
  "hdr_marked (enc_header k n @ bs)" "hdr_id (enc_header k n @ bs) = k"
  "hdr_len (enc_header k n @ bs) = n"
  by (simp_all add: hdr_marked_def hdr_id_def hdr_len_def enc_header_def)

lemma hdr_take [simp]:
  "hdr_marked (take 8 bs) = hdr_marked bs" "hdr_id (take 8 bs) = hdr_id bs"
  "hdr_len (take 8 bs) = hdr_len bs"
  by (simp_all add: hdr_marked_def hdr_id_def hdr_len_def drop_take min_def)

lemma hdr_append [simp]:
  assumes "8 \<le> length bs"
  shows "hdr_marked (bs @ cs) = hdr_marked bs" "hdr_id (bs @ cs) = hdr_id bs"
    "hdr_len (bs @ cs) = hdr_len bs"
  using assms by (simp_all add: hdr_marked_def hdr_id_def hdr_len_def)

lemma hdr_eq:
  assumes "8 \<le> length bs" and "hdr_marked bs"
  shows "enc_header (hdr_id bs) (hdr_len bs) = take 8 bs"
proof -
  have "take 8 bs = take 2 bs @ take 2 (drop 2 bs) @ take 4 (drop 4 bs)"
    using take_add [of 2 6 bs] take_add [of 2 4 "drop 2 bs"] by simp
  then show ?thesis
    using assms by (simp add: enc_header_def hdr_marked_def hdr_id_def hdr_len_def
        be16_unbe16 be32_unbe32)
qed

section \<open>The abstract receiver\<close>

text \<open>
  What a receiver of a byte stream sees. \<open>known\<close> tells whether anything listens to the
  message number.
\<close>

datatype rx_event = RxHead u16 u32 | RxBody u16 bool "byte list"

text \<open>
  The receiver waits for a header (\<open>None\<close>) or for the body that a header announced. A
  header that announces an empty body is complete by itself.
\<close>

type_synonym rx_wait = "(u16 \<times> u32 \<times> bool) option"

fun rx_need :: "rx_wait \<Rightarrow> nat" where
  "rx_need None = 8"
| "rx_need (Some (msgid, len, known)) = unat len"

definition rx_wait_ok :: "rx_wait \<Rightarrow> bool" where
  "rx_wait_ok h \<longleftrightarrow> (case h of None \<Rightarrow> True | Some (msgid, len, known) \<Rightarrow> len \<noteq> 0)"

definition rx_next :: "(u16 \<Rightarrow> bool) \<Rightarrow> byte list \<Rightarrow> rx_wait" where
  "rx_next known bs =
     (if hdr_len bs = 0 then None else Some (hdr_id bs, hdr_len bs, known (hdr_id bs)))"

lemma rx_wait_ok_next [simp]: "rx_wait_ok (rx_next known bs)"
  by (simp add: rx_wait_ok_def rx_next_def)

lemma rx_need_pos: "rx_wait_ok h \<Longrightarrow> 0 < rx_need h"
  by (cases h) (auto simp: rx_wait_ok_def unat_gt_0)

text \<open>
  The result of a run: the events, what the receiver then waits for, the bytes it has not
  used, and whether it stopped at a framing error (the 8 bytes of the bad header are gone).
\<close>

function (sequential) rx_run ::
  "(u16 \<Rightarrow> bool) \<Rightarrow> rx_wait \<Rightarrow> byte list \<Rightarrow> rx_event list \<times> rx_wait \<times> byte list \<times> bool" where
  "rx_run known None bs =
     (if length bs < 8 then ([], None, bs, False)
      else if \<not> hdr_marked bs then ([], None, drop 8 bs, True)
      else case rx_run known (rx_next known bs) (drop 8 bs) of (es, h, rest, err) \<Rightarrow>
             (RxHead (hdr_id bs) (hdr_len bs) # es, h, rest, err))"
| "rx_run known (Some (msgid, len, k)) bs =
     (if len = 0 \<or> length bs < unat len then ([], Some (msgid, len, k), bs, False)
      else case rx_run known None (drop (unat len) bs) of (es, h, rest, err) \<Rightarrow>
             (RxBody msgid k (take (unat len) bs) # es, h, rest, err))"
  by pat_completeness auto
termination
proof (relation "measure (\<lambda>(known, h, bs). length bs)", goal_cases)
  case (3 known msgid len k bs)
  then have "0 < unat len" by (simp add: unat_gt_0)
  with 3 show ?case by auto
qed auto

declare rx_run.simps [simp del]

lemma rx_run_short: "length bs < rx_need h \<Longrightarrow> rx_run known h bs = ([], h, bs, False)"
  by (cases h) (auto simp: rx_run.simps)

text \<open>Runs are independent of how the stream was cut into pieces.\<close>

lemma rx_run_append:
  "rx_run known h bs = (es, h', rest, err) \<Longrightarrow> rx_wait_ok h \<Longrightarrow>
   rx_run known h (bs @ cs) =
     (if err then (es, h', rest @ cs, err)
      else case rx_run known h' (rest @ cs) of (es', h'', rest', err') \<Rightarrow>
             (es @ es', h'', rest', err'))"
proof (induction known h bs arbitrary: es h' rest err rule: rx_run.induct)
  case (1 known bs)
  show ?case
  proof (cases "length bs < 8 \<or> \<not> hdr_marked bs")
    case True
    then show ?thesis
      using "1.prems" by (cases "length bs < 8") (auto simp: rx_run.simps split: prod.splits)
  next
    case False
    obtain es1 where es1: "rx_run known (rx_next known bs) (drop 8 bs) = (es1, h', rest, err)"
      and es: "es = RxHead (hdr_id bs) (hdr_len bs) # es1"
      using "1.prems" False by (auto simp: rx_run.simps split: prod.splits)
    have "rx_next known (bs @ cs) = rx_next known bs"
      using False by (simp add: rx_next_def)
    then have "rx_run known None (bs @ cs) =
        (case rx_run known (rx_next known bs) (drop 8 bs @ cs) of (es, h, rest, err) \<Rightarrow>
          (RxHead (hdr_id bs) (hdr_len bs) # es, h, rest, err))"
      using False by (simp add: rx_run.simps(1) [of known "bs @ cs"])
    then show ?thesis
      using "1.IH" [OF _ _ es1] False es by (auto split: prod.splits)
  qed
next
  case (2 known msgid len k bs)
  show ?case
  proof (cases "length bs < unat len")
    case True
    then show ?thesis using "2.prems" by (auto simp: rx_run.simps split: prod.splits)
  next
    case False
    have len: "len \<noteq> 0" using "2.prems"(2) by (simp add: rx_wait_ok_def)
    obtain es1 where es1: "rx_run known None (drop (unat len) bs) = (es1, h', rest, err)"
      and es: "es = RxBody msgid k (take (unat len) bs) # es1"
      using "2.prems" False len by (auto simp: rx_run.simps(2) split: prod.splits)
    have "rx_run known (Some (msgid, len, k)) (bs @ cs) =
        (case rx_run known None (drop (unat len) bs @ cs) of (es, h, rest, err) \<Rightarrow>
          (RxBody msgid k (take (unat len) bs) # es, h, rest, err))"
      using False len by (simp add: rx_run.simps(2))
    then show ?thesis
      using "2.IH" [OF _ es1] False len es by (auto simp: rx_wait_ok_def split: prod.splits)
  qed
qed

text \<open>A run without framing error stops when too little is left for the next stage.\<close>

lemma rx_run_stops:
  "rx_run known h bs = (es, h', rest, err) \<Longrightarrow> rx_wait_ok h \<Longrightarrow>
   rx_wait_ok h' \<and> (\<not> err \<longrightarrow> length rest < rx_need h')"
proof (induction known h bs arbitrary: es h' rest err rule: rx_run.induct)
  case (1 known bs)
  show ?case
  proof (cases "length bs < 8 \<or> \<not> hdr_marked bs")
    case True
    then show ?thesis
      using "1.prems" by (cases "length bs < 8") (auto simp: rx_run.simps rx_wait_ok_def)
  next
    case False
    then obtain es1 where "rx_run known (rx_next known bs) (drop 8 bs) = (es1, h', rest, err)"
      using "1.prems" by (auto simp: rx_run.simps split: prod.splits)
    then show ?thesis using "1.IH" False by auto
  qed
next
  case (2 known msgid len k bs)
  show ?case
  proof (cases "len = 0 \<or> length bs < unat len")
    case True
    then show ?thesis using "2.prems" by (auto simp: rx_run.simps rx_wait_ok_def)
  next
    case False
    then obtain es1 where "rx_run known None (drop (unat len) bs) = (es1, h', rest, err)"
      using "2.prems" by (auto simp: rx_run.simps split: prod.splits)
    then show ?thesis using "2.IH" False by (auto simp: rx_wait_ok_def)
  qed
qed

text \<open>The events of a message, and the round trip: a stream of frames is received as sent.\<close>

definition msg_events :: "(u16 \<Rightarrow> bool) \<Rightarrow> u16 \<times> byte list \<Rightarrow> rx_event list" where
  "msg_events known m =
     (case m of (msgid, body) \<Rightarrow>
        RxHead msgid (of_nat (length body)) #
        (if body = [] then [] else [RxBody msgid (known msgid) body]))"

lemma unat_of_length: "length (body :: byte list) < 2 ^ 32 \<Longrightarrow> unat (of_nat (length body) :: u32) = length body"
  by (simp add: unat_of_nat take_bit_nat_eq_self)

lemma rx_run_frame:
  assumes "length body < 2 ^ 32"
  shows "rx_run known None (frame msgid body @ cs) =
    (case rx_run known None cs of (es, h, rest, err) \<Rightarrow>
       (msg_events known (msgid, body) @ es, h, rest, err))"
proof -
  let ?len = "of_nat (length body) :: u32"
  have u: "unat ?len = length body" by (rule unat_of_length [OF assms])
  then have z: "?len = 0 \<longleftrightarrow> body = []"
    using unat_gt_0 [of ?len] by auto
  have "rx_run known None (frame msgid body @ cs) =
      (case rx_run known (if ?len = 0 then None else Some (msgid, ?len, known msgid)) (body @ cs) of
         (es, h, rest, err) \<Rightarrow> (RxHead msgid ?len # es, h, rest, err))"
    by (simp add: rx_run.simps(1) frame_def rx_next_def)
  also have "\<dots> = (case rx_run known None cs of (es, h, rest, err) \<Rightarrow>
       (msg_events known (msgid, body) @ es, h, rest, err))"
    using u z by (cases "body = []") (auto simp: msg_events_def rx_run.simps(2) split: prod.splits)
  finally show ?thesis .
qed

definition frames :: "(u16 \<times> byte list) list \<Rightarrow> byte list" where
  "frames msgs = concat (map (\<lambda>m. frame (fst m) (snd m)) msgs)"

lemma frames_simps [simp]:
  "frames [] = []" "frames (m # ms) = frame (fst m) (snd m) @ frames ms"
  "frames (ms @ ns) = frames ms @ frames ns"
  by (simp_all add: frames_def)

lemma rx_run_frames:
  assumes "\<forall>m \<in> set msgs. length (snd m) < 2 ^ 32"
  shows "rx_run known None (frames msgs @ cs) =
    (case rx_run known None cs of (es, h, rest, err) \<Rightarrow>
       (concat (map (msg_events known) msgs) @ es, h, rest, err))"
  using assms
proof (induction msgs)
  case Nil
  then show ?case by (simp split: prod.splits)
next
  case (Cons m msgs)
  then show ?case
    by (cases m) (simp add: rx_run_frame split: prod.splits)
qed

section \<open>What the events do\<close>

text \<open>
  The part of a receiver that its clients see: the receive counter and the content of each
  message number that somebody listens to, how often its records were to be processed, the counter
  of unknown messages, and the notifications of listeners in order.
\<close>

record rx_view =
  v_count :: "u16 \<Rightarrow> u32 option"
  v_data :: "u16 \<Rightarrow> byte list option"
  v_scans :: "u16 \<Rightarrow> u32 option"
  v_ukn :: u32
  v_log :: "(u16 \<times> byte list) list"

fun rx_apply :: "rx_event \<Rightarrow> rx_view \<Rightarrow> rx_view" where
  "rx_apply (RxHead k n) v =
     (case v_count v k of
        Some c \<Rightarrow> v\<lparr>v_count := (v_count v)(k \<mapsto> c + 1)\<rparr>
      | None \<Rightarrow> v\<lparr>v_ukn := v_ukn v + 1\<rparr>)"
| "rx_apply (RxBody k known bs) v =
     (if known
      then v\<lparr>v_data := (v_data v)(k \<mapsto> bs), v_scans := (v_scans v)(k := map_option (\<lambda>c. c + 1) (v_scans v k)),
             v_log := v_log v @ [(k, bs)]\<rparr>
      else v)"

definition delivered :: "rx_event list \<Rightarrow> (u16 \<times> byte list) list" where
  "delivered es = concat (map (\<lambda>e. case e of RxBody k True bs \<Rightarrow> [(k, bs)] | _ \<Rightarrow> []) es)"

lemma delivered_simps [simp]:
  "delivered [] = []" "delivered (RxHead k n # es) = delivered es"
  "delivered (RxBody k known bs # es) = (if known then [(k, bs)] else []) @ delivered es"
  "delivered (es @ fs) = delivered es @ delivered fs"
  by (simp_all add: delivered_def)

lemma rx_apply_log: "v_log (fold rx_apply es v) = v_log v @ delivered es"
proof (induction es arbitrary: v)
  case Nil
  then show ?case by simp
next
  case (Cons e es)
  then show ?case by (cases e) (auto split: option.splits)
qed

text \<open>Of a stream of messages, the non-empty ones with a known number are delivered.\<close>

lemma delivered_msgs:
  "delivered (concat (map (msg_events known) msgs)) = filter (\<lambda>(k, bs). known k \<and> bs \<noteq> []) msgs"
  by (induction msgs) (auto simp: msg_events_def split: if_splits)

text \<open>The content of a message number is the last of its messages, and each of them asks for the processing of its records.\<close>

definition msgs_of :: "u16 \<Rightarrow> (u16 \<times> byte list) list \<Rightarrow> (u16 \<times> byte list) list" where
  "msgs_of k ms = filter (\<lambda>m. fst m = k \<and> snd m \<noteq> []) ms"

lemma rx_apply_head_data [simp]:
  "v_data (rx_apply (RxHead k n) v) = v_data v" "v_scans (rx_apply (RxHead k n) v) = v_scans v"
  by (simp_all split: option.split)

lemma msgs_data:
  "known k \<Longrightarrow> v_data (fold rx_apply (concat (map (msg_events known) ms)) v) k =
     (if msgs_of k ms = [] then v_data v k else Some (snd (last (msgs_of k ms))))"
proof (induction ms arbitrary: v)
  case (Cons m ms)
  then show ?case by (cases m) (simp add: msg_events_def msgs_of_def del: rx_apply.simps(1))
qed (simp add: msgs_of_def)

lemma msgs_scans:
  "known k \<Longrightarrow> v_scans (fold rx_apply (concat (map (msg_events known) ms)) v) k =
     map_option (\<lambda>c. c + of_nat (length (msgs_of k ms))) (v_scans v k)"
proof (induction ms arbitrary: v)
  case Nil
  then show ?case by (simp add: msgs_of_def option.map_ident)
next
  case (Cons m ms)
  then show ?case
    by (cases m) (auto simp: msg_events_def msgs_of_def option.map_comp comp_def ac_simps simp del: rx_apply.simps(1)
        intro!: option.map_cong)
qed

end
