(* ===== verification/Psc_Base.thy ===== *)
theory Psc_Base
  imports Dbuffer Psc_Protocol
begin

text \<open>
  What all drivers share (coreApp/src/psc/device.h, cblist.h, pscbase.cpp): the callback list
  \<open>CBList\<close>, the message cache entry \<open>Block\<close> with its scan hand-shake, and the base class
  \<open>PSCBase\<close> with its two maps of blocks.

  Names that are not part of the repository are parameters: \<open>sio b\<close> is the mask that
  scanIoRequest returns for the scan list of block \<open>b\<close> (EPICS base), \<open>now\<close> is the current
  time, \<open>call\<close> runs one listener.
\<close>

section \<open>Callback lists\<close>

text \<open>
  An entry is the pair of the user pointer and the function. A listener changes a world
  \<open>'w\<close> (the private data of device supports) and may leave with a C++ exception, which the
  loop logs and ignores; a crash is not caught.
\<close>

type_synonym cb = "nat \<times> nat"

definition cblist_add :: "cb list \<Rightarrow> nat \<Rightarrow> nat \<Rightarrow> cb list" where
  "cblist_add thelist fn user = thelist @ [(user, fn)]"

definition cblist_del :: "cb list \<Rightarrow> nat \<Rightarrow> nat \<Rightarrow> cb list" where
  "cblist_del thelist fn user = removeAll (user, fn) thelist"

fun cblist_call ::
  "(cb \<Rightarrow> 'o \<Rightarrow> 'w \<Rightarrow> 'w \<times> unit outcome) \<Rightarrow> cb list \<Rightarrow> 'o \<Rightarrow> 'w \<Rightarrow> 'w \<times> unit outcome" where
  "cblist_call call [] obj w = (w, Ok ())"
| "cblist_call call (c # cs) obj w =
     (case call c obj w of
        (w', Crash x) \<Rightarrow> (w', Crash x)
      | (w', _) \<Rightarrow> cblist_call call cs obj w')"

definition never_crashes :: "(cb \<Rightarrow> 'o \<Rightarrow> 'w \<Rightarrow> 'w \<times> unit outcome) \<Rightarrow> bool" where
  "never_crashes call \<longleftrightarrow> (\<forall>c obj w. \<not> crashed (snd (call c obj w)))"

lemma cblist_call_ok: "never_crashes call \<Longrightarrow> snd (cblist_call call cs obj w) = Ok ()"
proof (induction cs arbitrary: w)
  case Nil
  then show ?case by simp
next
  case (Cons c cs)
  then have "\<not> crashed (snd (call c obj w))"
    unfolding never_crashes_def by blast
  then show ?case using Cons by (auto split: prod.splits outcome.splits)
qed

section \<open>Blocks\<close>

type_synonym epics_time = "u32 \<times> u32"

record block =
  code :: u16
  data :: dbuffer
  queued :: bool
  scanBusy :: u32
  scanQueued :: bool
  listeners :: "cb list"
  blk_count :: u32
  scanCount :: u32
  scanOflow :: u32
  rxtime :: epics_time

definition block_new :: "u16 \<Rightarrow> block" where
  "block_new c =
     \<lparr>code = c, data = dbuffer_empty, queued = False, scanBusy = 0, scanQueued = False,
      listeners = [], blk_count = 0, scanCount = 0, scanOflow = 0, rxtime = (0, 0)\<rparr>"

definition requestScan :: "(block \<Rightarrow> u32) \<Rightarrow> block \<Rightarrow> block" where
  "requestScan sio b =
     (if scanBusy b \<noteq> 0
      then b\<lparr>scanQueued := True, scanOflow := scanOflow b + 1\<rparr>
      else b\<lparr>scanBusy := sio b, scanCount := scanCount b + 1\<rparr>)"

definition scanned :: "(block \<Rightarrow> u32) \<Rightarrow> nat \<Rightarrow> block \<Rightarrow> block outcome" where
  "scanned sio prio b =
     (if scanBusy b AND push_bit prio 1 = 0 then Crash AssertFailed
      else
        let b1 = b\<lparr>scanBusy := scanBusy b AND NOT (push_bit prio 1)\<rparr>
        in if scanBusy b1 = 0 \<and> scanQueued b1
           then Ok (requestScan sio (b1\<lparr>scanQueued := False\<rparr>))
           else Ok b1)"

section \<open>The base class\<close>

text \<open>Alarm status and severity numbers of EPICS.\<close>

abbreviation (input) COMM_ALARM :: nat where "COMM_ALARM \<equiv> 9"
abbreviation (input) INVALID_ALARM :: nat where "INVALID_ALARM \<equiv> 3"

definition recAlarm :: exn where
  "recAlarm = RecAlarm COMM_ALARM INVALID_ALARM"

text \<open>
  Outward calls whose result the driver ignores are kept, in order, in the trace \<open>io\<close>. A
  call of a block's listeners is traced with the message number and the bytes the block
  then held. Records are named by numbers.
\<close>

type_synonym rec_ptr = nat

datatype io_call =
    IoScan | IoOnConnect | IoProcess rec_ptr
  | IoNotify u16 "byte list"
  | IoTimerAdd nat | IoTimerDel
  | IoSetTimeouts "nat option" nat
  | IoEnable | IoFree
  | IoAddRx nat | IoAddTx nat
  | IoSendto "byte list"

record psc_base =
  name :: string
  host :: string
  port :: u16
  connected :: bool
  ukncount :: u32
  conncount :: u32
  send_blocks :: "u16 \<Rightarrow> block option"
  recv_blocks :: "u16 \<Rightarrow> block option"
  message :: string
  procOnConnect :: "rec_ptr list"
  io :: "io_call list"

definition psc_base_new :: "string \<Rightarrow> string \<Rightarrow> u16 \<Rightarrow> psc_base" where
  "psc_base_new n h p =
     \<lparr>name = n, host = h, port = p, connected = False, ukncount = 0, conncount = 0,
      send_blocks = Map.empty, recv_blocks = Map.empty, message = ''Initialize'',
      procOnConnect = [], io = []\<rparr>"

definition emit :: "io_call \<Rightarrow> 'a psc_base_scheme \<Rightarrow> 'a psc_base_scheme" where
  "emit c s = s\<lparr>io := io s @ [c]\<rparr>"

text \<open>\<open>getSend\<close> and \<open>getRecv\<close> create the block on first use; its address is its number.\<close>

definition getSend :: "u16 \<Rightarrow> 'a psc_base_scheme \<Rightarrow> 'a psc_base_scheme" where
  "getSend k s =
     (case send_blocks s k of
        Some _ \<Rightarrow> s
      | None \<Rightarrow> s\<lparr>send_blocks := (send_blocks s)(k \<mapsto> block_new k)\<rparr>)"

definition getRecv :: "u16 \<Rightarrow> 'a psc_base_scheme \<Rightarrow> 'a psc_base_scheme" where
  "getRecv k s =
     (case recv_blocks s k of
        Some _ \<Rightarrow> s
      | None \<Rightarrow> s\<lparr>recv_blocks := (recv_blocks s)(k \<mapsto> block_new k)\<rparr>)"

text \<open>\<open>send\<close> queues the cached content of a block with the virtual \<open>queueSend\<close> of the driver.\<close>

definition psc_send ::
  "(u16 \<Rightarrow> dbuffer \<Rightarrow> 'a psc_base_scheme \<Rightarrow> 'a psc_base_scheme \<times> unit outcome) \<Rightarrow>
   u16 \<Rightarrow> 'a psc_base_scheme \<Rightarrow> 'a psc_base_scheme \<times> unit outcome" where
  "psc_send queueSend bid s =
     (case send_blocks s bid of
        None \<Rightarrow> (s, Ok ())
      | Some b \<Rightarrow> queueSend bid (data b) s)"


definition upd_send :: "u16 \<Rightarrow> (block \<Rightarrow> block) \<Rightarrow> 'a psc_base_scheme \<Rightarrow> 'a psc_base_scheme" where
  "upd_send k f s = s\<lparr>send_blocks := (send_blocks s)(k := map_option f (send_blocks s k))\<rparr>"

definition upd_recv :: "u16 \<Rightarrow> (block \<Rightarrow> block) \<Rightarrow> 'a psc_base_scheme \<Rightarrow> 'a psc_base_scheme" where
  "upd_recv k f s = s\<lparr>recv_blocks := (recv_blocks s)(k := map_option f (recv_blocks s k))\<rparr>"

text \<open>The loop at the end of \<open>flushSend\<close>, the same in both drivers.\<close>

definition clear_queued :: "(u16 \<Rightarrow> block option) \<Rightarrow> (u16 \<Rightarrow> block option)" where
  "clear_queued m = (\<lambda>k. map_option (\<lambda>b. b\<lparr>queued := False\<rparr>) (m k))"

text \<open>
  The iocsh command \<open>setPSCSendBlockSize\<close> for the driver found under the name: the number is
  cut to 16 bits, the size converted to \<open>size_t\<close>. An exception of \<open>resize\<close> is logged only.
\<close>

definition setPSCSendBlockSize ::
  "evbuffer_api \<Rightarrow> int \<Rightarrow> int \<Rightarrow> 'a psc_base_scheme \<Rightarrow> 'a psc_base_scheme" where
  "setPSCSendBlockSize api bid sz s =
     (let k = word_of_int bid; s1 = getSend k s
      in upd_send k (\<lambda>b. b\<lparr>data := fst (dbuffer_resize api (data b) (nat (sz mod 2 ^ 64)))\<rparr>) s1)"

section \<open>Invariant of the block maps\<close>

text \<open>A block is filed under its own number, and its buffer is well-formed.\<close>

definition block_ok :: "u16 \<Rightarrow> block \<Rightarrow> bool" where
  "block_ok k b \<longleftrightarrow> code b = k \<and> dbuffer_ok (data b)"

definition blocks_ok :: "(u16 \<Rightarrow> block option) \<Rightarrow> bool" where
  "blocks_ok m \<longleftrightarrow> (\<forall>k. pred_option (block_ok k) (m k))"

definition base_ok :: "'a psc_base_scheme \<Rightarrow> bool" where
  "base_ok s \<longleftrightarrow> blocks_ok (send_blocks s) \<and> blocks_ok (recv_blocks s)"

lemma block_ok_new [simp]: "block_ok k (block_new k)"
  by (simp add: block_ok_def block_new_def)

lemma blocks_okD: "blocks_ok m \<Longrightarrow> m k = Some b \<Longrightarrow> code b = k \<and> dbuffer_ok (data b)"
  using spec [of "\<lambda>k. pred_option (block_ok k) (m k)" k]
  by (simp add: blocks_ok_def block_ok_def)

lemma blocks_ok_upd:
  assumes "blocks_ok m" and "\<And>b. m k = Some b \<Longrightarrow> block_ok k b \<Longrightarrow> block_ok k (f b)"
  shows "blocks_ok (m(k := map_option f (m k)))"
proof -
  have all: "pred_option (block_ok j) (m j)" for j
    using assms(1) unfolding blocks_ok_def by blast
  have "pred_option (block_ok k) (map_option f (m k))"
  proof (cases "m k")
    case (Some b)
    then have "block_ok k b" using all [of k] by simp
    then have "block_ok k (f b)" by (rule assms(2) [OF Some])
    then show ?thesis unfolding Some by simp
  qed simp
  then show ?thesis unfolding blocks_ok_def using all by simp
qed

lemma blocks_ok_new: "blocks_ok m \<Longrightarrow> blocks_ok (m(k \<mapsto> block_new k))"
  by (simp add: blocks_ok_def)

lemma blocks_ok_clear [simp]: "blocks_ok (clear_queued m) \<longleftrightarrow> blocks_ok m"
  unfolding blocks_ok_def clear_queued_def option.pred_map
  by (simp add: block_ok_def [abs_def] comp_def)

lemma blocks_ok_empty [simp]: "blocks_ok Map.empty"
  by (simp add: blocks_ok_def)

lemma emit_sel [simp]:
  "name (emit c s) = name s" "host (emit c s) = host s" "port (emit c s) = port s"
  "connected (emit c s) = connected s" "ukncount (emit c s) = ukncount s"
  "conncount (emit c s) = conncount s" "send_blocks (emit c s) = send_blocks s"
  "recv_blocks (emit c s) = recv_blocks s" "message (emit c s) = message s"
  "procOnConnect (emit c s) = procOnConnect s" "io (emit c s) = io s @ [c]"
  by (simp_all add: emit_def)

lemma base_ok_getSend: "base_ok s \<Longrightarrow> base_ok (getSend k s)"
  by (cases "send_blocks s k") (simp_all add: base_ok_def getSend_def blocks_ok_new)

lemma base_ok_getRecv: "base_ok s \<Longrightarrow> base_ok (getRecv k s)"
  by (cases "recv_blocks s k") (simp_all add: base_ok_def getRecv_def blocks_ok_new)

lemma getSend_block: "\<exists>b. send_blocks (getSend k s) k = Some b"
  by (cases "send_blocks s k") (simp_all add: getSend_def)

lemma base_ok_upd_send:
  assumes "base_ok s" and "\<And>b. block_ok k b \<Longrightarrow> block_ok k (f b)"
  shows "base_ok (upd_send k f s)"
  using assms blocks_ok_upd [of "send_blocks s" k f] by (simp add: base_ok_def upd_send_def)

lemma upd_send_base [simp]:
  "connected (upd_send k f s) = connected s" "recv_blocks (upd_send k f s) = recv_blocks s"
  by (simp_all add: upd_send_def)

lemma getSend_base [simp]:
  "connected (getSend k s) = connected s" "recv_blocks (getSend k s) = recv_blocks s"
  by (simp_all add: getSend_def split: option.splits)

lemma requestScan_sel [simp]:
  "code (requestScan sio b) = code b" "data (requestScan sio b) = data b"
  "listeners (requestScan sio b) = listeners b" "blk_count (requestScan sio b) = blk_count b"
  "queued (requestScan sio b) = queued b" "rxtime (requestScan sio b) = rxtime b"
  by (simp_all add: requestScan_def)

section \<open>What clients see of the receiver\<close>

definition notified :: "io_call list \<Rightarrow> (u16 \<times> byte list) list" where
  "notified cs = concat (map (\<lambda>c. case c of IoNotify k bs \<Rightarrow> [(k, bs)] | _ \<Rightarrow> []) cs)"

lemma notified_simps [simp]:
  "notified [] = []" "notified (cs @ ds) = notified cs @ notified ds"
  "notified (c # cs) = (case c of IoNotify k bs \<Rightarrow> [(k, bs)] | _ \<Rightarrow> []) @ notified cs"
  by (simp_all add: notified_def)

definition blk_view :: "(block \<Rightarrow> 'v) \<Rightarrow> (u16 \<Rightarrow> block option) \<Rightarrow> (u16 \<Rightarrow> 'v option)" where
  "blk_view f m = (\<lambda>k. map_option f (m k))"

lemma blk_view_upd [simp]:
  "blk_view f (m(k \<mapsto> b)) = (blk_view f m)(k \<mapsto> f b)"
  by (auto simp: blk_view_def)

lemma blk_view_Some: "m k = Some b \<Longrightarrow> blk_view f m k = Some (f b)"
  by (simp add: blk_view_def)

lemma blk_view_None: "m k = None \<Longrightarrow> blk_view f m k = None"
  by (simp add: blk_view_def)

lemma blk_view_same: "m k = Some b \<Longrightarrow> f b' = f b \<Longrightarrow> (blk_view f m)(k \<mapsto> f b') = blk_view f m"
  by (rule ext) (simp add: blk_view_def)

text \<open>How often the records of a block were to be processed: at once, or after the scan that was running.\<close>

definition scan_requests :: "block \<Rightarrow> u32" where
  "scan_requests b = scanCount b + scanOflow b"

lemma scan_requests_request [simp]: "scan_requests (requestScan sio b) = scan_requests b + 1"
  by (simp add: scan_requests_def requestScan_def)

lemma scan_requests_upd [simp]:
  "scan_requests (b\<lparr>data := d\<rparr>) = scan_requests b" "scan_requests (b\<lparr>blk_count := c\<rparr>) = scan_requests b"
  "scan_requests (b\<lparr>rxtime := x\<rparr>) = scan_requests b"
  by (simp_all add: scan_requests_def)

definition view :: "'a psc_base_scheme \<Rightarrow> rx_view" where
  "view s =
     \<lparr>v_count = blk_view blk_count (recv_blocks s), v_data = blk_view (\<lambda>b. dbytes (data b)) (recv_blocks s),
      v_scans = blk_view scan_requests (recv_blocks s),
      v_ukn = ukncount s, v_log = notified (io s)\<rparr>"

definition known :: "'a psc_base_scheme \<Rightarrow> u16 \<Rightarrow> bool" where
  "known s k \<longleftrightarrow> recv_blocks s k \<noteq> None"

lemma upd_recv_Some: "recv_blocks s k = Some b \<Longrightarrow> upd_recv k f s = s\<lparr>recv_blocks := (recv_blocks s)(k \<mapsto> f b)\<rparr>"
  by (simp add: upd_recv_def)

lemma upd_send_Some: "send_blocks s k = Some b \<Longrightarrow> upd_send k f s = s\<lparr>send_blocks := (send_blocks s)(k \<mapsto> f b)\<rparr>"
  by (simp add: upd_send_def)

lemma blocks_ok_upd1: "blocks_ok m \<Longrightarrow> block_ok k b \<Longrightarrow> blocks_ok (m(k \<mapsto> b))"
  by (simp add: blocks_ok_def)

section \<open>The scan hand-shake\<close>

text \<open>
  New data is announced with \<open>requestScan\<close>. EPICS then runs one callback per priority in the
  returned mask and reports the end of each with \<open>scanned\<close>. The model adds what the block
  does not store: the callbacks still running (\<open>inflight\<close>), the number of updates of the data
  (\<open>ver\<close>), and the update that was current at the last scanIoRequest (\<open>seen\<close>).
\<close>

record scan_sys =
  sys_blk :: block
  inflight :: "nat set"
  ver :: nat
  seen :: nat

definition prios :: "u32 \<Rightarrow> nat set" where
  "prios m = {p. bit m p}"


definition restarts :: "nat \<Rightarrow> block \<Rightarrow> bool" where
  "restarts p b \<longleftrightarrow> scanBusy b AND NOT (push_bit p 1) = 0 \<and> scanQueued b"

inductive scan_step :: "(block \<Rightarrow> u32) \<Rightarrow> scan_sys \<Rightarrow> scan_sys \<Rightarrow> bool" for sio where
  arrive_idle: "scanBusy (sys_blk s) = 0 \<Longrightarrow> b = requestScan sio (sys_blk s) \<Longrightarrow>
    scan_step sio s \<lparr>sys_blk = b, inflight = prios (scanBusy b), ver = Suc (ver s), seen = Suc (ver s)\<rparr>"
| arrive_busy: "scanBusy (sys_blk s) \<noteq> 0 \<Longrightarrow>
    scan_step sio s (s\<lparr>sys_blk := requestScan sio (sys_blk s), ver := Suc (ver s)\<rparr>)"
| complete: "p \<in> inflight s \<Longrightarrow> scanned sio p (sys_blk s) = Ok b \<Longrightarrow> \<not> restarts p (sys_blk s) \<Longrightarrow>
    scan_step sio s (s\<lparr>sys_blk := b, inflight := inflight s - {p}\<rparr>)"
| complete_restart: "p \<in> inflight s \<Longrightarrow> scanned sio p (sys_blk s) = Ok b \<Longrightarrow> restarts p (sys_blk s) \<Longrightarrow>
    scan_step sio s (s\<lparr>sys_blk := b, inflight := prios (scanBusy b), seen := ver s\<rparr>)"


inductive_cases scan_stepE: "scan_step sio s t"










end
