(* ===== verification/Psc_Tcp.thy ===== *)
theory Psc_Tcp
  imports Psc_Base
begin

text \<open>
  The TCP driver \<open>PSC\<close> (coreApp/src/psc.cpp, pscwrap.cpp, device.h): sending, connection
  management and the receive loop.

  What is not part of the repository is a parameter: the byte queue calls of libevent
  (\<open>api\<close>), the masks that scanIoRequest returns (\<open>scanIo\<close>), the listeners of blocks
  (\<open>listener\<close>), the clock (\<open>getCurrent\<close>, the n-th reading), and what processing a record
  makes its device support do with the driver (\<open>dbProcess\<close>). The result of creating a
  bufferevent or of starting to connect is an argument of the operation that asks for it.
\<close>

section \<open>State\<close>

text \<open>A bufferevent: its two byte queues, its read watermarks, and whether reading is enabled.\<close>

record bev =
  bev_input :: evbuffer
  bev_output :: evbuffer
  rd_low :: nat
  rd_high :: nat
  enabled :: bool

record 'w psc = psc_base +
  mask :: u32
  session :: "bev option"
  timer_active :: bool
  have_head :: bool
  header :: u16
  bodylen :: u32
  bodyblock :: "u16 option"
  expect :: nat
  sendbuf :: evbuffer
  ticks :: nat
  world :: 'w

lemma psc_emit_sel [simp]:
  "mask (emit c s) = mask s" "session (emit c s) = session s"
  "timer_active (emit c s) = timer_active s" "have_head (emit c s) = have_head s"
  "header (emit c s) = header s" "bodylen (emit c s) = bodylen s"
  "bodyblock (emit c s) = bodyblock s" "expect (emit c s) = expect s"
  "sendbuf (emit c s) = sendbuf s" "ticks (emit c s) = ticks s" "world (emit c s) = world s"
  by (simp_all add: emit_def)

text \<open>What device supports ask of the driver while a record is processed.\<close>

datatype client_op =
    CSend u16
  | CQueue u16 "byte list"
  | CWrite u16 "byte list" nat
  | CFlush
  | CForce

record 'w psc_env =
  api :: evbuffer_api
  PSCMaxSendBuffer :: int
  PSCInactivityTime :: int
  scanIo :: "block \<Rightarrow> u32"
  listener :: "cb \<Rightarrow> block \<Rightarrow> 'w \<Rightarrow> 'w \<times> unit outcome"
  getCurrent :: "nat \<Rightarrow> epics_time option"
  dbProcess :: "rec_ptr \<Rightarrow> 'w \<Rightarrow> client_op list"

abbreviation (input) HEADER_SIZE :: nat where "HEADER_SIZE \<equiv> 8"

definition min_max_buf_size :: nat where
  "min_max_buf_size = 1024 * 1024"

text \<open>
  The constructor. \<open>alloc\<close> tells whether the event base, the timer and the resolver could be
  created.
\<close>

definition PSC_new ::
  "evbuffer_api \<Rightarrow> bool \<Rightarrow> string \<Rightarrow> string \<Rightarrow> u16 \<Rightarrow> u32 \<Rightarrow> 'w \<Rightarrow> 'w psc outcome" where
  "PSC_new ap alloc n h p timeoutmask w =
     (case evbuffer_new ap of
        None \<Rightarrow> Throw BadAlloc
      | Some sb \<Rightarrow>
          if \<not> alloc then Throw BadAlloc
          else Ok (psc_base.extend (psc_base_new n h p)
                 \<lparr>mask = timeoutmask, session = None, timer_active = False, have_head = False,
                  header = 0, bodylen = 0, bodyblock = None, expect = HEADER_SIZE,
                  sendbuf = sb, ticks = 0, world = w\<rparr>))"

section \<open>Sending\<close>

definition flushSend :: "'w psc_env \<Rightarrow> 'w psc \<Rightarrow> 'w psc \<times> unit outcome" where
  "flushSend env s =
     (if \<not> connected s then (s, Ok ())
      else case session s of
        None \<Rightarrow> (s, Crash NullPointer)
      | Some ss \<Rightarrow>
          let tx = bev_output ss
          in if PSCMaxSendBuffer env > 0 \<and>
                evbuffer_get_length (api env) tx \<ge> nat (PSCMaxSendBuffer env)
             then (s, Throw (RuntimeError ''Sending message would exceed buffer''))
             else case evbuffer_add_buffer (api env) tx (sendbuf s) of
                 None \<Rightarrow>
                   (s\<lparr>sendbuf := evbuffer_drain (api env) (sendbuf s)
                                  (evbuffer_get_length (api env) (sendbuf s))\<rparr>,
                    Throw (RuntimeError ''Unable to send messages!''))
               | Some (tx', sb') \<Rightarrow>
                   (s\<lparr>session := Some (ss\<lparr>bev_output := tx'\<rparr>), sendbuf := sb',
                      send_blocks := clear_queued (send_blocks s)\<rparr>,
                    Ok ()))"

text \<open>
  A block is named by its number. The length is a 32 bit number, and so is the sum that is
  passed to evbuffer_expand.
\<close>

definition queueHeader :: "'w psc_env \<Rightarrow> u16 \<Rightarrow> u32 \<Rightarrow> 'w psc \<Rightarrow> 'w psc \<times> unit outcome" where
  "queueHeader env k buflen s =
     (if \<not> connected s then (s, Ok ())
      else case send_blocks s k of
        None \<Rightarrow> (s, Crash NullPointer)
      | Some blk \<Rightarrow>
          if queued blk then (s, Throw recAlarm)
          else if PSCMaxSendBuffer env > 0 \<and>
                  evbuffer_get_length (api env) (sendbuf s) \<ge> nat (PSCMaxSendBuffer env)
          then (s, Throw (RuntimeError ''Enqueuing message would exceed buffer''))
          else case evbuffer_expand (api env) (sendbuf s) (unat (8 + buflen)) of
              None \<Rightarrow> (s, Throw (RuntimeError ''Unable to enqueue message.  Insufficient memory.''))
            | Some sb \<Rightarrow>
                (case evbuffer_add (api env) sb (enc_header (code blk) buflen) of
                   None \<Rightarrow> (s\<lparr>sendbuf := sb\<rparr>, Crash AssertFailed)
                 | Some sb' \<Rightarrow> (s\<lparr>sendbuf := sb'\<rparr>, Ok ())))"

definition mark_queued :: "block \<Rightarrow> block" where
  "mark_queued b = b\<lparr>queued := True, blk_count := blk_count b + 1\<rparr>"

lemma block_ok_mark [simp]: "block_ok k (mark_queued b) = block_ok k b"
  by (simp add: block_ok_def mark_queued_def)

definition queueSend_buf :: "'w psc_env \<Rightarrow> u16 \<Rightarrow> dbuffer \<Rightarrow> 'w psc \<Rightarrow> 'w psc \<times> unit outcome" where
  "queueSend_buf env k buf s =
     (case queueHeader env k (of_nat (dbuffer_size (api env) buf)) s of
        (s1, Ok _) \<Rightarrow>
          (case copyout_ev (api env) buf (sendbuf s1) of (sb, r) \<Rightarrow>
             let s2 = s1\<lparr>sendbuf := sb\<rparr>
             in case r of
                  Ok _ \<Rightarrow> (upd_send k mark_queued s2, Ok ())
                | Throw e \<Rightarrow> (s2, Throw e)
                | Crash c \<Rightarrow> (s2, Crash c))
      | (s1, r) \<Rightarrow> (s1, r))"

text \<open>The buffer of \<open>queueSend(Block*, const void*, epicsUInt32)\<close> is the list of its bytes.\<close>

definition queueSend_raw :: "'w psc_env \<Rightarrow> u16 \<Rightarrow> byte list \<Rightarrow> 'w psc \<Rightarrow> 'w psc \<times> unit outcome" where
  "queueSend_raw env k buf s =
     (case queueHeader env k (of_nat (length buf)) s of
        (s1, Ok _) \<Rightarrow>
          (case evbuffer_add (api env) (sendbuf s1) buf of
             None \<Rightarrow> (s1, Crash AssertFailed)
           | Some sb \<Rightarrow> (upd_send k mark_queued (s1\<lparr>sendbuf := sb\<rparr>), Ok ()))
      | (s1, r) \<Rightarrow> (s1, r))"

definition queueSend_id :: "'w psc_env \<Rightarrow> u16 \<Rightarrow> byte list \<Rightarrow> 'w psc \<Rightarrow> 'w psc \<times> unit outcome" where
  "queueSend_id env k buf s = queueSend_raw env k buf (getSend k s)"

section \<open>Connection management\<close>

definition set_watermark :: "nat \<Rightarrow> nat \<Rightarrow> bev \<Rightarrow> bev" where
  "set_watermark low high ss = ss\<lparr>rd_low := low, rd_high := high\<rparr>"

text \<open>
  \<open>nb\<close> is the new bufferevent, if it could be created, and \<open>failed\<close> tells whether
  bufferevent_socket_connect_hostname reported an error.
\<close>

definition connect :: "'w psc_env \<Rightarrow> bev option \<Rightarrow> bool \<Rightarrow> 'w psc \<Rightarrow> 'w psc \<times> unit outcome" where
  "connect env nb failed s =
     (if connected s \<or> session s \<noteq> None \<or> timer_active s then (s, Crash AssertFailed)
      else
        let s1 = s\<lparr>have_head := False, header := 0, bodylen := 0, bodyblock := None,
                   expect := HEADER_SIZE\<rparr>
        in case nb of
             None \<Rightarrow> (s1, Throw BadAlloc)
           | Some ss \<Rightarrow>
               let t = nat (PSCInactivityTime env);
                   s2 = (if PSCInactivityTime env > 0
                         then emit (IoSetTimeouts (if mask s AND 1 \<noteq> 0 then Some t else None) t) s1
                         else s1);
                   s3 = s2\<lparr>session := Some (set_watermark (expect s2) min_max_buf_size ss)\<rparr>;
                   s4 = (if failed
                         then (emit (IoTimerAdd 5) (emit IoFree s3))
                                \<lparr>session := None, timer_active := True,
                                 message := ''Failed to initiate connection.''\<rparr>
                         else s3\<lparr>message := ''Connecting...''\<rparr>)
               in (emit IoScan s4, Ok ()))"

definition start_reconnect :: "'w psc \<Rightarrow> 'w psc \<times> unit outcome" where
  "start_reconnect s =
     (if session s = None \<or> timer_active s then (s, Crash AssertFailed)
      else ((emit (IoTimerAdd 5) (emit IoFree s))
              \<lparr>session := None, connected := False, timer_active := True\<rparr>,
            Ok ()))"

definition forceReConnect :: "'w psc \<Rightarrow> 'w psc \<times> unit outcome" where
  "forceReConnect s = (if \<not> connected s then (s, Ok ()) else start_reconnect s)"

definition reconnect :: "'w psc_env \<Rightarrow> bev option \<Rightarrow> bool \<Rightarrow> 'w psc \<Rightarrow> 'w psc \<times> unit outcome" where
  "reconnect env nb failed s =
     (if connected s \<or> session s \<noteq> None then (s, Crash AssertFailed)
      else case connect env nb failed (s\<lparr>timer_active := False\<rparr>) of
          (s1, Ok _) \<Rightarrow>
            if session s1 \<noteq> None \<or> timer_active s1 then (s1, Ok ()) else (s1, Crash AssertFailed)
        | (s1, r) \<Rightarrow> (s1, r))"

definition stopinloop :: "'w psc \<Rightarrow> 'w psc \<times> unit outcome" where
  "stopinloop s =
     (if connected s \<and> session s = None then (s, Crash AssertFailed)
      else
        let s1 = (if connected s then emit IoFree s else s)\<lparr>session := None\<rparr>;
            s2 = (if timer_active s1 then emit IoTimerDel s1 else s1)
        in (s2\<lparr>timer_active := False\<rparr>, Ok ()))"

section \<open>Calls of device supports\<close>

fun client_call :: "'w psc_env \<Rightarrow> client_op \<Rightarrow> 'w psc \<Rightarrow> 'w psc \<times> unit outcome" where
  "client_call env (CSend k) s = psc_send (queueSend_buf env) k s"
| "client_call env (CQueue k bs) s = queueSend_id env k bs s"
| "client_call env (CWrite k bs off') s =
     (upd_send k (\<lambda>b. b\<lparr>data := fst (dbuffer_copyin (data b) bs off')\<rparr>) (getSend k s), Ok ())"
| "client_call env CFlush s = flushSend env s"
| "client_call env CForce s = forceReConnect s"

text \<open>A device support turns an exception into an alarm of its record and returns.\<close>

fun client_run :: "'w psc_env \<Rightarrow> client_op list \<Rightarrow> 'w psc \<Rightarrow> 'w psc \<times> unit outcome" where
  "client_run env [] s = (s, Ok ())"
| "client_run env (c # cs) s =
     (case client_call env c s of
        (s1, Crash x) \<Rightarrow> (s1, Crash x)
      | (s1, _) \<Rightarrow> client_run env cs s1)"

fun process_all :: "'w psc_env \<Rightarrow> rec_ptr list \<Rightarrow> 'w psc \<Rightarrow> 'w psc \<times> unit outcome" where
  "process_all env [] s = (s, Ok ())"
| "process_all env (r # rs) s =
     (case client_run env (dbProcess env r (world s)) (emit (IoProcess r) s) of
        (s1, Ok _) \<Rightarrow> process_all env rs s1
      | (s1, x) \<Rightarrow> (s1, x))"

section \<open>Connection events\<close>

text \<open>The event flags of libevent.\<close>

abbreviation (input) BEV_EVENT_READING :: u16 where "BEV_EVENT_READING \<equiv> 0x01"
abbreviation (input) BEV_EVENT_WRITING :: u16 where "BEV_EVENT_WRITING \<equiv> 0x02"
abbreviation (input) BEV_EVENT_EOF :: u16 where "BEV_EVENT_EOF \<equiv> 0x10"
abbreviation (input) BEV_EVENT_ERROR :: u16 where "BEV_EVENT_ERROR \<equiv> 0x20"
abbreviation (input) BEV_EVENT_TIMEOUT :: u16 where "BEV_EVENT_TIMEOUT \<equiv> 0x40"
abbreviation (input) BEV_EVENT_CONNECTED :: u16 where "BEV_EVENT_CONNECTED \<equiv> 0x80"

definition event_message :: "string \<Rightarrow> bool \<Rightarrow> u16 \<Rightarrow> string" where
  "event_message sockerr conn events =
     (if events AND BEV_EVENT_ERROR \<noteq> 0 then ''Socket Error: '' @ sockerr
      else if events AND BEV_EVENT_TIMEOUT \<noteq> 0
      then (if conn
            then (if events AND BEV_EVENT_WRITING \<noteq> 0 then ''TX '' else []) @
                 (if events AND BEV_EVENT_READING \<noteq> 0 then ''RX '' else []) @ ''Data Timeout''
            else ''Timeout while connecting'')
      else ''Connection closed by PSC'')"

text \<open>\<open>sockerr\<close> is the text of the last socket error.\<close>

definition eventcb :: "'w psc_env \<Rightarrow> string \<Rightarrow> u16 \<Rightarrow> 'w psc \<Rightarrow> 'w psc \<times> unit outcome" where
  "eventcb env sockerr events s =
     (if events AND BEV_EVENT_CONNECTED \<noteq> 0 then
        (case session s of
           None \<Rightarrow> (s, Crash NullPointer)
         | Some ss \<Rightarrow>
             let s1 = (emit IoEnable s)\<lparr>session := Some (ss\<lparr>enabled := True\<rparr>), connected := True,
                        message := ''Connected'', conncount := conncount s + 1\<rparr>
             in case process_all env (procOnConnect s1) (emit IoOnConnect s1) of
                  (s2, Ok _) \<Rightarrow> (emit IoScan s2, Ok ())
                | (s2, r) \<Rightarrow> (s2, r))
      else if events AND (BEV_EVENT_ERROR OR BEV_EVENT_EOF OR BEV_EVENT_TIMEOUT) \<noteq> 0 then
        (case start_reconnect s of
           (s1, Ok _) \<Rightarrow>
             (emit IoScan (s1\<lparr>message := event_message sockerr (connected s) events\<rparr>), Ok ())
         | (s1, r) \<Rightarrow> (s1, r))
      else (s, Ok ()))"

section \<open>The receive loop\<close>

definition stamp :: "epics_time option \<Rightarrow> block \<Rightarrow> block" where
  "stamp t b =
     b\<lparr>rxtime := (case t of Some x \<Rightarrow> x | None \<Rightarrow> (0, 0)), blk_count := blk_count b + 1\<rparr>"

text \<open>
  One pass decodes a header or takes a body. Its value is whether the loop goes on; a
  framing error returns from \<open>recvdata\<close>.
\<close>

definition recv_head :: "'w psc_env \<Rightarrow> bev \<Rightarrow> 'w psc \<Rightarrow> 'w psc \<times> bool outcome" where
  "recv_head env ss s =
     (if expect s \<noteq> HEADER_SIZE then (s, Crash AssertFailed)
      else
        let (hbuf, buf) = evbuffer_remove (api env) (bev_input ss) HEADER_SIZE;
            s1 = s\<lparr>session := Some (ss\<lparr>bev_input := buf\<rparr>)\<rparr>
        in if \<not> hdr_marked hbuf then
             (case start_reconnect s1 of
                (s2, Ok _) \<Rightarrow> (emit IoScan (s2\<lparr>message := ''Framing error!''\<rparr>), Ok False)
              | (s2, Throw e) \<Rightarrow> (s2, Throw e)
              | (s2, Crash c) \<Rightarrow> (s2, Crash c))
           else
             let k = hdr_id hbuf; n = hdr_len hbuf;
                 s2 = s1\<lparr>header := k, bodylen := n\<rparr>;
                 s3 = (case recv_blocks s2 k of
                         Some b \<Rightarrow> (upd_recv k (stamp (getCurrent env (ticks s2))) s2)
                                     \<lparr>bodyblock := Some k, ticks := Suc (ticks s2)\<rparr>
                       | None \<Rightarrow> s2\<lparr>bodyblock := None, ukncount := ukncount s2 + 1\<rparr>)
             in (if n \<noteq> 0 then s3\<lparr>have_head := True, expect := unat n\<rparr>
                 else s3\<lparr>have_head := False, bodyblock := None, expect := HEADER_SIZE\<rparr>,
                 Ok True))"

definition body_done :: "'w psc \<Rightarrow> 'w psc" where
  "body_done s = s\<lparr>have_head := False, bodyblock := None, expect := HEADER_SIZE\<rparr>"

definition recv_body :: "'w psc_env \<Rightarrow> bev \<Rightarrow> 'w psc \<Rightarrow> 'w psc \<times> bool outcome" where
  "recv_body env ss s =
     (case bodyblock s of
        Some k \<Rightarrow>
          (case recv_blocks s k of
             None \<Rightarrow> (s, Crash NullPointer)
           | Some b \<Rightarrow>
               (case dbuffer_consume (api env) (data b) (bev_input ss) (unat (bodylen s)) of
                  ((d, buf), r) \<Rightarrow>
                    let b1 = b\<lparr>data := d\<rparr>;
                        s1 = s\<lparr>session := Some (ss\<lparr>bev_input := buf\<rparr>),
                               recv_blocks := (recv_blocks s)(k \<mapsto> b1)\<rparr>
                    in case r of
                         Throw e \<Rightarrow> (s1, Throw e)
                       | Crash c \<Rightarrow> (s1, Crash c)
                       | Ok _ \<Rightarrow>
                           let b2 = requestScan (scanIo env) b1;
                               s2 = s1\<lparr>recv_blocks := (recv_blocks s)(k \<mapsto> b2)\<rparr>
                           in case cblist_call (listener env) (listeners b2) b2 (world s2) of
                                (w, Ok _) \<Rightarrow>
                                  (body_done (emit (IoNotify k (dbytes d)) (s2\<lparr>world := w\<rparr>)), Ok True)
                              | (w, Throw e) \<Rightarrow> (s2\<lparr>world := w\<rparr>, Throw e)
                              | (w, Crash c) \<Rightarrow> (s2\<lparr>world := w\<rparr>, Crash c)))
      | None \<Rightarrow>
          (body_done (s\<lparr>session := Some (ss\<lparr>bev_input :=
             evbuffer_drain (api env) (bev_input ss) (unat (bodylen s))\<rparr>)\<rparr>), Ok True))"

definition recv_iter :: "'w psc_env \<Rightarrow> bev \<Rightarrow> 'w psc \<Rightarrow> 'w psc \<times> bool outcome" where
  "recv_iter env ss s = (if \<not> have_head s then recv_head env ss s else recv_body env ss s)"

definition in_length :: "'w psc_env \<Rightarrow> 'w psc \<Rightarrow> nat" where
  "in_length env s =
     (case session s of None \<Rightarrow> 0 | Some ss \<Rightarrow> evbuffer_get_length (api env) (bev_input ss))"

text \<open>
  The loop ends on every input: the assertion at the end of its body lets it go on only
  when the input has become shorter.
\<close>

function recv_loop :: "'w psc_env \<Rightarrow> 'w psc \<Rightarrow> 'w psc \<times> bool outcome" where
  "recv_loop env s =
     (case session s of
        None \<Rightarrow> (s, Crash NullPointer)
      | Some ss \<Rightarrow>
          let nbytes = in_length env s
          in if nbytes < expect s then (s, Ok True)
             else case recv_iter env ss s of
                 (s1, Ok True) \<Rightarrow>
                   if nbytes > in_length env s1 then recv_loop env s1
                   else (s1, Crash AssertFailed)
               | (s1, r) \<Rightarrow> (s1, r))"
  by pat_completeness auto
termination by (relation "measure (\<lambda>(env, s). in_length env s)") auto

declare recv_loop.simps [simp del]

definition recvdata :: "'w psc_env \<Rightarrow> 'w psc \<Rightarrow> 'w psc \<times> unit outcome" where
  "recvdata env s =
     (if \<not> (connected s \<and> session s \<noteq> None) then (s, Crash AssertFailed)
      else case recv_loop env s of
          (s1, Ok True) \<Rightarrow>
            (s1\<lparr>session := map_option (set_watermark (expect s1)
                  (if expect s1 \<ge> min_max_buf_size then expect s1 + 1 else min_max_buf_size))
                  (session s1)\<rparr>, Ok ())
        | (s1, Ok False) \<Rightarrow> (s1, Ok ())
        | (s1, Throw e) \<Rightarrow> (s1, Throw e)
        | (s1, Crash c) \<Rightarrow> (s1, Crash c))"

section \<open>Entry points from the event loop\<close>

definition logged :: "'s \<times> unit outcome \<Rightarrow> 's \<times> unit outcome" where
  "logged x = (case x of (s, Throw e) \<Rightarrow> (s, Ok ()) | (s, r) \<Rightarrow> (s, r))"

definition bev_eventcb :: "'w psc_env \<Rightarrow> string \<Rightarrow> u16 \<Rightarrow> 'w psc \<Rightarrow> 'w psc \<times> unit outcome" where
  "bev_eventcb env sockerr evt s =
     (if session s = None then (s, Crash NullPointer) else logged (eventcb env sockerr evt s))"

definition bev_datacb :: "'w psc_env \<Rightarrow> 'w psc \<Rightarrow> 'w psc \<times> unit outcome" where
  "bev_datacb env s =
     (if session s = None then (s, Crash NullPointer) else logged (recvdata env s))"

definition bev_reconnect :: "'w psc_env \<Rightarrow> bev option \<Rightarrow> bool \<Rightarrow> 'w psc \<Rightarrow> 'w psc \<times> unit outcome" where
  "bev_reconnect env nb failed s = logged (reconnect env nb failed s)"

end
