(* ===== verification/Psc_Tcp_Recv.thy ===== *)
theory Psc_Tcp_Recv
  imports Psc_Tcp
begin

text \<open>
  The receive side of the TCP driver implements the abstract decoder \<open>rx_run\<close> of
  \<open>Psc_Protocol\<close>: each pass of the loop is one step of the decoder, and what clients see
  (\<open>view\<close>) changes as the decoder's events say.
\<close>

section \<open>State of the decoder\<close>

definition rx_ok :: "'w psc \<Rightarrow> bool" where
  "rx_ok s \<longleftrightarrow>
     (if have_head s
      then bodylen s \<noteq> 0 \<and> expect s = unat (bodylen s) \<and>
           (bodyblock s = None \<or> bodyblock s = Some (header s) \<and> known s (header s))
      else expect s = HEADER_SIZE \<and> bodyblock s = None)"

definition tcp_wait :: "'w psc \<Rightarrow> rx_wait" where
  "tcp_wait s = (if have_head s then Some (header s, bodylen s, bodyblock s \<noteq> None) else None)"

lemma rx_ok_need: "rx_ok s \<Longrightarrow> expect s = rx_need (tcp_wait s) \<and> rx_wait_ok (tcp_wait s)"
  by (auto simp: rx_ok_def tcp_wait_def rx_wait_ok_def split: if_splits)

text \<open>What a pass of the loop leaves alone.\<close>

definition rx_frame :: "'w psc \<Rightarrow> 'w psc \<Rightarrow> bool" where
  "rx_frame s t \<longleftrightarrow>
     connected t = connected s \<and> timer_active t = timer_active s \<and> known t = known s \<and>
     map_option bev_output (session t) = map_option bev_output (session s) \<and>
     map_option enabled (session t) = map_option enabled (session s) \<and>
     sendbuf t = sendbuf s \<and> send_blocks t = send_blocks s \<and> conncount t = conncount s \<and>
     procOnConnect t = procOnConnect s"

lemma rx_frame_refl [simp]: "rx_frame s s"
  by (simp add: rx_frame_def)

lemma rx_frame_trans: "rx_frame s t \<Longrightarrow> rx_frame t u \<Longrightarrow> rx_frame s u"
  by (simp add: rx_frame_def)

definition in_bytes :: "'w psc \<Rightarrow> byte list" where
  "in_bytes s = (case session s of None \<Rightarrow> [] | Some ss \<Rightarrow> evbytes (bev_input ss))"

definition recv_env :: "'w psc_env \<Rightarrow> bool" where
  "recv_env env \<longleftrightarrow>
     evbuffer_lawful (api env) \<and> evbuffer_reliable (api env) \<and> never_crashes (listener env)"

lemma in_length_eq: "recv_env env \<Longrightarrow> in_length env s = length (in_bytes s)"
  by (simp add: in_length_def in_bytes_def recv_env_def ev_laws split: option.splits)

lemma session_upd [simp]:
  "rx_ok (s\<lparr>session := x\<rparr>) = rx_ok s" "base_ok (s\<lparr>session := x\<rparr>) = base_ok s"
  "known (s\<lparr>session := x\<rparr>) = known s" "tcp_wait (s\<lparr>session := x\<rparr>) = tcp_wait s"
  "view (s\<lparr>session := x\<rparr>) = view s"
  by (simp_all add: rx_ok_def base_ok_def known_def [abs_def] tcp_wait_def view_def)

section \<open>One pass\<close>

definition pass_to :: "'w psc \<Rightarrow> byte list \<Rightarrow> rx_wait \<Rightarrow> rx_event \<Rightarrow> 'w psc \<Rightarrow> bool" where
  "pass_to s rest h e t \<longleftrightarrow>
     session t \<noteq> None \<and> in_bytes t = rest \<and> tcp_wait t = h \<and> rx_ok t \<and> base_ok t \<and> rx_frame s t \<and>
     view t = rx_apply e (view s)"

lemma recv_head_pass:
  assumes "recv_env env" and "session s = Some ss" and "\<not> have_head s"
    and "rx_ok s" and "base_ok s" and "8 \<le> length (in_bytes s)" and "hdr_marked (in_bytes s)"
  shows "\<exists>t. recv_iter env ss s = (t, Ok True) \<and>
    pass_to s (drop 8 (in_bytes s)) (rx_next (known s) (in_bytes s))
      (RxHead (hdr_id (in_bytes s)) (hdr_len (in_bytes s))) t"
proof -
  let ?bs = "evbytes (bev_input ss)"
  let ?k = "hdr_id ?bs"
  have law: "evbuffer_lawful (api env)" using assms(1) by (simp add: recv_env_def)
  have bs: "in_bytes s = ?bs" using assms(2) by (simp add: in_bytes_def)
  obtain hb buf where rm: "evbuffer_remove (api env) (bev_input ss) 8 = (hb, buf)"
    by (cases "evbuffer_remove (api env) (bev_input ss) 8")
  then have hb: "hb = take 8 ?bs" and buf: "evbytes buf = drop 8 ?bs"
    using ev_remove [OF law, of "bev_input ss" 8] by auto
  have ex: "expect s = 8" using assms(3,4) by (simp add: rx_ok_def)
  show ?thesis
  proof (cases "recv_blocks s ?k")
    case None
    then show ?thesis
      using assms
      by (auto simp: recv_iter_def recv_head_def rm hb ex bs buf pass_to_def in_bytes_def tcp_wait_def
          rx_next_def rx_ok_def base_ok_def rx_frame_def known_def [abs_def] view_def Let_def
          blk_view_None)
  next
    case (Some b)
    then have "block_ok ?k b"
      using assms(5) blocks_okD [of "recv_blocks s" ?k b] by (simp add: base_ok_def block_ok_def)
    then show ?thesis
      using assms Some
      by (auto simp: recv_iter_def recv_head_def rm hb ex bs buf pass_to_def in_bytes_def tcp_wait_def
          rx_next_def rx_ok_def base_ok_def rx_frame_def known_def [abs_def] view_def Let_def
          upd_recv_Some stamp_def blk_view_Some blocks_ok_upd1 block_ok_def
          blk_view_same [where f = "\<lambda>b. dbytes (data b)"] blk_view_same [where f = scan_requests])
  qed
qed

lemma recv_body_pass:
  assumes "recv_env env" and "session s = Some ss" and "have_head s"
    and "rx_ok s" and "base_ok s" and "unat (bodylen s) \<le> length (in_bytes s)"
  shows "\<exists>t. recv_iter env ss s = (t, Ok True) \<and>
    pass_to s (drop (unat (bodylen s)) (in_bytes s)) None
      (RxBody (header s) (bodyblock s \<noteq> None) (take (unat (bodylen s)) (in_bytes s))) t"
proof (cases "bodyblock s")
  case None
  then show ?thesis
    using assms
    by (simp add: recv_iter_def recv_body_def body_done_def pass_to_def in_bytes_def tcp_wait_def
        rx_ok_def base_ok_def rx_frame_def known_def [abs_def] view_def recv_env_def ev_laws)
next
  case (Some k)
  then have k: "k = header s" and "known s k" using assms(3,4) by (auto simp: rx_ok_def)
  then obtain b where b: "recv_blocks s k = Some b" by (auto simp: known_def)
  then have bc: "code b = k"
    using assms(5) blocks_okD [of "recv_blocks s" k b] by (simp add: base_ok_def)
  obtain d buf where c: "dbuffer_consume (api env) (data b) (bev_input ss) (unat (bodylen s)) = ((d, buf), Ok ())"
    and d: "dbuffer_ok d" "dbytes d = take (unat (bodylen s)) (evbytes (bev_input ss))"
    and buf: "evbytes buf = drop (unat (bodylen s)) (evbytes (bev_input ss))"
    using consume_reliable assms(1) unfolding recv_env_def by blast
  let ?b2 = "requestScan (scanIo env) (b\<lparr>data := d\<rparr>)"
  obtain w where w: "cblist_call (listener env) (listeners b) ?b2 (world s) = (w, Ok ())"
    using cblist_call_ok assms(1) unfolding recv_env_def by (metis surjective_pairing)
  have ok: "block_ok k ?b2" using bc d by (simp add: block_ok_def)
  let ?t = "body_done (emit (IoNotify k (dbytes d)) (s\<lparr>session := Some (ss\<lparr>bev_input := buf\<rparr>),
    recv_blocks := (recv_blocks s)(k \<mapsto> ?b2), world := w\<rparr>))"
  have "recv_iter env ss s = (?t, Ok True)"
    using assms(3) Some b c w by (simp add: recv_iter_def recv_body_def Let_def)
  moreover have "pass_to s (drop (unat (bodylen s)) (in_bytes s)) None
      (RxBody (header s) (bodyblock s \<noteq> None) (take (unat (bodylen s)) (in_bytes s))) ?t"
    using assms Some k b d buf ok
    by (auto simp: body_done_def pass_to_def in_bytes_def tcp_wait_def rx_ok_def base_ok_def
        rx_frame_def known_def [abs_def] view_def blocks_ok_upd1
        blk_view_same [where f = blk_count] blk_view_Some)
  ultimately show ?thesis by blast
qed

text \<open>A header without the marker ends the connection.\<close>

definition framing_error :: "'w psc \<Rightarrow> 'w psc \<Rightarrow> bool" where
  "framing_error s t \<longleftrightarrow>
     session t = None \<and> timer_active t \<and> \<not> connected t \<and> message t = ''Framing error!'' \<and>
     sendbuf t = sendbuf s \<and> send_blocks t = send_blocks s \<and> known t = known s \<and> base_ok t"

lemma recv_head_error:
  assumes "recv_env env" and "session s = Some ss" and "\<not> have_head s" and "\<not> timer_active s"
    and "rx_ok s" and "base_ok s" and "8 \<le> length (in_bytes s)" and "\<not> hdr_marked (in_bytes s)"
  shows "\<exists>t. recv_iter env ss s = (t, Ok False) \<and> framing_error s t \<and> rx_ok t \<and> view t = view s \<and>
    drop (length (io s)) (io t) = [IoFree, IoTimerAdd 5, IoScan]"
proof -
  obtain hb buf where rm: "evbuffer_remove (api env) (bev_input ss) 8 = (hb, buf)"
    by (cases "evbuffer_remove (api env) (bev_input ss) 8")
  then have "hb = take 8 (in_bytes s)"
    using assms(1,2) ev_remove(1) [of "api env" "bev_input ss" 8]
    by (simp add: recv_env_def in_bytes_def)
  then have "recv_iter env ss s =
      (emit IoScan ((emit (IoTimerAdd 5) (emit IoFree (s\<lparr>session := Some (ss\<lparr>bev_input := buf\<rparr>)\<rparr>)))
         \<lparr>session := None, connected := False, timer_active := True, message := ''Framing error!''\<rparr>),
       Ok False)"
    using assms rm by (simp add: recv_iter_def recv_head_def rx_ok_def start_reconnect_def Let_def)
  then show ?thesis
    using assms by (simp add: rx_ok_def framing_error_def view_def base_ok_def known_def [abs_def])
qed

section \<open>The whole loop\<close>

definition loop_to :: "'w psc \<Rightarrow> rx_event list \<times> rx_wait \<times> byte list \<times> bool \<Rightarrow> 'w psc \<Rightarrow> bool" where
  "loop_to s run t \<longleftrightarrow>
     (case run of (es, h, rest, err) \<Rightarrow>
        view t = fold rx_apply es (view s) \<and> rx_ok t \<and>
        (if err then framing_error s t
         else session t \<noteq> None \<and> in_bytes t = rest \<and> tcp_wait t = h \<and> base_ok t \<and> rx_frame s t))"

lemma loop_to_pass:
  assumes "pass_to s rest h e t" and "loop_to t (es, h', rest', err) u"
  shows "loop_to s (e # es, h', rest', err) u"
  using assms rx_frame_trans [of s t u]
  by (auto simp: loop_to_def pass_to_def framing_error_def rx_frame_def)

lemma recv_loop_pass:
  assumes "recv_env env" and "session s = Some ss" and "expect s \<le> length (in_bytes s)"
    and "recv_iter env ss s = (t, Ok True)" and "length (in_bytes t) < length (in_bytes s)"
  shows "recv_loop env s = recv_loop env t"
  using assms by (subst recv_loop.simps) (simp add: in_length_eq Let_def)

lemma recv_loop_refines:
  assumes "recv_env env" and "session s \<noteq> None" and "\<not> timer_active s"
    and "rx_ok s" and "base_ok s"
  shows "\<exists>t. recv_loop env s = (t, Ok (\<not> snd (snd (snd (rx_run (known s) (tcp_wait s) (in_bytes s)))))) \<and>
    loop_to s (rx_run (known s) (tcp_wait s) (in_bytes s)) t"
  using assms(2-)
proof (induction "length (in_bytes s)" arbitrary: s rule: less_induct)
  case less
  obtain ss where ss: "session s = Some ss" using less.prems by auto
  have need: "expect s = rx_need (tcp_wait s)" "rx_wait_ok (tcp_wait s)"
    using rx_ok_need less.prems by auto
  have step: ?case if t: "recv_iter env ss s = (t, Ok True)" "pass_to s rest h e t"
    and long: "expect s \<le> length (in_bytes s)" "length rest < length (in_bytes s)"
    and run: "rx_run (known s) (tcp_wait s) (in_bytes s) =
      (case rx_run (known s) h rest of (es, h', r, err) \<Rightarrow> (e # es, h', r, err))"
  for t rest h e
  proof -
    have tt: "in_bytes t = rest" "session t \<noteq> None" "tcp_wait t = h" "known t = known s"
      "\<not> timer_active t" "rx_ok t" "base_ok t"
      using t(2) less.prems by (auto simp: pass_to_def rx_frame_def)
    obtain es h' r err where r: "rx_run (known s) h rest = (es, h', r, err)"
      by (metis prod_cases4)
    have "recv_loop env s = recv_loop env t"
      using recv_loop_pass [OF assms(1) ss long(1) t(1)] long(2) tt by simp
    then show ?thesis
      using less.hyps [of t] loop_to_pass [OF t(2)] tt long(2) run r by auto
  qed
  show ?case
  proof (cases "length (in_bytes s) < expect s")
    case True
    then show ?thesis
      using assms(1) ss need rx_run_short [of "in_bytes s" "tcp_wait s" "known s"] less.prems
      by (subst recv_loop.simps) (simp add: in_length_eq Let_def loop_to_def)
  next
    case long: False
    show ?thesis
    proof (cases "have_head s")
      case True
      have "0 < unat (bodylen s)" "expect s = unat (bodylen s)"
        using True less.prems by (auto simp: rx_ok_def unat_gt_0)
      moreover obtain t where "recv_iter env ss s = (t, Ok True)"
        "pass_to s (drop (unat (bodylen s)) (in_bytes s)) None
          (RxBody (header s) (bodyblock s \<noteq> None) (take (unat (bodylen s)) (in_bytes s))) t"
        using recv_body_pass [OF assms(1) ss True] less.prems long calculation by auto
      ultimately show ?thesis
        using long True by (intro step) (auto simp: tcp_wait_def rx_run.simps(2))
    next
      case False
      then have w: "tcp_wait s = None" "expect s = 8" using less.prems by (simp_all add: tcp_wait_def rx_ok_def)
      show ?thesis
      proof (cases "hdr_marked (in_bytes s)")
        case True
        then obtain t where "recv_iter env ss s = (t, Ok True)"
          "pass_to s (drop 8 (in_bytes s)) (rx_next (known s) (in_bytes s))
            (RxHead (hdr_id (in_bytes s)) (hdr_len (in_bytes s))) t"
          using recv_head_pass [OF assms(1) ss False] less.prems long w by auto
        then show ?thesis
          using long True w by (intro step) (auto simp: rx_run.simps(1))
      next
        case bad: False
        then obtain t where "recv_iter env ss s = (t, Ok False)"
          "framing_error s t" "rx_ok t" "view t = view s"
          using recv_head_error [OF assms(1) ss False] less.prems long w by auto
        then show ?thesis
          using assms(1) ss long w bad
          by (subst recv_loop.simps) (simp add: in_length_eq Let_def loop_to_def rx_run.simps(1))
      qed
    qed
  qed
qed

lemma recvdata_to:
  assumes "recv_env env" and "connected s" and "session s \<noteq> None" and "\<not> timer_active s"
    and "rx_ok s" and "base_ok s"
    and "rx_run (known s) (tcp_wait s) (in_bytes s) = (es, h, rest, err)"
  shows "\<exists>t. recvdata env s = (t, Ok ()) \<and> loop_to s (es, h, rest, err) t \<and>
    (\<not> err \<longrightarrow> (\<exists>ss. session t = Some ss \<and> rd_low ss = expect t \<and> length rest < rd_low ss \<and>
       rd_low ss < rd_high ss \<and> min_max_buf_size \<le> rd_high ss))"
proof -
  obtain t where t: "recv_loop env s = (t, Ok (\<not> err))" and to: "loop_to s (es, h, rest, err) t"
    using recv_loop_refines [OF assms(1,3-6)] assms(7) by auto
  show ?thesis
  proof (cases err)
    case True
    then show ?thesis using t to assms(2,3) by (auto simp: recvdata_def)
  next
    case False
    then obtain ss where ss: "session t = Some ss" using to by (auto simp: loop_to_def)
    let ?high = "if expect t \<ge> min_max_buf_size then expect t + 1 else min_max_buf_size"
    let ?u = "t\<lparr>session := Some (set_watermark (expect t) ?high ss)\<rparr>"
    have "length rest < rx_need h"
      using rx_run_stops [OF assms(7)] rx_ok_need [OF assms(5)] False by simp
    then have "length rest < expect t"
      using to False rx_ok_need [of t] by (simp add: loop_to_def)
    moreover have "loop_to s (es, h, rest, err) ?u"
      using to ss False
      by (simp add: loop_to_def in_bytes_def rx_frame_def set_watermark_def)
    moreover have "recvdata env s = (?u, Ok ())"
      using t ss assms(2,3) False by (simp add: recvdata_def)
    ultimately show ?thesis by (auto simp: set_watermark_def)
  qed
qed

section \<open>Segments\<close>

text \<open>
  A connection delivers the stream in segments. \<open>arrive\<close> appends a segment to the input
  queue; libevent then runs the read callback if the low watermark is reached. What comes
  after the connection was dropped is lost.
\<close>

fun tcp_feed ::
  "'w psc_env \<Rightarrow> (evbuffer \<Rightarrow> byte list \<Rightarrow> evbuffer) \<Rightarrow> byte list list \<Rightarrow> 'w psc \<Rightarrow>
   'w psc \<times> unit outcome" where
  "tcp_feed env arrive [] s = (s, Ok ())"
| "tcp_feed env arrive (bs # segs) s =
     (case session s of
        None \<Rightarrow> (s, Ok ())
      | Some ss \<Rightarrow>
          let ss1 = ss\<lparr>bev_input := arrive (bev_input ss) bs\<rparr>; s1 = s\<lparr>session := Some ss1\<rparr>
          in if evbuffer_get_length (api env) (bev_input ss1) < rd_low ss1
             then tcp_feed env arrive segs s1
             else case bev_datacb env s1 of
                 (s2, Ok _) \<Rightarrow> tcp_feed env arrive segs s2
               | (s2, r) \<Rightarrow> (s2, r))"

definition appends :: "(evbuffer \<Rightarrow> byte list \<Rightarrow> evbuffer) \<Rightarrow> bool" where
  "appends arrive \<longleftrightarrow> (\<forall>e bs. evbytes (arrive e bs) = evbytes e @ bs)"

text \<open>A connected driver that has used all input it can.\<close>

definition rx_ready :: "'w psc \<Rightarrow> bool" where
  "rx_ready s \<longleftrightarrow>
     connected s \<and> \<not> timer_active s \<and> rx_ok s \<and> base_ok s \<and> length (in_bytes s) < expect s \<and>
     (case session s of None \<Rightarrow> False | Some ss \<Rightarrow> rd_low ss = expect s)"

definition feed_to :: "'w psc \<Rightarrow> rx_event list \<times> rx_wait \<times> byte list \<times> bool \<Rightarrow> 'w psc \<Rightarrow> bool" where
  "feed_to s run t \<longleftrightarrow>
     (case run of (es, h, rest, err) \<Rightarrow>
        view t = fold rx_apply es (view s) \<and> known t = known s \<and>
        (if err then session t = None \<and> timer_active t \<and> \<not> connected t \<and> message t = ''Framing error!''
         else rx_ready t \<and> in_bytes t = rest \<and> tcp_wait t = h))"

lemma feed_dropped: "session s = None \<Longrightarrow> tcp_feed env arrive segs s = (s, Ok ())"
  by (cases segs) auto

lemma feed_short: "rx_ready s \<Longrightarrow> rx_run (known s) (tcp_wait s) (in_bytes s) = ([], tcp_wait s, in_bytes s, False)"
  using rx_ok_need [of s] by (simp add: rx_ready_def rx_run_short)

lemma feed_to_trans:
  assumes "feed_to s (es, h, rest, False) t"
    and "feed_to t (es', h', rest', err) u"
  shows "feed_to s (es @ es', h', rest', err) u"
  using assms by (simp add: feed_to_def)

lemma datacb_to:
  assumes "recv_env env" and "rx_ready s" and "session s = Some ss"
    and "evbytes e = in_bytes s @ bs" and "s1 = s\<lparr>session := Some (ss\<lparr>bev_input := e\<rparr>)\<rparr>"
  shows "\<exists>t. bev_datacb env s1 = (t, Ok ()) \<and>
    feed_to s (rx_run (known s) (tcp_wait s) (in_bytes s @ bs)) t"
proof -
  have s1: "connected s1" "session s1 \<noteq> None" "\<not> timer_active s1" "rx_ok s1" "base_ok s1"
    "known s1 = known s" "tcp_wait s1 = tcp_wait s" "in_bytes s1 = in_bytes s @ bs" "view s1 = view s"
    using assms(2-5) by (simp_all add: rx_ready_def in_bytes_def)
  obtain es h rest err where run: "rx_run (known s) (tcp_wait s) (in_bytes s @ bs) = (es, h, rest, err)"
    by (metis prod_cases4)
  then have "rx_run (known s1) (tcp_wait s1) (in_bytes s1) = (es, h, rest, err)"
    using s1 by simp
  from recvdata_to [OF assms(1) s1(1-5) this] obtain t where t: "recvdata env s1 = (t, Ok ())"
    "loop_to s1 (es, h, rest, err) t"
    "\<not> err \<longrightarrow> (\<exists>ss. session t = Some ss \<and> rd_low ss = expect t \<and> length rest < rd_low ss)"
    by blast
  moreover have "bev_datacb env s1 = (t, Ok ())"
    using t s1 by (simp add: bev_datacb_def logged_def)
  moreover have "feed_to s (es, h, rest, err) t"
    using t(2,3) s1 by (auto simp: feed_to_def loop_to_def framing_error_def rx_frame_def rx_ready_def)
  ultimately show ?thesis unfolding run by blast
qed

lemma tcp_feed_refines:
  assumes "recv_env env" and "appends arrive" and "rx_ready s"
  shows "\<exists>t. tcp_feed env arrive segs s = (t, Ok ()) \<and>
    feed_to s (rx_run (known s) (tcp_wait s) (in_bytes s @ concat segs)) t"
  using assms(3)
proof (induction segs arbitrary: s)
  case Nil
  then show ?case using feed_short [OF Nil] by (simp add: feed_to_def)
next
  case (Cons bs segs)
  obtain ss where ss: "session s = Some ss" "rd_low ss = expect s"
    using Cons.prems by (auto simp: rx_ready_def split: option.splits)
  let ?e = "arrive (bev_input ss) bs"
  define s1 where "s1 = s\<lparr>session := Some (ss\<lparr>bev_input := ?e\<rparr>)\<rparr>"
  have e: "evbytes ?e = in_bytes s @ bs"
    using assms(2) ss by (simp add: appends_def in_bytes_def)
  then have len: "evbuffer_get_length (api env) ?e = length (in_bytes s @ bs)"
    using assms(1) by (simp add: recv_env_def ev_laws)
  show ?case
  proof (cases "length (in_bytes s @ bs) < expect s")
    case True
    then have feed: "tcp_feed env arrive (bs # segs) s = tcp_feed env arrive segs s1"
      using ss len by (simp add: s1_def Let_def)
    have "rx_ready s1" "known s1 = known s" "tcp_wait s1 = tcp_wait s" "in_bytes s1 = in_bytes s @ bs"
      "view s1 = view s"
      using Cons.prems ss e True by (simp_all add: s1_def rx_ready_def in_bytes_def)
    then show ?thesis using Cons.IH [of s1] feed by (simp add: feed_to_def)
  next
    case False
    obtain t where t: "bev_datacb env s1 = (t, Ok ())"
      "feed_to s (rx_run (known s) (tcp_wait s) (in_bytes s @ bs)) t"
      using datacb_to [OF assms(1) Cons.prems ss(1) e s1_def] by blast
    have feed: "tcp_feed env arrive (bs # segs) s = tcp_feed env arrive segs t"
      using ss len False t(1) by (simp add: Let_def flip: s1_def)
    obtain es h rest err where run: "rx_run (known s) (tcp_wait s) (in_bytes s @ bs) = (es, h, rest, err)"
      by (metis prod_cases4)
    have "rx_wait_ok (tcp_wait s)"
      using Cons.prems rx_ok_need by (auto simp: rx_ready_def)
    note app = rx_run_append [OF run this, of "concat segs"]
    show ?thesis
    proof (cases err)
      case True
      then show ?thesis
        using t run app feed feed_dropped [of t] by (auto simp: feed_to_def)
    next
      case False
      then have rt: "rx_ready t" "in_bytes t = rest" "tcp_wait t = h" "known t = known s"
        using t(2) run by (simp_all add: feed_to_def)
      obtain es' h' rest' err' where run': "rx_run (known t) (tcp_wait t) (in_bytes t @ concat segs) = (es', h', rest', err')"
        by (metis prod_cases4)
      then show ?thesis
        using Cons.IH [OF rt(1)] feed app False rt t(2) run feed_to_trans by auto
    qed
  qed
qed

section \<open>Properties\<close>

text \<open>A driver as the examples use it: message 7 has a listener, nothing is in transit.\<close>

definition demo_bev :: bev where
  "demo_bev = \<lparr>bev_input = \<lparr>chains = [], room = 0\<rparr>, bev_output = \<lparr>chains = [], room = 0\<rparr>,
     rd_low = 8, rd_high = min_max_buf_size, enabled = True\<rparr>"

definition demo_psc :: "unit psc" where
  "demo_psc = psc_base.extend ((psc_base_new ''psc'' ''localhost'' 3000)
       \<lparr>connected := True, recv_blocks := [7 \<mapsto> block_new 7]\<rparr>)
     \<lparr>mask = 0, session = Some demo_bev, timer_active = False, have_head = False, header = 0,
      bodylen = 0, bodyblock = None, expect = 8, sendbuf = \<lparr>chains = [], room = 0\<rparr>, ticks = 0,
      world = ()\<rparr>"

definition demo_env :: "unit psc_env" where
  "demo_env = \<lparr>api = chunk_api, PSCMaxSendBuffer = 1024, PSCInactivityTime = 5, scanIo = (\<lambda>b. 0),
     listener = (\<lambda>c b w. (w, Ok ())), getCurrent = (\<lambda>n. None), dbProcess = (\<lambda>r w. [])\<rparr>"

definition demo_arrive :: "evbuffer \<Rightarrow> byte list \<Rightarrow> evbuffer" where
  "demo_arrive e bs = e\<lparr>chains := chains e @ [bs]\<rparr>"

lemma demo_env_recv: "recv_env demo_env"
  by (simp add: recv_env_def demo_env_def chunk_api_lawful chunk_api_reliable never_crashes_def)

lemma demo_psc_sel [simp]:
  "connected demo_psc" "session demo_psc = Some demo_bev" "\<not> timer_active demo_psc"
  "\<not> have_head demo_psc" "expect demo_psc = 8" "bodyblock demo_psc = None"
  "recv_blocks demo_psc = [7 \<mapsto> block_new 7]" "send_blocks demo_psc = Map.empty" "io demo_psc = []"
  "ukncount demo_psc = 0" "sendbuf demo_psc = \<lparr>chains = [], room = 0\<rparr>"
  by (simp_all add: demo_psc_def psc_base.defs psc_base_new_def)

lemma demo_psc_ready: "rx_ready demo_psc" "tcp_wait demo_psc = None" "in_bytes demo_psc = []"
    "known demo_psc = (\<lambda>k. k = 7)"
  by (simp_all add: rx_ready_def rx_ok_def base_ok_def in_bytes_def demo_bev_def evbytes_def
      tcp_wait_def blocks_ok_upd1 known_def [abs_def])

lemma demo_arrive_appends: "appends demo_arrive"
  by (simp add: appends_def demo_arrive_def evbytes_def)

lemma demo_frame: "frame 7 [5, 6] = [80, 83, 0, 7, 0, 0, 0, 2, 5, 6]"
  by (simp add: frame_def enc_header_def be16_def be32_def)

lemma demo_run:
  "rx_run (\<lambda>k. k = 7) None (frame 7 [5, 6] @ [80]) =
   ([RxHead 7 2, RxBody 7 True [5, 6]], None, [80], False)"
  using rx_run_frame [of "[5, 6]" "\<lambda>k. k = 7" 7 "[80]"]
  by (simp add: rx_run_short msg_events_def)

definition demo_input :: "byte list \<Rightarrow> unit psc" where
  "demo_input bs =
     demo_psc\<lparr>session := Some (demo_bev\<lparr>bev_input := \<lparr>chains = [bs], room = 0\<rparr>\<rparr>)\<rparr>"

lemma demo_input_sel:
  "rx_ok (demo_input bs)" "base_ok (demo_input bs)" "connected (demo_input bs)"
  "session (demo_input bs) \<noteq> None" "\<not> timer_active (demo_input bs)"
  "tcp_wait (demo_input bs) = None" "in_bytes (demo_input bs) = bs" "known (demo_input bs) = (\<lambda>k. k = 7)"
  using demo_psc_ready by (simp_all add: demo_input_def rx_ready_def in_bytes_def evbytes_def)

text \<open>
  C2: the receive callback implements the protocol decoder. From any state of the decoder
  and any input it returns, has delivered exactly the messages that the abstract decoder
  finds in the input (counters, cached bodies, notifications of listeners), and keeps the
  rest of the input; a framing error closes the connection and schedules the reconnect.
\<close>

theorem recvdata_refines:
  assumes "recv_env env" and "connected s" and "session s \<noteq> None" and "\<not> timer_active s"
    and "rx_ok s" and "base_ok s"
  shows "\<exists>t. recvdata env s = (t, Ok ()) \<and>
    (case rx_run (known s) (tcp_wait s) (in_bytes s) of (es, h, rest, err) \<Rightarrow>
       view t = fold rx_apply es (view s) \<and> rx_ok t \<and> base_ok t \<and>
       (if err
        then session t = None \<and> timer_active t \<and> \<not> connected t \<and> message t = ''Framing error!''
        else connected t \<and> session t \<noteq> None \<and> in_bytes t = rest \<and> tcp_wait t = h))"
proof -
  obtain es h rest err where run: "rx_run (known s) (tcp_wait s) (in_bytes s) = (es, h, rest, err)"
    by (metis prod_cases4)
  obtain t where "recvdata env s = (t, Ok ())" "loop_to s (es, h, rest, err) t"
    using recvdata_to [OF assms run] by blast
  then show ?thesis
    using assms(2) by (auto simp: run loop_to_def framing_error_def rx_frame_def split: if_splits)
qed

theorem recvdata_refines_witness:
  "\<exists>t. recvdata demo_env (demo_input (frame 7 [5, 6] @ [80])) = (t, Ok ()) \<and>
     notified (io t) = [(7, [5, 6])] \<and> in_bytes t = [80]"
proof -
  let ?s = "demo_input (frame 7 [5, 6] @ [80])"
  obtain t where t: "recvdata demo_env ?s = (t, Ok ())"
    "view t = fold rx_apply [RxHead 7 2, RxBody 7 True [5, 6]] (view ?s)" "in_bytes t = [80]"
    using recvdata_refines [OF demo_env_recv, of ?s] by (auto simp: demo_input_sel demo_run)
  have "v_log (view t) = [(7, [5, 6])]"
    unfolding t(2) rx_apply_log by (simp add: view_def demo_input_def)
  then show ?thesis using t by (simp add: view_def)
qed

text \<open>
  C10: the driver does not depend on how TCP cut the stream into segments, nor on the low
  watermark holding back the callback: however the bytes arrive, the driver ends up where
  one decoding of the whole stream leads, and ready for more unless a framing error
  dropped the connection.
\<close>

theorem tcp_segmentation:
  assumes "recv_env env" and "appends arrive" and "rx_ready s"
  shows "\<exists>t. tcp_feed env arrive segs s = (t, Ok ()) \<and>
    (case rx_run (known s) (tcp_wait s) (in_bytes s @ concat segs) of (es, h, rest, err) \<Rightarrow>
       view t = fold rx_apply es (view s) \<and>
       (if err then session t = None \<and> timer_active t \<and> \<not> connected t
        else rx_ready t \<and> in_bytes t = rest \<and> tcp_wait t = h))"
proof -
  obtain t where t: "tcp_feed env arrive segs s = (t, Ok ())"
      "feed_to s (rx_run (known s) (tcp_wait s) (in_bytes s @ concat segs)) t"
    using tcp_feed_refines [OF assms] by blast
  obtain es h rest err where
    run: "rx_run (known s) (tcp_wait s) (in_bytes s @ concat segs) = (es, h, rest, err)"
    by (metis prod_cases4)
  show ?thesis using t by (auto simp: run feed_to_def split: if_splits)
qed

theorem tcp_segmentation_witness:
  "\<exists>t. tcp_feed demo_env demo_arrive [[80, 83, 0], [7, 0, 0, 0, 2, 5], [6, 80]] demo_psc = (t, Ok ()) \<and>
     notified (io t) = [(7, [5, 6])] \<and> in_bytes t = [80]"
proof -
  let ?segs = "[[80, 83, 0], [7, 0, 0, 0, 2, 5], [6, 80]] :: byte list list"
  have c: "concat ?segs = frame 7 [5, 6] @ [80]" by (simp add: demo_frame)
  obtain t where t: "tcp_feed demo_env demo_arrive ?segs demo_psc = (t, Ok ())"
    "view t = fold rx_apply [RxHead 7 2, RxBody 7 True [5, 6]] (view demo_psc)" "in_bytes t = [80]"
    using tcp_segmentation [OF demo_env_recv demo_arrive_appends demo_psc_ready(1), of ?segs]
    unfolding c demo_psc_ready append_Nil demo_run by auto
  have "v_log (view t) = [(7, [5, 6])]"
    unfolding t(2) rx_apply_log by (simp add: view_def)
  then show ?thesis using t by (simp add: view_def)
qed

text \<open>
  the read watermarks can never stall a connection. After the callback the low
  watermark is what the decoder needs next, more than what is left in the input, and below
  the high watermark, at which libevent would stop reading. A long message moves the high
  watermark beyond its length.
\<close>

theorem recvdata_watermarks:
  assumes "recv_env env" and "connected s" and "session s \<noteq> None" and "\<not> timer_active s"
    and "rx_ok s" and "base_ok s"
    and "rx_run (known s) (tcp_wait s) (in_bytes s) = (es, h, rest, False)"
  shows "\<exists>t ss. recvdata env s = (t, Ok ()) \<and> session t = Some ss \<and>
    rd_low ss = rx_need h \<and> length (in_bytes t) < rd_low ss \<and> rd_low ss < rd_high ss \<and>
    min_max_buf_size \<le> rd_high ss"
proof -
  obtain t ss where t: "recvdata env s = (t, Ok ())" "loop_to s (es, h, rest, False) t"
    "session t = Some ss" "rd_low ss = expect t" "length rest < rd_low ss" "rd_low ss < rd_high ss"
    "min_max_buf_size \<le> rd_high ss"
    using recvdata_to [OF assms] by blast
  then show ?thesis using rx_ok_need [of t] by (simp add: loop_to_def)
qed

theorem recvdata_watermarks_witness:
  "\<exists>t ss. recvdata demo_env (demo_input (frame 7 [5, 6] @ [80])) = (t, Ok ()) \<and>
     session t = Some ss \<and> rd_low ss = 8 \<and> 8 < rd_high ss"
  using recvdata_watermarks [OF demo_env_recv demo_input_sel(3,4,5,1,2),
      unfolded demo_input_sel, OF demo_run] by auto

end
