(* ===== verification/Psc_Transport.thy ===== *)
theory Psc_Transport
  imports Psc_Base
begin

text \<open>
  The sending interface of \<open>PSCBase\<close> (device.h: the pure virtual \<open>queueSend\<close> and
  \<open>flushSend\<close>), which both drivers implement and device supports call: messages are queued
  one by one, and a flush hands the queue over for transmission.

  A driver promises that an accepted message is one more frame at the end of the queue, that
  a refused one changes nothing, and that a flush moves the queue to the wire in order.
  \<open>pending\<close> and \<open>wire\<close> are the bytes of the queue and of the output.
\<close>

section \<open>Clients\<close>

text \<open>A client queues messages and is told of each whether it was accepted.\<close>

fun queue_all ::
  "(u16 \<Rightarrow> byte list \<Rightarrow> 's \<Rightarrow> 's \<times> unit outcome) \<Rightarrow> (u16 \<times> byte list) list \<Rightarrow> 's \<Rightarrow>
   's \<times> (u16 \<times> byte list) list" where
  "queue_all queue [] s = (s, [])"
| "queue_all queue ((k, bs) # ms) s =
     (case queue k bs s of
        (s1, Ok _) \<Rightarrow> (case queue_all queue ms s1 of (s2, acc) \<Rightarrow> (s2, (k, bs) # acc))
      | (s1, _) \<Rightarrow> queue_all queue ms s1)"

text \<open>The length field of a header has 32 bits, and header and body together are less.\<close>

definition msg_fits :: "byte list \<Rightarrow> bool" where
  "msg_fits bs \<longleftrightarrow> length bs + 8 < 2 ^ 32"

lemma unat_len: "msg_fits bs \<Longrightarrow> unat (of_nat (length bs) :: u32) = length bs"
  by (rule unat_of_length) (simp add: msg_fits_def)

lemma unat_len8: "msg_fits bs \<Longrightarrow> unat (8 + of_nat (length bs) :: u32) = 8 + length bs"
proof -
  assume "msg_fits bs"
  then have "unat (of_nat (8 + length bs) :: u32) = 8 + length bs"
    unfolding unat_of_nat by (simp add: msg_fits_def)
  then show ?thesis by simp
qed

section \<open>The interface\<close>

locale psc_transport =
  fixes valid :: "'s \<Rightarrow> bool"
    and pending :: "'s \<Rightarrow> byte list"
    and wire :: "'s \<Rightarrow> byte list"
    and queue :: "u16 \<Rightarrow> byte list \<Rightarrow> 's \<Rightarrow> 's \<times> unit outcome"
    and flush :: "'s \<Rightarrow> 's \<times> unit outcome"
  assumes queue_ok: "valid s \<Longrightarrow> msg_fits bs \<Longrightarrow> queue k bs s = (t, Ok ()) \<Longrightarrow>
      valid t \<and> pending t = pending s @ frame k bs \<and> wire t = wire s"
    and queue_refused: "valid s \<Longrightarrow> msg_fits bs \<Longrightarrow> queue k bs s = (t, Throw e) \<Longrightarrow>
      valid t \<and> pending t = pending s \<and> wire t = wire s"
    and queue_safe: "valid s \<Longrightarrow> msg_fits bs \<Longrightarrow> \<not> crashed (snd (queue k bs s))"
    and flush_ok: "valid s \<Longrightarrow> flush s = (t, Ok ()) \<Longrightarrow>
      valid t \<and> pending t = [] \<and> wire t = wire s @ pending s"
begin

lemma queue_all_frames:
  assumes "valid s" and "\<forall>m \<in> set ms. msg_fits (snd m)" and "queue_all queue ms s = (t, acc)"
  shows "valid t \<and> pending t = pending s @ frames acc \<and> wire t = wire s \<and> set acc \<subseteq> set ms"
  using assms
proof (induction ms arbitrary: s acc)
  case Nil
  then show ?case by simp
next
  case (Cons m ms)
  obtain k bs where m: "m = (k, bs)" by (cases m)
  have fits: "msg_fits bs" using Cons.prems(2) m by simp
  obtain s1 r where q: "queue k bs s = (s1, r)" by (cases "queue k bs s")
  show ?case
  proof (cases r)
    case (Ok u)
    then have "valid s1 \<and> pending s1 = pending s @ frame k bs \<and> wire s1 = wire s"
      using queue_ok [OF Cons.prems(1) fits] q by simp
    then show ?thesis
      using Cons.IH [of s1] Cons.prems m q Ok by (auto split: prod.splits)
  next
    case (Throw e)
    then have "valid s1 \<and> pending s1 = pending s \<and> wire s1 = wire s"
      using queue_refused [OF Cons.prems(1) fits] q by simp
    then show ?thesis
      using Cons.IH [of s1 acc] Cons.prems m q Throw by auto
  next
    case (Crash c)
    then show ?thesis using queue_safe [OF Cons.prems(1) fits, of k] q by simp
  qed
qed

text \<open>What a flush puts on an idle wire is decoded to exactly the accepted messages.\<close>

lemma sent_messages:
  assumes "valid s" and "\<forall>m \<in> set ms. msg_fits (snd m)" and "pending s = []"
    and "queue_all queue ms s = (t, acc)" and "flush t = (u, Ok ())"
  shows "valid u \<and> pending u = [] \<and> wire u = wire s @ frames acc \<and> set acc \<subseteq> set ms"
  using queue_all_frames [OF assms(1,2,4)] flush_ok [of t u] assms(3,5) by simp

lemma sent_decoded:
  assumes "valid s" and "\<forall>m \<in> set ms. msg_fits (snd m)" and "pending s = []" and "wire s = []"
    and "queue_all queue ms s = (t, acc)" and "flush t = (u, Ok ())"
  shows "rx_run kn None (wire u) = (concat (map (msg_events kn) acc), None, [], False)"
proof -
  have u: "wire u = frames acc" "set acc \<subseteq> set ms"
    using sent_messages [OF assms(1-3,5,6)] assms(4) by auto
  then have "\<forall>m \<in> set acc. length (snd m) < 2 ^ 32"
    using assms(2) unfolding msg_fits_def by fastforce
  from rx_run_frames [OF this, of kn "[]"] show ?thesis
    using u by (simp add: rx_run_short)
qed

end

text \<open>
  The interface as device supports use it: the state is a \<open>PSCBase\<close>, and a message may be
  queued for a block that exists already (\<open>queueSend(Block*, ...)\<close>). A block may be changed
  at any time: what has been queued is not affected.
\<close>

locale psc_driver = psc_transport valid pending wire queue flush
  for valid :: "'a psc_base_scheme \<Rightarrow> bool" and pending wire queue flush +
  fixes queue_blk :: "u16 \<Rightarrow> byte list \<Rightarrow> 'a psc_base_scheme \<Rightarrow> 'a psc_base_scheme \<times> unit outcome"
  assumes valid_connected: "valid s \<Longrightarrow> connected s"
    and queue_blk_eq: "send_blocks s k \<noteq> None \<Longrightarrow> queue_blk k bs s = queue k bs s"
    and cache_kept: "valid s \<Longrightarrow> (\<And>b. block_ok k b \<Longrightarrow> block_ok k (f b)) \<Longrightarrow>
      valid (upd_send k f s) \<and> pending (upd_send k f s) = pending s \<and> wire (upd_send k f s) = wire s"
begin

lemma queue_blk_cases:
  assumes "valid s" and "msg_fits bs" and "send_blocks s k \<noteq> None"
  shows "(\<exists>t. queue_blk k bs s = (t, Ok ()) \<and> valid t \<and> pending t = pending s @ frame k bs \<and> wire t = wire s) \<or>
    (\<exists>t e. queue_blk k bs s = (t, Throw e) \<and> valid t \<and> pending t = pending s \<and> wire t = wire s)"
proof -
  obtain t r where q: "queue k bs s = (t, r)" by (cases "queue k bs s")
  then show ?thesis
    using queue_ok [OF assms(1,2), of k t] queue_refused [OF assms(1,2), of k t]
      queue_safe [OF assms(1,2), of k] queue_blk_eq [OF assms(3), of bs]
    by (cases r) auto
qed

end
text \<open>
  Settings: the cached content of a block is changed step by step and then sent as a whole
  (\<open>queueSend(Block*, const dbuffer&)\<close>).
\<close>

locale psc_settings = psc_driver valid pending wire queue flush queue_blk
  for valid :: "'a psc_base_scheme \<Rightarrow> bool" and pending wire queue flush queue_blk +
  fixes queue_buf :: "u16 \<Rightarrow> dbuffer \<Rightarrow> 'a psc_base_scheme \<Rightarrow> 'a psc_base_scheme \<times> unit outcome"
  assumes valid_base: "valid s \<Longrightarrow> base_ok s"
    and queue_buf_cases: "valid s \<Longrightarrow> send_blocks s k = Some b \<Longrightarrow> msg_fits (dbytes (data b)) \<Longrightarrow>
      (\<exists>t. queue_buf k (data b) s = (t, Ok ()) \<and> valid t \<and> wire t = wire s \<and>
         pending t = pending s @ frame k (dbytes (data b))) \<or>
      (\<exists>e. queue_buf k (data b) s = (s, Throw e))"

end
