(* ===== verification/Psc_Tcp_Send.thy ===== *)
theory Psc_Tcp_Send
  imports Psc_Tcp Psc_Transport
begin

text \<open>
  The send side of the TCP driver: the queue \<open>sendbuf\<close>, the header in front of every body,
  the refusal of a second copy of a block, and the flush into the output of the
  bufferevent. A connected driver implements the interface \<open>psc_transport\<close>.
\<close>

section \<open>Queueing\<close>

definition tcp_pending :: "'w psc \<Rightarrow> byte list" where
  "tcp_pending s = evbytes (sendbuf s)"

definition tcp_wire :: "'w psc \<Rightarrow> byte list" where
  "tcp_wire s = (case session s of None \<Rightarrow> [] | Some ss \<Rightarrow> evbytes (bev_output ss))"

definition tcp_sender :: "'w psc_env \<Rightarrow> 'w psc \<Rightarrow> bool" where
  "tcp_sender env s \<longleftrightarrow>
     evbuffer_lawful (api env) \<and> connected s \<and> session s \<noteq> None \<and> base_ok s"

text \<open>The outcomes of \<open>queueHeader\<close> for a connected driver.\<close>

lemma queueHeader_cases:
  assumes "evbuffer_lawful (api env)" and "connected s" and "send_blocks s k = Some b" and "code b = k"
    and "8 \<le> unat (8 + n)"
  shows "(\<exists>e. queueHeader env k n s = (s, Throw e)) \<or>
    (\<exists>sb. queueHeader env k n s = (s\<lparr>sendbuf := sb\<rparr>, Ok ()) \<and> \<not> queued b \<and>
       evbytes sb = evbytes (sendbuf s) @ enc_header k n \<and> unat (8 + n) \<le> room sb + 8)"
proof -
  let ?full = "PSCMaxSendBuffer env > 0 \<and>
    evbuffer_get_length (api env) (sendbuf s) \<ge> nat (PSCMaxSendBuffer env)"
  show ?thesis
  proof (cases "queued b \<or> ?full \<or> evbuffer_expand (api env) (sendbuf s) (unat (8 + n)) = None")
    case True
    then show ?thesis using assms(2,3) by (auto simp: queueHeader_def)
  next
    case False
    then obtain sb where sb: "evbuffer_expand (api env) (sendbuf s) (unat (8 + n)) = Some sb" by auto
    then have e: "evbytes sb = evbytes (sendbuf s)" "unat (8 + n) \<le> room sb"
      using ev_expand [OF assms(1)] by auto
    then obtain sb' where a: "evbuffer_add (api env) sb (enc_header k n) = Some sb'"
      using ev_add_room [OF assms(1), of "enc_header k n" sb] assms(5) by auto
    have "queueHeader env k n s = (s\<lparr>sendbuf := sb'\<rparr>, Ok ())"
      using False sb a assms(2-4) by (auto simp: queueHeader_def)
    then show ?thesis
      using False e ev_add [OF assms(1) a] by auto
  qed
qed

lemma upd_send_sel [simp]:
  "session (upd_send k f s) = session s" "sendbuf (upd_send k f s) = sendbuf s"
  "timer_active (upd_send k f s) = timer_active s"
  by (simp_all add: upd_send_def)

lemma getSend_sel [simp]:
  "session (getSend k s) = session s" "sendbuf (getSend k s) = sendbuf s"
  "timer_active (getSend k s) = timer_active s"
  by (simp_all add: getSend_def split: option.splits)

lemma base_ok_sendbuf [simp]: "base_ok (s\<lparr>sendbuf := sb\<rparr>) = base_ok s"
  by (simp add: base_ok_def)

lemma getSend_at:
  assumes "base_ok s"
  obtains b where "send_blocks (getSend k s) k = Some b" and "code b = k"
  using getSend_block [of k s] blocks_okD base_ok_getSend [OF assms, of k]
  unfolding base_ok_def by blast

text \<open>A message is accepted as a whole, or the driver stays as it was.\<close>

lemma queueSend_raw_cases:
  assumes "tcp_sender env s" and "send_blocks s k = Some b" and "msg_fits bs"
  shows "(\<exists>e. queueSend_raw env k bs s = (s, Throw e)) \<or>
    (\<exists>t. queueSend_raw env k bs s = (t, Ok ()) \<and> \<not> queued b \<and> tcp_sender env t \<and>
       tcp_pending t = tcp_pending s @ frame k bs \<and> tcp_wire t = tcp_wire s \<and>
       send_blocks t = (send_blocks s)(k \<mapsto> mark_queued b))"
proof -
  let ?n = "of_nat (length bs) :: u32"
  have s: "evbuffer_lawful (api env)" "connected s" "base_ok s" "session s \<noteq> None"
    using assms(1) by (simp_all add: tcp_sender_def)
  have b: "code b = k"
    using s(3) assms(2) blocks_okD [of "send_blocks s"] by (simp add: base_ok_def)
  have u: "unat (8 + ?n) = 8 + length bs" by (rule unat_len8 [OF assms(3)])
  have "8 \<le> unat (8 + ?n)" using u by simp
  from queueHeader_cases [OF s(1,2) assms(2) b this] show ?thesis
  proof (elim disjE exE conjE)
    fix e assume "queueHeader env k ?n s = (s, Throw e)"
    then show ?thesis by (simp add: queueSend_raw_def)
  next
    fix sb
    assume h: "queueHeader env k ?n s = (s\<lparr>sendbuf := sb\<rparr>, Ok ())" and nq: "\<not> queued b"
      and sb: "evbytes sb = evbytes (sendbuf s) @ enc_header k ?n" and "unat (8 + ?n) \<le> room sb + 8"
    then obtain sb' where a: "evbuffer_add (api env) sb bs = Some sb'"
      using ev_add_room [OF s(1), of bs sb] u by auto
    let ?t = "upd_send k mark_queued (s\<lparr>sendbuf := sb'\<rparr>)"
    have "queueSend_raw env k bs s = (?t, Ok ())"
      using h a by (simp add: queueSend_raw_def)
    moreover have "tcp_pending ?t = tcp_pending s @ frame k bs"
      using sb ev_add(1) [OF s(1) a] by (simp add: tcp_pending_def frame_def)
    moreover have "base_ok ?t" using s(3) by (intro base_ok_upd_send) simp_all
    ultimately show ?thesis
      using s nq assms(2) by (simp add: tcp_sender_def tcp_wire_def upd_send_Some)
  qed
qed

lemma queueSend_id_cases:
  assumes "tcp_sender env s" and "msg_fits bs"
  shows "(\<exists>t e. queueSend_id env k bs s = (t, Throw e) \<and> t = getSend k s) \<or>
    (\<exists>t. queueSend_id env k bs s = (t, Ok ()) \<and> tcp_sender env t \<and>
       tcp_pending t = tcp_pending s @ frame k bs \<and> tcp_wire t = tcp_wire s)"
proof -
  have ok: "base_ok s" "tcp_sender env (getSend k s)"
    using assms(1) by (simp_all add: tcp_sender_def base_ok_getSend)
  obtain b where "send_blocks (getSend k s) k = Some b" by (rule getSend_at [OF ok(1)])
  from queueSend_raw_cases [OF ok(2) this assms(2)] show ?thesis
    by (auto simp: queueSend_id_def tcp_pending_def tcp_wire_def)
qed

section \<open>Flushing\<close>

lemma flushSend_ok:
  assumes "tcp_sender env s" and "flushSend env s = (t, Ok ())"
  shows "tcp_sender env t" and "tcp_pending t = []" and "tcp_wire t = tcp_wire s @ tcp_pending s"
    and "send_blocks t = clear_queued (send_blocks s)"
proof -
  obtain ss where ss: "session s = Some ss" using assms(1) by (auto simp: tcp_sender_def)
  then obtain tx sb where a: "evbuffer_add_buffer (api env) (bev_output ss) (sendbuf s) = Some (tx, sb)"
    and t: "t = s\<lparr>session := Some (ss\<lparr>bev_output := tx\<rparr>), sendbuf := sb,
                 send_blocks := clear_queued (send_blocks s)\<rparr>"
    using assms by (auto simp: tcp_sender_def flushSend_def Let_def split: if_splits option.splits)
  have "evbytes tx = evbytes (bev_output ss) @ evbytes (sendbuf s)" "evbytes sb = []"
    using ev_add_buffer [OF _ a] assms(1) by (auto simp: tcp_sender_def)
  then show "tcp_sender env t" and "tcp_pending t = []" and "tcp_wire t = tcp_wire s @ tcp_pending s"
    and "send_blocks t = clear_queued (send_blocks s)"
    using assms(1) t ss by (simp_all add: tcp_sender_def tcp_pending_def tcp_wire_def base_ok_def)
qed

interpretation tcp: psc_transport "tcp_sender env" tcp_pending tcp_wire "queueSend_id env" "flushSend env"
  for env
proof unfold_locales
  fix s t :: "'a psc" and bs k
  assume a: "tcp_sender env s" "msg_fits bs"
  show "tcp_sender env t \<and> tcp_pending t = tcp_pending s @ frame k bs \<and> tcp_wire t = tcp_wire s"
    if "queueSend_id env k bs s = (t, Ok ())"
    using queueSend_id_cases [OF a, of k] that by auto
  show "tcp_sender env t \<and> tcp_pending t = tcp_pending s \<and> tcp_wire t = tcp_wire s"
    if "queueSend_id env k bs s = (t, Throw e)" for e
    using queueSend_id_cases [OF a, of k] that a(1)
    by (auto simp: tcp_sender_def tcp_pending_def tcp_wire_def base_ok_getSend)
  show "\<not> crashed (snd (queueSend_id env k bs s))"
    using queueSend_id_cases [OF a, of k] by auto
next
  fix s t :: "'a psc"
  assume "tcp_sender env s" "flushSend env s = (t, Ok ())"
  then show "tcp_sender env t \<and> tcp_pending t = [] \<and> tcp_wire t = tcp_wire s @ tcp_pending s"
    using flushSend_ok by blast
qed

lemma getSend_id: "send_blocks s k \<noteq> None \<Longrightarrow> getSend k s = s"
  by (auto simp: getSend_def)

interpretation tcp_drv: psc_driver "tcp_sender env" tcp_pending tcp_wire "queueSend_id env" "flushSend env"
    "queueSend_raw env"
  for env
proof unfold_locales
  fix s :: "'a psc" and k f
  assume "tcp_sender env s" and f: "\<And>b. block_ok k b \<Longrightarrow> block_ok k (f b)"
  then show "tcp_sender env (upd_send k f s) \<and> tcp_pending (upd_send k f s) = tcp_pending s \<and>
      tcp_wire (upd_send k f s) = tcp_wire s"
    using base_ok_upd_send [of s k f] by (simp add: tcp_sender_def tcp_pending_def tcp_wire_def upd_send_def)
qed (simp_all add: tcp_sender_def queueSend_id_def getSend_id)

section \<open>Sending the cached content of a block\<close>

lemma queueSend_buf_cases:
  assumes "tcp_sender env s" and "send_blocks s k = Some b" and "dbuffer_ok d" and "msg_fits (dbytes d)"
  shows "(\<exists>e. queueSend_buf env k d s = (s, Throw e)) \<or>
    (\<exists>t. queueSend_buf env k d s = (t, Ok ()) \<and> \<not> queued b \<and> tcp_sender env t \<and>
       tcp_pending t = tcp_pending s @ frame k (dbytes d) \<and> tcp_wire t = tcp_wire s \<and>
       send_blocks t = (send_blocks s)(k \<mapsto> mark_queued b))"
proof -
  let ?n = "of_nat (length (dbytes d)) :: u32"
  have s: "evbuffer_lawful (api env)" "connected s" "base_ok s" "session s \<noteq> None"
    using assms(1) by (simp_all add: tcp_sender_def)
  have b: "code b = k"
    using s(3) assms(2) blocks_okD [of "send_blocks s"] by (simp add: base_ok_def)
  have n: "of_nat (dbuffer_size (api env) d) = ?n" using dbuffer_size_eq [OF s(1)] by simp
  have u: "unat (8 + ?n) = 8 + length (dbytes d)" by (rule unat_len8 [OF assms(4)])
  have "8 \<le> unat (8 + ?n)" using u by simp
  from queueHeader_cases [OF s(1,2) assms(2) b this] show ?thesis
  proof (elim disjE exE conjE)
    fix e assume "queueHeader env k ?n s = (s, Throw e)"
    then show ?thesis using n by (simp add: queueSend_buf_def)
  next
    fix sb
    assume h: "queueHeader env k ?n s = (s\<lparr>sendbuf := sb\<rparr>, Ok ())" and nq: "\<not> queued b"
      and sb: "evbytes sb = evbytes (sendbuf s) @ enc_header k ?n" and "unat (8 + ?n) \<le> room sb + 8"
    then have "length (dbytes d) \<le> room sb" using u by simp
    then obtain sb' where a: "copyout_ev (api env) d sb = (sb', Ok ())"
      using copyout_ev_refines(2) [OF s(1) assms(3)] by (metis surjective_pairing)
    let ?t = "upd_send k mark_queued (s\<lparr>sendbuf := sb'\<rparr>)"
    have "queueSend_buf env k d s = (?t, Ok ())"
      using h a n by (simp add: queueSend_buf_def Let_def)
    moreover have "tcp_pending ?t = tcp_pending s @ frame k (dbytes d)"
      using sb copyout_ev_refines(1) [OF s(1) assms(3) a] by (simp add: tcp_pending_def frame_def)
    moreover have "base_ok ?t" using s(3) by (intro base_ok_upd_send) simp_all
    ultimately show ?thesis
      using s nq assms(2) by (simp add: tcp_sender_def tcp_wire_def upd_send_Some)
  qed
qed

interpretation tcp_set: psc_settings "tcp_sender env" tcp_pending tcp_wire "queueSend_id env" "flushSend env"
    "queueSend_raw env" "queueSend_buf env"
  for env
proof unfold_locales
  fix s :: "'a psc" and k b
  assume a: "tcp_sender env s" "send_blocks s k = Some b" "msg_fits (dbytes (data b))"
  then have "dbuffer_ok (data b)"
    using blocks_okD [of "send_blocks s"] by (simp add: tcp_sender_def base_ok_def)
  from queueSend_buf_cases [OF a(1,2) this a(3)]
  show "(\<exists>t. queueSend_buf env k (data b) s = (t, Ok ()) \<and> tcp_sender env t \<and> tcp_wire t = tcp_wire s \<and>
      tcp_pending t = tcp_pending s @ frame k (dbytes (data b))) \<or>
    (\<exists>e. queueSend_buf env k (data b) s = (s, Throw e))" by blast
qed (simp add: tcp_sender_def)

section \<open>Properties\<close>

definition demo_tx :: "unit psc" where
  "demo_tx = psc_base.extend ((psc_base_new ''psc'' ''localhost'' 3000)\<lparr>connected := True\<rparr>)
     \<lparr>mask = 0,
      session = Some \<lparr>bev_input = \<lparr>chains = [], room = 0\<rparr>, bev_output = \<lparr>chains = [], room = 0\<rparr>,
                      rd_low = 8, rd_high = min_max_buf_size, enabled = True\<rparr>,
      timer_active = False, have_head = False, header = 0, bodylen = 0, bodyblock = None, expect = 8,
      sendbuf = \<lparr>chains = [], room = 0\<rparr>, ticks = 0, world = ()\<rparr>"

definition demo_tx_env :: "unit psc_env" where
  "demo_tx_env = \<lparr>api = chunk_api, PSCMaxSendBuffer = 1024, PSCInactivityTime = 5, scanIo = (\<lambda>b. 0),
     listener = (\<lambda>c b w. (w, Ok ())), getCurrent = (\<lambda>n. None), dbProcess = (\<lambda>r w. [])\<rparr>"

lemma demo_tx_sender: "tcp_sender demo_tx_env demo_tx" "tcp_pending demo_tx = []" "tcp_wire demo_tx = []"
  by (simp_all add: tcp_sender_def demo_tx_def demo_tx_env_def psc_base.defs psc_base_new_def
      chunk_api_lawful base_ok_def tcp_pending_def tcp_wire_def evbytes_def)

lemmas demo_tx_eval = demo_tx_def demo_tx_env_def psc_base.defs psc_base_new_def chunk_api_def
  queueSend_id_def queueSend_raw_def queueHeader_def getSend_def block_new_def upd_send_def
  mark_queued_def flushSend_def Let_def clear_queued_def enc_header_def be16_def be32_def

text \<open>
  C11: accepted messages are transmitted whole, framed and in order. After queueing messages
  one by one and a successful flush, the wire holds in addition exactly the frames of the
  accepted messages in their order; nothing stays pending and no block stays marked.
\<close>

theorem tcp_send_in_order:
  assumes "tcp_sender env s" and "\<forall>m \<in> set ms. msg_fits (snd m)" and "tcp_pending s = []"
    and "queue_all (queueSend_id env) ms s = (t, acc)" and "flushSend env t = (u, Ok ())"
  shows "tcp_wire u = tcp_wire s @ frames acc \<and> set acc \<subseteq> set ms \<and> tcp_pending u = [] \<and>
    (\<forall>k b. send_blocks u k = Some b \<longrightarrow> \<not> queued b)"
proof -
  have "tcp_sender env t"
    using tcp.queue_all_frames [OF assms(1,2,4)] by simp
  then have "send_blocks u = clear_queued (send_blocks t)"
    using flushSend_ok(4) assms(5) by blast
  then have "\<forall>k b. send_blocks u k = Some b \<longrightarrow> \<not> queued b"
    by (simp add: clear_queued_def split: option.splits) force
  then show ?thesis using tcp.sent_messages [OF assms] by simp
qed

theorem tcp_send_in_order_witness:
  "\<exists>t u. queue_all (queueSend_id demo_tx_env) [(7, [1, 2]), (7, [3]), (8, [])] demo_tx =
       (t, [(7, [1, 2]), (8, [])]) \<and>
     flushSend demo_tx_env t = (u, Ok ()) \<and> tcp_wire u = frames [(7, [1, 2]), (8, [])]"
proof -
  let ?ms = "[(7, [1, 2]), (7, [3]), (8, [])] :: (u16 \<times> byte list) list"
  let ?q = "queue_all (queueSend_id demo_tx_env) ?ms demo_tx"
  have "snd ?q = [(7, [1, 2]), (8, [])]" and "snd (flushSend demo_tx_env (fst ?q)) = Ok ()"
    by (simp_all add: demo_tx_eval)
  then obtain t u where t: "?q = (t, [(7, [1, 2]), (8, [])])" and u: "flushSend demo_tx_env t = (u, Ok ())"
    by (metis prod.collapse)
  then show ?thesis
    using tcp_send_in_order [OF demo_tx_sender(1) _ demo_tx_sender(2) t u] demo_tx_sender(3)
    by (auto simp: msg_fits_def)
qed

text \<open>
  between two flushes a message number is queued at most once: after a message was
  accepted, another one with the same number is refused with the alarm COMM/INVALID, and
  the refusal changes nothing.
\<close>

theorem tcp_queue_once:
  assumes "tcp_sender env s" and "msg_fits bs" and "queueSend_id env k bs s = (t, Ok ())"
  shows "queueSend_id env k bs' t = (t, Throw (RecAlarm COMM_ALARM INVALID_ALARM))"
proof -
  have ok: "base_ok s" "tcp_sender env (getSend k s)"
    using assms(1) by (simp_all add: tcp_sender_def base_ok_getSend)
  obtain b where b: "send_blocks (getSend k s) k = Some b" by (rule getSend_at [OF ok(1)])
  have "send_blocks t k = Some (mark_queued b)" "connected t"
    using queueSend_raw_cases [OF ok(2) b assms(2)] assms(3)
    by (auto simp: queueSend_id_def tcp_sender_def)
  then show ?thesis
    by (simp add: queueSend_id_def queueSend_raw_def queueHeader_def getSend_def mark_queued_def
        recAlarm_def)
qed

theorem tcp_queue_once_witness:
  "\<exists>t. queueSend_id demo_tx_env 7 [1, 2] demo_tx = (t, Ok ()) \<and>
     queueSend_id demo_tx_env 7 [3] t = (t, Throw (RecAlarm 9 3))"
proof -
  have "snd (queueSend_id demo_tx_env 7 [1, 2] demo_tx) = Ok ()"
    by (simp add: demo_tx_eval)
  then obtain t where t: "queueSend_id demo_tx_env 7 [1, 2] demo_tx = (t, Ok ())"
    by (metis prod.collapse)
  then show ?thesis
    using tcp_queue_once [OF demo_tx_sender(1) _ t, of "[3]"] by (simp add: msg_fits_def)
qed

text \<open>
  \<open>send\<close> of a connected driver queues the cached content of the block as one frame, or
  refuses and changes nothing; it never fails an assertion, because room for header and
  body was reserved first.
\<close>

theorem tcp_send_block:
  assumes "tcp_sender env s" and "send_blocks s k = Some b" and "msg_fits (dbytes (data b))"
  shows "case psc_send (queueSend_buf env) k s of
      (t, Ok _) \<Rightarrow> tcp_pending t = tcp_pending s @ frame k (dbytes (data b)) \<and>
        tcp_wire t = tcp_wire s \<and> send_blocks t = (send_blocks s)(k \<mapsto> mark_queued b) \<and> \<not> queued b
    | (t, Throw _) \<Rightarrow> t = s
    | (t, Crash _) \<Rightarrow> False"
proof -
  have "dbuffer_ok (data b)"
    using assms(1,2) blocks_okD [of "send_blocks s"] by (simp add: tcp_sender_def base_ok_def)
  from queueSend_buf_cases [OF assms(1,2) this assms(3)] show ?thesis
    using assms(2) by (auto simp: psc_send_def)
qed

theorem tcp_send_block_witness:
  "case psc_send (queueSend_buf demo_tx_env) 7 (getSend 7 demo_tx) of
     (t, Ok _) \<Rightarrow> tcp_pending t = frame 7 [] | (t, Throw _) \<Rightarrow> t = getSend 7 demo_tx | (t, Crash _) \<Rightarrow> False"
proof -
  have s: "tcp_sender demo_tx_env (getSend 7 demo_tx)" "tcp_pending (getSend 7 demo_tx) = []"
    using demo_tx_sender by (simp_all add: tcp_sender_def base_ok_getSend tcp_pending_def)
  have b: "send_blocks (getSend 7 demo_tx) 7 = Some (block_new 7)"
    by (simp add: getSend_def demo_tx_def psc_base.defs psc_base_new_def)
  have "dbytes (data (block_new 7)) = []" by (simp add: block_new_def)
  then show ?thesis
    using tcp_send_block [OF s(1) b] s(2) by (auto simp: msg_fits_def split: prod.splits outcome.splits)
qed

text \<open>
  C35: a block sent while the driver is not connected is queued without its header. \<open>send\<close>
  reports success, and the bare body becomes part of the stream of the next connection; a
  receiver that is sent such a body of 8 or more bytes, not starting with the marker, stops
  with a framing error before it sees any message.
\<close>

theorem tcp_send_disconnected:
  assumes "evbuffer_lawful (api env)" and "evbuffer_reliable (api env)" and "base_ok s"
    and "\<not> connected s" and "send_blocks s k = Some b"
  shows "\<exists>t. psc_send (queueSend_buf env) k s = (t, Ok ()) \<and>
    tcp_pending t = tcp_pending s @ dbytes (data b) \<and>
    send_blocks t = (send_blocks s)(k \<mapsto> mark_queued b) \<and>
    (tcp_pending s = [] \<and> 8 \<le> length (dbytes (data b)) \<and> \<not> hdr_marked (dbytes (data b)) \<longrightarrow>
       (\<forall>kn more. fst (rx_run kn None (tcp_pending t @ more)) = [] \<and>
          snd (snd (snd (rx_run kn None (tcp_pending t @ more))))))"
proof -
  have ok: "dbuffer_ok (data b)"
    using assms(3,5) blocks_okD [of "send_blocks s"] by (simp add: base_ok_def)
  obtain sb r where c: "copyout_ev (api env) (data b) (sendbuf s) = (sb, r)"
    by (cases "copyout_ev (api env) (data b) (sendbuf s)")
  have r: "r = Ok ()" by (rule copyout_ev_reliable [OF assms(2) c])
  have sb: "evbytes sb = evbytes (sendbuf s) @ dbytes (data b)"
    using copyout_ev_refines(1) [OF assms(1) ok c] r by simp
  let ?t = "upd_send k mark_queued (s\<lparr>sendbuf := sb\<rparr>)"
  have "psc_send (queueSend_buf env) k s = (?t, Ok ())"
    using assms(4,5) c r by (simp add: psc_send_def queueSend_buf_def queueHeader_def Let_def)
  then show ?thesis
    using sb assms(5) by (auto simp: tcp_pending_def upd_send_Some rx_run.simps(1))
qed

theorem tcp_send_disconnected_witness:
  "\<exists>t. psc_send (queueSend_buf demo_tx_env) 7
       (demo_tx\<lparr>connected := False,
          send_blocks := [7 \<mapsto> (block_new 7)\<lparr>data := dbuffer_assign dbuffer_empty [1, 2]\<rparr>]\<rparr>) = (t, Ok ()) \<and>
     tcp_pending t = [1, 2]"
proof -
  let ?b = "(block_new 7)\<lparr>data := dbuffer_assign dbuffer_empty [1, 2]\<rparr>"
  let ?s = "demo_tx\<lparr>connected := False, send_blocks := [7 \<mapsto> ?b]\<rparr>"
  have "base_ok ?s" "tcp_pending ?s = []" "\<not> connected ?s" "send_blocks ?s 7 = Some ?b"
    using demo_tx_sender
    by (simp_all add: base_ok_def tcp_sender_def tcp_pending_def blocks_ok_upd1 block_ok_def block_new_def)
  then show ?thesis
    using tcp_send_disconnected [of demo_tx_env ?s 7 ?b] chunk_api_lawful chunk_api_reliable
    by (auto simp: demo_tx_env_def)
qed

end
