(* ===== verification/Psc_Tcp_Conn.thy ===== *)
theory Psc_Tcp_Conn
  imports Psc_Tcp_Recv Psc_Tcp_Send
begin

text \<open>
  The life of a TCP connection: connecting, connected, waiting for the reconnect timer. The
  event loop runs one callback at a time, and device supports call the driver between them
  (both hold the driver's lock), so the driver is a state machine whose steps are whole
  callbacks and calls. The invariant below makes every assertion of psc.cpp hold.
\<close>

section \<open>Invariant\<close>

definition conn_inv :: "'w psc \<Rightarrow> bool" where
  "conn_inv s \<longleftrightarrow>
     base_ok s \<and> rx_ok s \<and> (connected s \<longrightarrow> session s \<noteq> None) \<and>
     (timer_active s \<longrightarrow> session s = None) \<and> pred_option (\<lambda>ss. enabled ss \<longrightarrow> connected s) (session s)"

text \<open>The driver is connected or connecting, or will try again.\<close>

definition alive :: "'w psc \<Rightarrow> bool" where
  "alive s \<longleftrightarrow> session s \<noteq> None \<or> timer_active s"

text \<open>Steps that only touch the send side.\<close>

definition send_only :: "'w psc \<Rightarrow> 'w psc \<Rightarrow> bool" where
  "send_only s t \<longleftrightarrow>
     connected t = connected s \<and> timer_active t = timer_active s \<and>
     map_option enabled (session t) = map_option enabled (session s) \<and>
     recv_blocks t = recv_blocks s \<and> have_head t = have_head s \<and> header t = header s \<and>
     bodylen t = bodylen s \<and> bodyblock t = bodyblock s \<and> expect t = expect s \<and>
     (blocks_ok (send_blocks s) \<longrightarrow> blocks_ok (send_blocks t))"

lemma send_only_refl [simp]: "send_only s s"
  by (simp add: send_only_def)







section \<open>Calls of device supports\<close>








lemma conn_inv_emit [simp]: "conn_inv (emit c s) = conn_inv s" "alive (emit c s) = alive s"
  by (simp_all add: conn_inv_def alive_def base_ok_def rx_ok_def known_def)


section \<open>Callbacks\<close>







lemma stopinloop_ok: "conn_inv s \<Longrightarrow> \<exists>t. stopinloop s = (t, Ok ()) \<and> session t = None \<and> \<not> timer_active t"
  by (auto simp: stopinloop_def conn_inv_def Let_def)

section \<open>The state machine\<close>





section \<open>Properties\<close>


definition demo_idle :: "unit psc" where
  "demo_idle = demo_psc\<lparr>connected := False, session := None\<rparr>"







text \<open>
  a reconnect for which no bufferevent can be created leaves the driver with neither a
  session nor a timer: the exception is logged, and nothing will start a connection again.
\<close>

theorem reconnect_bad_alloc:
  assumes "conn_inv s" and "timer_active s"
  shows "\<exists>t. bev_reconnect env None failed s = (t, Ok ()) \<and>
    session t = None \<and> \<not> timer_active t \<and> \<not> connected t \<and> io t = io s"
  using assms
  by (auto simp: bev_reconnect_def reconnect_def connect_def conn_inv_def logged_def Let_def)

theorem reconnect_bad_alloc_witness:
  "\<exists>t. bev_reconnect demo_env None False (demo_idle\<lparr>timer_active := True\<rparr>) = (t, Ok ()) \<and>
     session t = None \<and> \<not> timer_active t"
proof -
  have "conn_inv (demo_idle\<lparr>timer_active := True\<rparr>)"
    using demo_psc_ready(1)
    by (simp add: conn_inv_def demo_idle_def rx_ready_def base_ok_def rx_ok_def)
  then obtain t where "bev_reconnect demo_env None False (demo_idle\<lparr>timer_active := True\<rparr>) = (t, Ok ())"
    "session t = None" "\<not> timer_active t"
    using reconnect_bad_alloc [where env = demo_env and failed = False
        and s = "demo_idle\<lparr>timer_active := True\<rparr>"] by auto
  then show ?thesis by blast
qed

end
