(* ===== verification/Psc_Udp.thy ===== *)
theory Psc_Udp
  imports Psc_Tcp Psc_Transport
begin

text \<open>
  The UDP driver \<open>PSCUDP\<close> (coreApp/src/pscudp.cpp, pscwrap.cpp, device.h). One datagram holds
  one message. Packets to send wait in \<open>sendbuf\<close> until a flush, then in \<open>txbuf\<close> until the
  socket takes them; buffers that were sent go to the free list \<open>readybuf\<close>. Received packets
  are read into \<open>rxscratch\<close>.

  Parameters are, beside those of the TCP driver, the results of \<open>sendto\<close> and of event_add
  (the n-th call of the outside world is counted by \<open>calls\<close>) and the packets that recvfrom
  returns, one after the other, until it has none. Memory for buffers is taken to suffice.
\<close>

section \<open>State\<close>

type_synonym addr = "u32 \<times> u16"

record 'w udp = psc_base +
  ep :: addr
  rxscratch :: "byte list"
  u_sendbuf :: "byte list list"
  u_txbuf :: "byte list list"
  u_readybuf :: "byte list list"
  calls :: nat
  u_world :: 'w

lemma udp_emit_sel [simp]:
  "ep (emit c s) = ep s" "rxscratch (emit c s) = rxscratch s" "u_sendbuf (emit c s) = u_sendbuf s"
  "u_txbuf (emit c s) = u_txbuf s" "u_readybuf (emit c s) = u_readybuf s" "calls (emit c s) = calls s"
  "u_world (emit c s) = u_world s"
  by (simp_all add: emit_def)

datatype tx_result = TxSent nat | TxAgain | TxError string

datatype rx_result = RxAgain | RxError string | RxPacket addr "byte list"

record 'w udp_env = "'w psc_env" +
  sendto :: "nat \<Rightarrow> byte list \<Rightarrow> tx_result"
  event_add :: "nat \<Rightarrow> bool"

text \<open>
  The constructor: \<open>sock\<close>, \<open>events\<close> and \<open>bound\<close> tell whether the socket, the two events and
  the binding to the local port succeeded; \<open>resolved\<close> is the address of the host or the text
  of the error.
\<close>

definition PSCUDP_new ::
  "bool \<Rightarrow> bool \<Rightarrow> string + u32 \<Rightarrow> string option \<Rightarrow> string \<Rightarrow> string \<Rightarrow> u16 \<Rightarrow> 'w \<Rightarrow> 'w udp outcome" where
  "PSCUDP_new sock events resolved bound n h hostport w =
     (if \<not> sock then Throw (RuntimeError ''Failed to allocate socket'')
      else if \<not> events then Throw BadAlloc
      else case resolved of
          Inl err \<Rightarrow> Throw (RuntimeError err)
        | Inr ip \<Rightarrow>
            (case bound of
               Some err \<Rightarrow> Throw (RuntimeError (''bind() failed: '' @ err))
             | None \<Rightarrow> Ok (psc_base.extend (psc_base_new n h hostport)
                 \<lparr>ep = (ip, hostport), rxscratch = replicate 1024 0, u_sendbuf = [], u_txbuf = [],
                  u_readybuf = [], calls = 0, u_world = w\<rparr>)))"

section \<open>Sending\<close>

definition udp_add_tx :: "('w, 'x) udp_env_scheme \<Rightarrow> 'w udp \<Rightarrow> 'w udp \<times> unit outcome" where
  "udp_add_tx env s =
     (let s1 = (emit (IoAddTx 5) s)\<lparr>calls := Suc (calls s)\<rparr>
      in if event_add env (calls s) then (s1, Ok ())
         else (s1, Throw (RuntimeError ''Failed to add Tx event'')))"

definition udp_flushSend :: "('w, 'x) udp_env_scheme \<Rightarrow> 'w udp \<Rightarrow> 'w udp \<times> unit outcome" where
  "udp_flushSend env s =
     (if \<not> connected s then (s, Ok ())
      else if length (u_txbuf s) \<ge> 64
      then (s, Throw (RuntimeError ''Sending message would exceed buffer''))
      else udp_add_tx env (s\<lparr>u_txbuf := u_txbuf s @ u_sendbuf s, u_sendbuf := [],
                             send_blocks := clear_queued (send_blocks s)\<rparr>))"

text \<open>
  The packet buffer is taken from the free list if there is one, and is the last of
  \<open>sendbuf\<close>. Its size is computed in 32 bits; the header is written through its start.
\<close>

definition udp_queueHeader :: "u16 \<Rightarrow> u32 \<Rightarrow> 'w udp \<Rightarrow> 'w udp \<times> unit outcome" where
  "udp_queueHeader k buflen s =
     (if length (u_sendbuf s) \<ge> 64 then (s, Throw (RuntimeError ''UDP send queue limit exceeded''))
      else
        let (scratch, ready) = (case u_readybuf s of [] \<Rightarrow> ([], []) | b # bs \<Rightarrow> (b, bs));
            scratch = vec_resize scratch (unat (8 + buflen));
            s1 = s\<lparr>u_sendbuf := u_sendbuf s @ [scratch], u_readybuf := ready\<rparr>
        in case send_blocks s k of
             None \<Rightarrow> (s1, Crash NullPointer)
           | Some b \<Rightarrow>
               if length scratch < 8 then (s1, Crash OutOfBounds)
               else (s1\<lparr>u_sendbuf := u_sendbuf s @ [splice_at 0 (enc_header (code b) buflen) scratch]\<rparr>,
                     Ok ()))"

text \<open>The write of the body behind the header, into the last packet of \<open>sendbuf\<close>.\<close>

definition udp_put_body :: "byte list \<Rightarrow> 'w udp \<Rightarrow> 'w udp \<times> unit outcome" where
  "udp_put_body bs s =
     (let scratch = last (u_sendbuf s)
      in if 8 + length bs > length scratch then (s, Crash OutOfBounds)
         else (s\<lparr>u_sendbuf := butlast (u_sendbuf s) @ [splice_at 8 bs scratch]\<rparr>, Ok ()))"

definition udp_queueSend_buf ::
  "('w, 'x) udp_env_scheme \<Rightarrow> u16 \<Rightarrow> dbuffer \<Rightarrow> 'w udp \<Rightarrow> 'w udp \<times> unit outcome" where
  "udp_queueSend_buf env k buf s =
     (let n = dbuffer_size (api env) buf
      in case udp_queueHeader k (of_nat n) s of
           (s1, Ok _) \<Rightarrow>
             if length (last (u_sendbuf s1)) \<noteq> 8 + n then (s1, Crash AssertFailed)
             else (case dbuffer_copyout (api env) buf 0 n of
                     Ok (_, bs) \<Rightarrow>
                       (case udp_put_body bs s1 of
                          (s2, Ok _) \<Rightarrow> (upd_send k mark_queued s2, Ok ())
                        | (s2, r) \<Rightarrow> (s2, r))
                   | Throw e \<Rightarrow> (s1, Throw e)
                   | Crash c \<Rightarrow> (s1, Crash c))
         | (s1, r) \<Rightarrow> (s1, r))"

definition udp_queueSend_raw :: "u16 \<Rightarrow> byte list \<Rightarrow> 'w udp \<Rightarrow> 'w udp \<times> unit outcome" where
  "udp_queueSend_raw k buf s =
     (case udp_queueHeader k (of_nat (length buf)) s of
        (s1, Ok _) \<Rightarrow>
          if length (last (u_sendbuf s1)) \<noteq> unat (8 + of_nat (length buf) :: u32)
          then (s1, Crash AssertFailed)
          else (case udp_put_body buf s1 of
                  (s2, Ok _) \<Rightarrow> (upd_send k mark_queued s2, Ok ())
                | (s2, r) \<Rightarrow> (s2, r))
      | (s1, r) \<Rightarrow> (s1, r))"

definition udp_queueSend_id :: "u16 \<Rightarrow> byte list \<Rightarrow> 'w udp \<Rightarrow> 'w udp \<times> unit outcome" where
  "udp_queueSend_id k buf s = udp_queueSend_raw k buf (getSend k s)"

definition udp_forceReConnect :: "'w udp \<Rightarrow> 'w udp \<times> unit outcome" where
  "udp_forceReConnect s = (s, Ok ())"

definition udp_stopinloop :: "'w udp \<Rightarrow> 'w udp" where
  "udp_stopinloop s = s"

text \<open>
  The loop of \<open>senddata\<close>. A packet that was sent goes to the free list, or, when that is
  full, an entry of the free list is dropped. It returns whether to announce a new message.
\<close>

definition udp_sent :: "byte list \<Rightarrow> byte list list \<Rightarrow> nat \<Rightarrow> 'w udp \<Rightarrow> 'w udp" where
  "udp_sent scratch rest ret s =
     (let s1 = (if length scratch \<noteq> ret
                then s\<lparr>conncount := conncount s + 1, message := ''Tx socket truncate''\<rparr> else s)
      in if length (u_readybuf s) < 64
         then s1\<lparr>u_readybuf := u_readybuf s @ [scratch], u_txbuf := rest\<rparr>
         else s1\<lparr>u_readybuf := tl (u_readybuf s)\<rparr>)"

lemma udp_sent_sel:
  "u_txbuf (udp_sent p rest n s) = (if length (u_readybuf s) < 64 then rest else u_txbuf s)"
  "u_readybuf (udp_sent p rest n s) =
     (if length (u_readybuf s) < 64 then u_readybuf s @ [p] else tl (u_readybuf s))"
  "u_sendbuf (udp_sent p rest n s) = u_sendbuf s" "calls (udp_sent p rest n s) = calls s"
  "io (udp_sent p rest n s) = io s" "send_blocks (udp_sent p rest n s) = send_blocks s"
  "recv_blocks (udp_sent p rest n s) = recv_blocks s" "connected (udp_sent p rest n s) = connected s"
  by (simp_all add: udp_sent_def Let_def)

function udp_send_loop :: "('w, 'x) udp_env_scheme \<Rightarrow> bool \<Rightarrow> 'w udp \<Rightarrow> 'w udp \<times> bool" where
  "udp_send_loop env scanme s =
     (case u_txbuf s of
        [] \<Rightarrow> (s, scanme)
      | scratch # rest \<Rightarrow>
          let s1 = (emit (IoSendto scratch) s)\<lparr>calls := Suc (calls s)\<rparr>
          in case sendto env (calls s) scratch of
               TxAgain \<Rightarrow> (s1, scanme)
             | TxError err \<Rightarrow>
                 (s1\<lparr>conncount := conncount s + 1, message := ''Tx socket error: '' @ err\<rparr>, True)
             | TxSent ret \<Rightarrow>
                 udp_send_loop env (scanme \<or> length scratch \<noteq> ret) (udp_sent scratch rest ret s1))"
  by pat_completeness auto
termination
  by (relation "measure (\<lambda>(env, scanme, s). 2 * length (u_txbuf s) + length (u_readybuf s))")
    (auto simp: udp_sent_sel)

declare udp_send_loop.simps [simp del]

text \<open>The event flags of libevent.\<close>

abbreviation (input) EV_TIMEOUT :: u16 where "EV_TIMEOUT \<equiv> 0x01"
abbreviation (input) EV_READ :: u16 where "EV_READ \<equiv> 0x02"
abbreviation (input) EV_WRITE :: u16 where "EV_WRITE \<equiv> 0x04"

definition udp_senddata :: "('w, 'x) udp_env_scheme \<Rightarrow> u16 \<Rightarrow> 'w udp \<Rightarrow> 'w udp \<times> unit outcome" where
  "udp_senddata env evt s =
     (let (s1, scanme) = (if evt AND EV_WRITE \<noteq> 0 then udp_send_loop env False s else (s, False));
          (s2, r) = (if u_txbuf s1 \<noteq> [] then udp_add_tx env s1 else (s1, Ok ()))
      in case r of
           Ok _ \<Rightarrow> (if scanme then emit IoScan s2 else s2, Ok ())
         | Throw e \<Rightarrow> (s2, Throw e)
         | Crash c \<Rightarrow> (s2, Crash c))"

section \<open>Connecting\<close>

fun udp_client_call :: "('w, 'x) udp_env_scheme \<Rightarrow> client_op \<Rightarrow> 'w udp \<Rightarrow> 'w udp \<times> unit outcome" where
  "udp_client_call env (CSend k) s = psc_send (udp_queueSend_buf env) k s"
| "udp_client_call env (CQueue k bs) s = udp_queueSend_id k bs s"
| "udp_client_call env (CWrite k bs off') s =
     (upd_send k (\<lambda>b. b\<lparr>data := fst (dbuffer_copyin (data b) bs off')\<rparr>) (getSend k s), Ok ())"
| "udp_client_call env CFlush s = udp_flushSend env s"
| "udp_client_call env CForce s = udp_forceReConnect s"

fun udp_client_run :: "('w, 'x) udp_env_scheme \<Rightarrow> client_op list \<Rightarrow> 'w udp \<Rightarrow> 'w udp \<times> unit outcome" where
  "udp_client_run env [] s = (s, Ok ())"
| "udp_client_run env (c # cs) s =
     (case udp_client_call env c s of
        (s1, Crash x) \<Rightarrow> (s1, Crash x)
      | (s1, _) \<Rightarrow> udp_client_run env cs s1)"

fun udp_process_all :: "('w, 'x) udp_env_scheme \<Rightarrow> rec_ptr list \<Rightarrow> 'w udp \<Rightarrow> 'w udp \<times> unit outcome" where
  "udp_process_all env [] s = (s, Ok ())"
| "udp_process_all env (r # rs) s =
     (case udp_client_run env (dbProcess env r (u_world s)) (emit (IoProcess r) s) of
        (s1, Ok _) \<Rightarrow> udp_process_all env rs s1
      | (s1, x) \<Rightarrow> (s1, x))"

definition udp_connect :: "('w, 'x) udp_env_scheme \<Rightarrow> 'w udp \<Rightarrow> 'w udp \<times> unit outcome" where
  "udp_connect env s =
     (let s1 = (emit (IoAddRx 5) s)\<lparr>calls := Suc (calls s)\<rparr>
      in if \<not> event_add env (calls s) then (s1, Throw (RuntimeError ''Failed to add Rx event''))
         else udp_process_all env (procOnConnect s) (emit IoOnConnect (s1\<lparr>connected := True\<rparr>)))"

section \<open>Receiving\<close>

text \<open>
  recvfrom writes at most the size of \<open>rxscratch\<close>; the rest of the packet is lost, and what
  \<open>rxscratch\<close> holds behind a short packet stays.
\<close>

definition rx_store :: "byte list \<Rightarrow> 'w udp \<Rightarrow> 'w udp" where
  "rx_store pkt s =
     s\<lparr>rxscratch := splice_at 0 (take (length (rxscratch s)) pkt) (rxscratch s)\<rparr>"

definition udp_deliver ::
  "('w, 'x) udp_env_scheme \<Rightarrow> u16 \<Rightarrow> u32 \<Rightarrow> 'w udp \<Rightarrow> 'w udp \<times> unit outcome" where
  "udp_deliver env msgid blen s =
     (case recv_blocks s msgid of
        None \<Rightarrow> (s\<lparr>ukncount := ukncount s + 1\<rparr>, Ok ())
      | Some b \<Rightarrow>
          let b1 = stamp (getCurrent env (calls s)) b;
              d = dbuffer_assign (data b1) (take (unat blen) (drop 8 (rxscratch s)));
              b2 = requestScan (scanIo env) (b1\<lparr>data := d\<rparr>);
              s1 = s\<lparr>recv_blocks := (recv_blocks s)(msgid \<mapsto> b2), calls := Suc (calls s)\<rparr>
          in case cblist_call (listener env) (listeners b2) b2 (u_world s1) of
               (w, r) \<Rightarrow> (emit (IoNotify msgid (dbytes d)) (s1\<lparr>u_world := w\<rparr>), r))"

text \<open>
  One packet that recvfrom returned: the new state, whether there is a new message to
  announce, and how the body of the loop ended.
\<close>

definition udp_packet ::
  "('w, 'x) udp_env_scheme \<Rightarrow> addr \<Rightarrow> byte list \<Rightarrow> 'w udp \<Rightarrow> 'w udp \<times> bool \<times> unit outcome" where
  "udp_packet env a pkt s =
     (let ret = min (length pkt) (length (rxscratch s)); s1 = rx_store pkt s
      in if a \<noteq> ep s then (s1, False, Ok ())
         else if ret < 8
         then (s1\<lparr>ukncount := ukncount s + 1, message := ''small packet''\<rparr>, True, Ok ())
         else if \<not> hdr_marked (rxscratch s1)
         then (s1\<lparr>message := ''Corrupt packet!''\<rparr>, True, Ok ())
         else
           let msgid = hdr_id (rxscratch s1); blen = hdr_len (rxscratch s1)
           in if unat blen > length (rxscratch s1) - 8
              then (s1\<lparr>message := ''truncated body'',
                       rxscratch := vec_resize (rxscratch s1) (unat (blen + 8)),
                       ukncount := ukncount s + 1\<rparr>, True, Ok ())
              else case udp_deliver env msgid blen s1 of (s2, r) \<Rightarrow> (s2, False, r))"

fun udp_recv_loop ::
  "('w, 'x) udp_env_scheme \<Rightarrow> rx_result list \<Rightarrow> bool \<Rightarrow> 'w udp \<Rightarrow> 'w udp \<times> bool \<times> unit outcome" where
  "udp_recv_loop env [] scanme s = (s, scanme, Ok ())"
| "udp_recv_loop env (RxAgain # ps) scanme s = (s, scanme, Ok ())"
| "udp_recv_loop env (RxError err # ps) scanme s =
     (s\<lparr>conncount := conncount s + 1, message := ''Rx socket error: '' @ err\<rparr>, True, Ok ())"
| "udp_recv_loop env (RxPacket a pkt # ps) scanme s =
     (case udp_packet env a pkt s of
        (s1, news, Ok _) \<Rightarrow> udp_recv_loop env ps (scanme \<or> news) s1
      | (s1, news, r) \<Rightarrow> (s1, scanme \<or> news, r))"

definition udp_recvdata ::
  "('w, 'x) udp_env_scheme \<Rightarrow> u16 \<Rightarrow> rx_result list \<Rightarrow> 'w udp \<Rightarrow> 'w udp \<times> unit outcome" where
  "udp_recvdata env evt ps s =
     (if evt AND EV_TIMEOUT \<noteq> 0
      then (emit IoScan (s\<lparr>conncount := conncount s + 1, message := ''Rx timeout''\<rparr>), Ok ())
      else if evt AND EV_READ = 0 then (s, Ok ())
      else case udp_recv_loop env ps False s of
          (s1, scanme, Ok _) \<Rightarrow> (if scanme then emit IoScan s1 else s1, Ok ())
        | (s1, scanme, r) \<Rightarrow> (s1, r))"

definition ev_send :: "('w, 'x) udp_env_scheme \<Rightarrow> u16 \<Rightarrow> 'w udp \<Rightarrow> 'w udp \<times> unit outcome" where
  "ev_send env evt s = logged (udp_senddata env evt s)"

definition ev_recv ::
  "('w, 'x) udp_env_scheme \<Rightarrow> u16 \<Rightarrow> rx_result list \<Rightarrow> 'w udp \<Rightarrow> 'w udp \<times> unit outcome" where
  "ev_recv env evt ps s = logged (udp_recvdata env evt ps s)"

end
