(* ===== verification/Psc_Udp_Recv.thy ===== *)
theory Psc_Udp_Recv
  imports Psc_Udp
begin

text \<open>
  The receive side of the UDP driver: complete datagrams of the peer are delivered and those
  of others ignored, and what happens to incomplete ones.
\<close>

section \<open>Delivery of one message\<close>

text \<open>A datagram that is at most as long as the receive buffer and holds the body it announces.\<close>

definition dgram_ok :: "nat \<Rightarrow> byte list \<Rightarrow> bool" where
  "dgram_ok n pkt \<longleftrightarrow>
     8 \<le> length pkt \<and> length pkt \<le> n \<and> hdr_marked pkt \<and> unat (hdr_len pkt) \<le> length pkt - 8"

definition dgram_msg :: "byte list \<Rightarrow> u16 \<times> byte list" where
  "dgram_msg pkt = (hdr_id pkt, take (unat (hdr_len pkt)) (drop 8 pkt))"

text \<open>Unlike the stream decoder, the driver announces empty messages too.\<close>

definition dgram_events :: "(u16 \<Rightarrow> bool) \<Rightarrow> u16 \<times> byte list \<Rightarrow> rx_event list" where
  "dgram_events kn m =
     (case m of (k, bs) \<Rightarrow> RxHead k (of_nat (length bs)) # (if kn k then [RxBody k True bs] else []))"

definition udp_frame :: "'w udp \<Rightarrow> 'w udp \<Rightarrow> bool" where
  "udp_frame s t \<longleftrightarrow>
     connected t = connected s \<and> ep t = ep s \<and> known t = known s \<and> u_sendbuf t = u_sendbuf s \<and>
     u_txbuf t = u_txbuf s \<and> u_readybuf t = u_readybuf s \<and> send_blocks t = send_blocks s"

lemma udp_frame_refl [simp]: "udp_frame s s"
  by (simp add: udp_frame_def)

lemma udp_frame_trans: "udp_frame s t \<Longrightarrow> udp_frame t u \<Longrightarrow> udp_frame s u"
  by (simp add: udp_frame_def)

lemma udp_deliver_view:
  assumes "never_crashes (listener env)" and "base_ok s"
    and "bs = take (unat n) (drop 8 (rxscratch s))"
  shows "\<exists>t. udp_deliver env k n s = (t, Ok ()) \<and> base_ok t \<and> udp_frame s t \<and> rxscratch t = rxscratch s \<and>
    view t = fold rx_apply (dgram_events (known s) (k, bs)) (view s)"
proof (cases "recv_blocks s k")
  case None
  then show ?thesis
    using assms(2)
    by (simp add: udp_deliver_def dgram_events_def known_def base_ok_def udp_frame_def view_def
        blk_view_None fun_eq_iff)
next
  case (Some b)
  let ?d = "dbuffer_assign (data (stamp (getCurrent env (calls s)) b)) bs"
  let ?b = "requestScan (scanIo env) ((stamp (getCurrent env (calls s)) b)\<lparr>data := ?d\<rparr>)"
  let ?s = "s\<lparr>recv_blocks := (recv_blocks s)(k \<mapsto> ?b), calls := Suc (calls s)\<rparr>"
  obtain w where w: "cblist_call (listener env) (listeners ?b) ?b (u_world s) = (w, Ok ())"
    using cblist_call_ok [OF assms(1)] by (metis surjective_pairing)
  have code: "code b = k"
    using assms(2) Some blocks_okD [of "recv_blocks s"] by (simp add: base_ok_def)
  then have b: "block_ok k ?b" by (simp add: block_ok_def stamp_def)
  have cnt: "blk_count ?b = blk_count b + 1" "scan_requests ?b = scan_requests b + 1" by (simp_all add: stamp_def)
  have "udp_deliver env k n s = (emit (IoNotify k bs) (?s\<lparr>u_world := w\<rparr>), Ok ())"
    using Some w assms(3) by (simp add: udp_deliver_def Let_def)
  moreover have "view (emit (IoNotify k bs) (?s\<lparr>u_world := w\<rparr>)) =
      fold rx_apply (dgram_events (known s) (k, bs)) (view s)"
    using Some cnt by (simp add: view_def dgram_events_def known_def blk_view_Some)
  ultimately show ?thesis
    using assms(2) Some b
    by (auto simp: base_ok_def blocks_ok_upd1 udp_frame_def known_def [abs_def])
qed

section \<open>One packet\<close>

lemma rx_store_short:
  "length pkt \<le> length (rxscratch s) \<Longrightarrow>
   rxscratch (rx_store pkt s) = pkt @ drop (length pkt) (rxscratch s)"
  by (simp add: rx_store_def splice_at_def)

lemma rx_store_sel [simp]:
  "length (rxscratch (rx_store pkt s)) = length (rxscratch s)" "udp_frame s (rx_store pkt s)"
  "base_ok (rx_store pkt s) = base_ok s" "view (rx_store pkt s) = view s"
  "known (rx_store pkt s) = known s" "ep (rx_store pkt s) = ep s"
  "ukncount (rx_store pkt s) = ukncount s" "io (rx_store pkt s) = io s"
  by (simp_all add: rx_store_def base_ok_def view_def known_def [abs_def] udp_frame_def)

lemma packet_foreign: "a \<noteq> ep s \<Longrightarrow> udp_packet env a pkt s = (rx_store pkt s, False, Ok ())"
  by (simp add: udp_packet_def Let_def)

lemma packet_fits:
  assumes "8 \<le> length pkt" and "length pkt \<le> length (rxscratch s)" and "hdr_marked pkt"
    and "unat (hdr_len pkt) \<le> length (rxscratch s) - 8"
  shows "udp_packet env (ep s) pkt s =
    (case udp_deliver env (hdr_id pkt) (hdr_len pkt) (rx_store pkt s) of (t, r) \<Rightarrow> (t, False, r))"
  using assms by (simp add: udp_packet_def Let_def rx_store_short)

lemma packet_own:
  assumes "never_crashes (listener env)" and "base_ok s" and "dgram_ok (length (rxscratch s)) pkt"
  shows "\<exists>t. udp_packet env (ep s) pkt s = (t, False, Ok ()) \<and> base_ok t \<and> udp_frame s t \<and>
    length (rxscratch t) = length (rxscratch s) \<and>
    view t = fold rx_apply (dgram_events (known s) (dgram_msg pkt)) (view s)"
proof -
  let ?s = "rx_store pkt s"
  have p: "8 \<le> length pkt" "length pkt \<le> length (rxscratch s)" "hdr_marked pkt"
    "unat (hdr_len pkt) \<le> length pkt - 8"
    using assms(3) by (simp_all add: dgram_ok_def)
  then have "snd (dgram_msg pkt) = take (unat (hdr_len pkt)) (drop 8 (rxscratch ?s))"
    by (simp add: dgram_msg_def rx_store_short)
  from udp_deliver_view [OF assms(1) _ this, of "hdr_id pkt"] obtain t where
    "udp_deliver env (hdr_id pkt) (hdr_len pkt) ?s = (t, Ok ())" "base_ok t" "udp_frame ?s t"
    "rxscratch t = rxscratch ?s"
    "view t = fold rx_apply (dgram_events (known s) (dgram_msg pkt)) (view s)"
    using assms(2) by (auto simp: dgram_msg_def)
  then show ?thesis
    using packet_fits [of pkt s env] p udp_frame_trans [of s ?s t] by simp
qed

section \<open>The loop\<close>

definition own_packets :: "addr \<Rightarrow> rx_result list \<Rightarrow> byte list list" where
  "own_packets a ps =
     concat (map (\<lambda>p. case p of RxPacket b pkt \<Rightarrow> if a = b then [pkt] else [] | _ \<Rightarrow> []) ps)"

lemma own_packets_simps [simp]:
  "own_packets a [] = []"
  "own_packets a (RxPacket b pkt # ps) = (if a = b then [pkt] else []) @ own_packets a ps"
  by (simp_all add: own_packets_def)

definition is_packet :: "rx_result \<Rightarrow> bool" where
  "is_packet p \<longleftrightarrow> (case p of RxPacket _ _ \<Rightarrow> True | _ \<Rightarrow> False)"

lemma udp_recv_loop_refines:
  assumes "never_crashes (listener env)" and "base_ok s"
    and "list_all is_packet ps" and "list_all (dgram_ok (length (rxscratch s))) (own_packets (ep s) ps)"
  shows "\<exists>t. udp_recv_loop env ps scanme s = (t, scanme, Ok ()) \<and> base_ok t \<and> udp_frame s t \<and>
    length (rxscratch t) = length (rxscratch s) \<and>
    view t = fold rx_apply (concat (map (\<lambda>p. dgram_events (known s) (dgram_msg p)) (own_packets (ep s) ps))) (view s)"
  using assms(2-)
proof (induction ps arbitrary: s)
  case Nil
  then show ?case by simp
next
  case (Cons p ps)
  obtain a pkt where p: "p = RxPacket a pkt"
    using Cons.prems(2) by (auto simp: is_packet_def split: rx_result.splits)
  let ?es = "if ep s = a then dgram_events (known s) (dgram_msg pkt) else []"
  obtain s1 where s1: "udp_packet env a pkt s = (s1, False, Ok ())" "base_ok s1" "udp_frame s s1"
    "length (rxscratch s1) = length (rxscratch s)" "view s1 = fold rx_apply ?es (view s)"
  proof (cases "ep s = a")
    case True
    then show ?thesis
      using packet_own [OF assms(1) Cons.prems(1), of pkt] Cons.prems(3) p that by auto
  next
    case False
    then show ?thesis using packet_foreign [of a s env pkt] Cons.prems(1) that by simp
  qed
  have same: "ep s1 = ep s" "known s1 = known s" using s1(3) by (simp_all add: udp_frame_def)
  from Cons.IH [OF s1(2)] obtain t where
    "udp_recv_loop env ps scanme s1 = (t, scanme, Ok ())" "base_ok t" "udp_frame s1 t"
    "length (rxscratch t) = length (rxscratch s1)"
    "view t = fold rx_apply (concat (map (\<lambda>p. dgram_events (known s) (dgram_msg p)) (own_packets (ep s) ps))) (view s1)"
    using Cons.prems(2,3) p s1(4) same by auto
  then show ?case
    using s1 p same udp_frame_trans [OF s1(3)] by (auto simp: fold_append)
qed

section \<open>A receive buffer that is too small for a header\<close>

lemma unat_wrap8:
  assumes "2 ^ 32 - 8 \<le> unat (n :: u32)"
  shows "unat (n + 8) < 8"
proof -
  have "unat n < 2 ^ 32" using unsigned_less [of n] by simp
  then have "(unat n + 8) mod 2 ^ 32 = unat n + 8 - 2 ^ 32"
    using assms by (simp add: mod_if)
  then show ?thesis
    using \<open>unat n < 2 ^ 32\<close> by (simp add: unat_word_ariths)
qed

lemma unat_add8: "unat (n :: u32) + 8 < 2 ^ 32 \<Longrightarrow> unat (n + 8) = unat n + 8"
  by (simp add: unat_word_ariths)

lemma deaf_loop:
  assumes "length (rxscratch s) < 8"
  shows "\<exists>t b. udp_recv_loop env ps scanme s = (t, b, Ok ()) \<and> notified (io t) = notified (io s) \<and>
    v_data (view t) = v_data (view s) \<and> length (rxscratch t) = length (rxscratch s)"
  using assms
proof (induction env ps scanme s rule: udp_recv_loop.induct)
  case (4 env a pkt ps scanme s)
  let ?s = "if a = ep s then (rx_store pkt s)\<lparr>ukncount := ukncount s + 1, message := ''small packet''\<rparr>
    else rx_store pkt s"
  have "min (length pkt) (length (rxscratch s)) < 8" using "4.prems" by simp
  then have p: "udp_packet env a pkt s = (?s, a = ep s, Ok ())"
    by (simp add: udp_packet_def Let_def)
  have same: "length (rxscratch ?s) = length (rxscratch s)" "notified (io ?s) = notified (io s)"
    "v_data (view ?s) = v_data (view s)"
    by (simp_all add: rx_store_def view_def)
  show ?case using "4.IH" [OF p [symmetric] refl refl] "4.prems" p same by auto
qed (auto simp: view_def)

section \<open>Properties\<close>

definition demo_udp :: "unit udp" where
  "demo_udp = psc_base.extend ((psc_base_new ''udp'' ''localhost'' 3000)
       \<lparr>connected := True, recv_blocks := [7 \<mapsto> block_new 7]\<rparr>)
     \<lparr>ep = (1, 3000), rxscratch = replicate 16 0, u_sendbuf = [], u_txbuf = [], u_readybuf = [],
      calls = 0, u_world = ()\<rparr>"

definition demo_udp_env :: "unit udp_env" where
  "demo_udp_env = \<lparr>api = chunk_api, PSCMaxSendBuffer = 1024, PSCInactivityTime = 5, scanIo = (\<lambda>b. 0),
     listener = (\<lambda>c b w. (w, Ok ())), getCurrent = (\<lambda>n. None), dbProcess = (\<lambda>r w. []),
     sendto = (\<lambda>n bs. TxSent (length bs)), event_add = (\<lambda>n. True)\<rparr>"

lemma demo_udp_sel [simp]:
  "connected demo_udp" "ep demo_udp = (1, 3000)" "rxscratch demo_udp = replicate 16 0"
  "u_sendbuf demo_udp = []" "u_txbuf demo_udp = []" "u_readybuf demo_udp = []" "calls demo_udp = 0"
  "recv_blocks demo_udp = [7 \<mapsto> block_new 7]" "send_blocks demo_udp = Map.empty" "io demo_udp = []"
  by (simp_all add: demo_udp_def psc_base.defs psc_base_new_def)

lemma demo_udp_ok: "base_ok demo_udp" "known demo_udp = (\<lambda>k. k = 7)" "never_crashes (listener demo_udp_env)"
  by (simp_all add: base_ok_def blocks_ok_upd1 known_def [abs_def] never_crashes_def demo_udp_env_def)

lemma frame_hdr:
  "hdr_marked (frame k bs)" "hdr_id (frame k bs) = k" "hdr_len (frame k bs) = of_nat (length bs)"
  "length (frame k bs) = 8 + length bs" "drop 8 (frame k bs) = bs"
  by (simp_all add: frame_def)

lemma dgram_frame: "length bs + 8 \<le> n \<Longrightarrow> length bs < 2 ^ 32 \<Longrightarrow> dgram_ok n (frame k bs) \<and> dgram_msg (frame k bs) = (k, bs)"
  by (simp add: dgram_ok_def dgram_msg_def frame_hdr unat_of_length)

text \<open>
  C14: the UDP driver delivers every complete datagram of its peer that fits the receive
  buffer, in order, and ignores datagrams from any other address: counters, cached bodies
  and notifications are those of the peer's datagrams alone. Nothing is announced on the
  status scan list for them.
\<close>

theorem udp_delivery:
  assumes "never_crashes (listener env)" and "base_ok s" and "list_all is_packet ps"
    and "list_all (dgram_ok (length (rxscratch s))) (own_packets (ep s) ps)"
  shows "\<exists>t. udp_recvdata env EV_READ ps s = (t, Ok ()) \<and> base_ok t \<and>
    view t = fold rx_apply
      (concat (map (\<lambda>p. dgram_events (known s) (dgram_msg p)) (own_packets (ep s) ps))) (view s)"
  using udp_recv_loop_refines [OF assms, of False] by (auto simp: udp_recvdata_def)

theorem udp_delivery_witness:
  "\<exists>t. udp_recvdata demo_udp_env EV_READ
       [RxPacket (2, 9) (frame 7 [9]), RxPacket (1, 3000) (frame 7 [5, 6])] demo_udp = (t, Ok ()) \<and>
     notified (io t) = [(7, [5, 6])]"
proof -
  let ?ps = "[RxPacket (2, 9) (frame 7 [9]), RxPacket (1, 3000) (frame 7 [5, 6])]"
  have own: "own_packets (ep demo_udp) ?ps = [frame 7 [5, 6]]" by simp
  obtain t where t: "udp_recvdata demo_udp_env EV_READ ?ps demo_udp = (t, Ok ())"
    "view t = fold rx_apply (dgram_events (\<lambda>k. k = 7) (7, [5, 6])) (view demo_udp)"
    using udp_delivery [OF demo_udp_ok(3,1), of ?ps] dgram_frame [of "[5, 6]" 16 7]
    unfolding own demo_udp_ok(2) by (auto simp: is_packet_def)
  have "v_log (view t) = [(7, [5, 6])]"
    unfolding t(2) rx_apply_log by (simp add: view_def dgram_events_def)
  then show ?thesis using t(1) by (simp add: view_def)
qed

text \<open>
  a datagram that announces more bytes than it holds is delivered all the same, as long
  as the receive buffer is large enough: its body is completed with bytes that earlier
  datagrams, of any sender, left in the buffer.
\<close>

theorem udp_stale_bytes:
  assumes "never_crashes (listener env)" and "base_ok s" and "known s (hdr_id pkt)"
    and "8 \<le> length pkt" and "length pkt \<le> length (rxscratch s)" and "hdr_marked pkt"
    and "length pkt - 8 < unat (hdr_len pkt)" and "unat (hdr_len pkt) \<le> length (rxscratch s) - 8"
  shows "\<exists>t. udp_recvdata env EV_READ [RxPacket (ep s) pkt] s = (t, Ok ()) \<and>
    notified (io t) = notified (io s) @
      [(hdr_id pkt, drop 8 pkt @
         take (unat (hdr_len pkt) - (length pkt - 8)) (drop (length pkt) (rxscratch s)))]"
proof -
  let ?bs = "drop 8 pkt @ take (unat (hdr_len pkt) - (length pkt - 8)) (drop (length pkt) (rxscratch s))"
  have "?bs = take (unat (hdr_len pkt)) (drop 8 (rxscratch (rx_store pkt s)))"
    using assms(4,5,7) by (simp add: rx_store_short)
  from udp_deliver_view [OF assms(1) _ this, of "hdr_id pkt"] obtain t where
    t: "udp_deliver env (hdr_id pkt) (hdr_len pkt) (rx_store pkt s) = (t, Ok ())"
    "view t = fold rx_apply (dgram_events (known s) (hdr_id pkt, ?bs)) (view s)"
    using assms(2) by auto
  have "v_log (view t) = v_log (view s) @ [(hdr_id pkt, ?bs)]"
    unfolding t(2) rx_apply_log using assms(3) by (simp add: dgram_events_def)
  then show ?thesis
    using packet_fits [OF assms(4,5,6,8), of env] t(1) by (simp add: udp_recvdata_def view_def)
qed

theorem udp_stale_bytes_witness:
  "\<exists>t. udp_recvdata demo_udp_env EV_READ [RxPacket (1, 3000) (enc_header 7 2 @ [5])]
       (demo_udp\<lparr>rxscratch := replicate 16 9\<rparr>) = (t, Ok ()) \<and>
     notified (io t) = [(7, [5, 9])]"
proof -
  let ?s = "demo_udp\<lparr>rxscratch := replicate 16 9\<rparr>" and ?p = "enc_header 7 2 @ [5]"
  have "base_ok ?s" "known ?s 7" "ep ?s = (1, 3000)" "rxscratch ?s = replicate 16 9"
    using demo_udp_ok by (simp_all add: base_ok_def known_def)
  then show ?thesis
    using udp_stale_bytes [OF demo_udp_ok(3), of ?s ?p] by auto
qed

text \<open>
  a datagram whose length field is at least \<open>2 ^ 32 - 8\<close> silences the driver for good. The
  new size of the receive buffer is computed in 32 bits and comes out smaller than a header,
  so that from then on every datagram counts as too small and nothing is delivered.
\<close>

theorem udp_length_wrap:
  assumes "8 \<le> length pkt" and "length pkt \<le> length (rxscratch s)" and "length (rxscratch s) < 2 ^ 32"
    and "hdr_marked pkt" and "2 ^ 32 - 8 \<le> unat (hdr_len pkt)"
  shows "\<exists>t. udp_recvdata env EV_READ (RxPacket (ep s) pkt # ps) s = (t, Ok ()) \<and>
    length (rxscratch t) < 8 \<and> notified (io t) = notified (io s) \<and> v_data (view t) = v_data (view s)"
proof -
  define n where "n = unat (hdr_len pkt + 8)"
  have small: "n < 8" unfolding n_def by (rule unat_wrap8 [OF assms(5)])
  let ?s = "(rx_store pkt s)\<lparr>message := ''truncated body'',
    rxscratch := vec_resize (rxscratch (rx_store pkt s)) n, ukncount := ukncount s + 1\<rparr>"
  have "length (rxscratch s) - 8 < unat (hdr_len pkt)"
    using assms(3,5) by simp
  then have p: "udp_packet env (ep s) pkt s = (?s, True, Ok ())"
    using assms(1,2,4) by (simp add: udp_packet_def Let_def rx_store_short n_def)
  have same: "length (rxscratch ?s) < 8" "notified (io ?s) = notified (io s)"
    "v_data (view ?s) = v_data (view s)"
    using small by (simp_all add: view_def rx_store_def)
  obtain t b where "udp_recv_loop env ps True ?s = (t, b, Ok ())" "notified (io t) = notified (io s)"
    "v_data (view t) = v_data (view s)" "length (rxscratch t) < 8"
    using deaf_loop [OF same(1), of env ps True] same by auto
  then show ?thesis
    using p by (cases b) (simp_all add: udp_recvdata_def view_def)
qed

theorem udp_length_wrap_witness:
  "\<exists>t. udp_recvdata demo_udp_env EV_READ
       [RxPacket (1, 3000) (enc_header 7 0xFFFFFFFF), RxPacket (1, 3000) (frame 7 [5])] demo_udp = (t, Ok ()) \<and>
     notified (io t) = []"
  using udp_length_wrap [of "enc_header 7 0xFFFFFFFF" demo_udp demo_udp_env "[RxPacket (1, 3000) (frame 7 [5])]"]
    hdr_enc_header [of 7 "0xFFFFFFFF" "[]"] by auto

text \<open>
  a datagram that is too long for the receive buffer is dropped and counted as unknown,
  and the buffer grows to its size, so that the same datagram is delivered when it comes
  again.
\<close>

theorem udp_grow:
  assumes "never_crashes (listener env)" and "base_ok s" and "known s (hdr_id pkt)"
    and "8 \<le> length (rxscratch s)" and "length (rxscratch s) < length pkt" and "length pkt < 2 ^ 32"
    and "hdr_marked pkt" and "unat (hdr_len pkt) = length pkt - 8"
  shows "\<exists>t. udp_recvdata env EV_READ [RxPacket (ep s) pkt, RxPacket (ep s) pkt] s = (t, Ok ()) \<and>
    length (rxscratch t) = length pkt \<and> ukncount t = ukncount s + 1 \<and>
    notified (io t) = notified (io s) @ [(hdr_id pkt, drop 8 pkt)]"
proof -
  have n: "unat (hdr_len pkt + 8) = length pkt"
    using assms(4-6,8) by (simp add: unat_add8)
  have st: "rxscratch (rx_store pkt s) = take (length (rxscratch s)) pkt"
    using assms(5) by (simp add: rx_store_def splice_at_def)
  then have hdr: "hdr_marked (rxscratch (rx_store pkt s))" "hdr_len (rxscratch (rx_store pkt s)) = hdr_len pkt"
    using assms(4,5,7) hdr_append [of "take (length (rxscratch s)) pkt" "drop (length (rxscratch s)) pkt"] by auto
  let ?s = "(rx_store pkt s)\<lparr>message := ''truncated body'',
    rxscratch := vec_resize (rxscratch (rx_store pkt s)) (length pkt), ukncount := ukncount s + 1\<rparr>"
  have "length (rxscratch s) - 8 < unat (hdr_len pkt)" using assms(4,5,8) by simp
  then have p: "udp_packet env (ep s) pkt s = (?s, True, Ok ())"
    using assms(4,5) hdr n by (simp add: udp_packet_def Let_def)
  have ok: "base_ok ?s" "ep ?s = ep s" "known ?s = known s" "dgram_ok (length (rxscratch ?s)) pkt"
    "notified (io ?s) = notified (io s)" "v_ukn (view ?s) = ukncount s + 1"
    using assms(2,4-8) by (simp_all add: base_ok_def rx_store_def known_def [abs_def] dgram_ok_def view_def)
  obtain t where t: "udp_packet env (ep s) pkt ?s = (t, False, Ok ())"
    "length (rxscratch t) = length pkt"
    "view t = fold rx_apply (dgram_events (known s) (dgram_msg pkt)) (view ?s)"
    using packet_own [OF assms(1) ok(1,4)] ok(2,3) by auto
  have m: "dgram_msg pkt = (hdr_id pkt, drop 8 pkt)"
    using assms(8) by (simp add: dgram_msg_def)
  have "v_log (view t) = v_log (view ?s) @ [(hdr_id pkt, drop 8 pkt)]"
    unfolding t(3) rx_apply_log m using assms(3) by (simp add: dgram_events_def)
  moreover have "v_ukn (view t) = ukncount s + 1"
    unfolding t(3) m using assms(3)
    by (cases "recv_blocks s (hdr_id pkt)")
      (simp_all add: dgram_events_def known_def view_def rx_store_def blk_view_def)
  ultimately show ?thesis
    using p t(1,2) ok(5) by (simp add: udp_recvdata_def view_def)
qed

theorem udp_grow_witness:
  "\<exists>t. udp_recvdata demo_udp_env EV_READ
       [RxPacket (1, 3000) (frame 7 (replicate 20 4)), RxPacket (1, 3000) (frame 7 (replicate 20 4))] demo_udp
       = (t, Ok ()) \<and> notified (io t) = [(7, replicate 20 4)]"
  using udp_grow [OF demo_udp_ok(3,1), of "frame 7 (replicate 20 4)"]
  by (auto simp: frame_hdr demo_udp_ok(2))

end
