(* ===== verification/Psc_Udp_Send.thy ===== *)
theory Psc_Udp_Send
  imports Psc_Udp_Recv
begin

text \<open>
  The send side of the UDP driver: each accepted message is one packet with header and body,
  a flush hands the packets over in order, the queues are bounded, and the loop that empties
  the output queue. The driver implements the interface \<open>psc_transport\<close>.
\<close>

section \<open>Queueing\<close>

definition udp_pending :: "'w udp \<Rightarrow> byte list" where
  "udp_pending s = concat (u_sendbuf s)"

definition udp_wire :: "'w udp \<Rightarrow> byte list" where
  "udp_wire s = concat (u_txbuf s)"

definition udp_sender :: "'w udp \<Rightarrow> bool" where
  "udp_sender s \<longleftrightarrow> connected s \<and> base_ok s"

lemma udp_upd_send_sel [simp]:
  "u_sendbuf (upd_send k f s) = u_sendbuf s" "u_txbuf (upd_send k f s) = u_txbuf s"
  "u_readybuf (upd_send k f s) = u_readybuf s" "ep (upd_send k f s) = ep s"
  by (simp_all add: upd_send_def)

lemma udp_getSend_sel [simp]:
  "u_sendbuf (getSend k s) = u_sendbuf s" "u_txbuf (getSend k s) = u_txbuf s"
  "u_readybuf (getSend k s) = u_readybuf s"
  by (simp_all add: getSend_def split: option.splits)

lemma udp_queueHeader_cases:
  assumes "send_blocks s k = Some b" and "code b = k" and "unat (8 + n) = 8 + unat n"
  shows "(udp_queueHeader k n s = (s, Throw (RuntimeError ''UDP send queue limit exceeded'')) \<and>
      64 \<le> length (u_sendbuf s)) \<or>
    (\<exists>tail ready. udp_queueHeader k n s =
         (s\<lparr>u_sendbuf := u_sendbuf s @ [enc_header k n @ tail], u_readybuf := ready\<rparr>, Ok ()) \<and>
       length tail = unat n \<and> length ready \<le> length (u_readybuf s) \<and> length (u_sendbuf s) < 64)"
proof (cases "length (u_sendbuf s) \<ge> 64")
  case True
  then show ?thesis by (simp add: udp_queueHeader_def)
next
  case False
  define sc where "sc = (case u_readybuf s of [] \<Rightarrow> [] | b # bs \<Rightarrow> b)"
  define v where "v = vec_resize sc (unat (8 + n))"
  have v: "length v = 8 + unat n" using assms(3) by (simp add: v_def)
  then have "splice_at 0 (enc_header k n) v = enc_header k n @ drop 8 v"
    by (simp add: splice_at_def)
  then have "udp_queueHeader k n s =
      (s\<lparr>u_sendbuf := u_sendbuf s @ [enc_header k n @ drop 8 v], u_readybuf := tl (u_readybuf s)\<rparr>, Ok ())"
    using False assms(1,2) v
    by (auto simp: udp_queueHeader_def Let_def v_def sc_def split: list.splits)
  then show ?thesis using False v by (intro disjI2 exI [of _ "drop 8 v"] exI [of _ "tl (u_readybuf s)"]) simp
qed

lemma udp_put_body_eq:
  "length tail = length bs \<Longrightarrow> u_sendbuf s = q @ [enc_header k n @ tail] \<Longrightarrow>
   udp_put_body bs s = (s\<lparr>u_sendbuf := q @ [enc_header k n @ bs]\<rparr>, Ok ())"
  by (simp add: udp_put_body_def Let_def splice_at_def)

text \<open>An accepted message is one packet, of its frame; a refused one leaves the queues alone.\<close>

lemma udp_queueSend_raw_cases:
  assumes "base_ok s" and "send_blocks s k = Some b" and "msg_fits bs"
  shows "(\<exists>e. udp_queueSend_raw k bs s = (s, Throw e)) \<or>
    (\<exists>t. udp_queueSend_raw k bs s = (t, Ok ()) \<and> base_ok t \<and> connected t = connected s \<and>
       u_sendbuf t = u_sendbuf s @ [frame k bs] \<and> u_txbuf t = u_txbuf s \<and>
       length (u_readybuf t) \<le> length (u_readybuf s) \<and> length (u_sendbuf s) < 64)"
proof -
  let ?n = "of_nat (length bs) :: u32"
  have u: "unat ?n = length bs" "unat (8 + ?n) = 8 + unat ?n"
    using unat_len [OF assms(3)] unat_len8 [OF assms(3)] by simp_all
  have b: "code b = k" using assms(1,2) blocks_okD [of "send_blocks s"] by (simp add: base_ok_def)
  from udp_queueHeader_cases [OF assms(2) b u(2)] show ?thesis
  proof (elim disjE exE conjE)
    assume "udp_queueHeader k ?n s = (s, Throw (RuntimeError ''UDP send queue limit exceeded''))"
    then show ?thesis by (simp add: udp_queueSend_raw_def)
  next
    fix tail ready
    let ?s1 = "s\<lparr>u_sendbuf := u_sendbuf s @ [enc_header k ?n @ tail], u_readybuf := ready\<rparr>"
    let ?s2 = "?s1\<lparr>u_sendbuf := u_sendbuf s @ [enc_header k ?n @ bs]\<rparr>"
    assume h: "udp_queueHeader k ?n s = (?s1, Ok ())" and l: "length tail = unat ?n"
      and r: "length ready \<le> length (u_readybuf s)" "length (u_sendbuf s) < 64"
    have "udp_put_body bs ?s1 = (?s2, Ok ())"
      using l u(1) by (intro udp_put_body_eq) simp_all
    then have q: "udp_queueSend_raw k bs s = (upd_send k mark_queued ?s2, Ok ())"
      using h l u by (simp add: udp_queueSend_raw_def)
    have "base_ok (upd_send k mark_queued ?s2)"
      using assms(1) by (intro base_ok_upd_send) (simp_all add: base_ok_def)
    then show ?thesis using q r by (simp add: frame_def)
  qed
qed

lemma udp_queueSend_id_cases:
  assumes "base_ok s" and "msg_fits bs"
  shows "(\<exists>e. udp_queueSend_id k bs s = (getSend k s, Throw e)) \<or>
    (\<exists>t. udp_queueSend_id k bs s = (t, Ok ()) \<and> base_ok t \<and> connected t = connected s \<and>
       u_sendbuf t = u_sendbuf s @ [frame k bs] \<and> u_txbuf t = u_txbuf s \<and>
       length (u_readybuf t) \<le> length (u_readybuf s) \<and> length (u_sendbuf s) < 64)"
proof -
  obtain b where "send_blocks (getSend k s) k = Some b" using getSend_block [of k s] by blast
  from udp_queueSend_raw_cases [OF base_ok_getSend [OF assms(1)] this assms(2)] show ?thesis
    by (auto simp: udp_queueSend_id_def)
qed

lemma udp_add_tx_sel:
  "udp_add_tx env s = (t, r) \<Longrightarrow>
   u_sendbuf t = u_sendbuf s \<and> u_txbuf t = u_txbuf s \<and> u_readybuf t = u_readybuf s \<and>
   connected t = connected s \<and> send_blocks t = send_blocks s \<and> recv_blocks t = recv_blocks s \<and>
   \<not> crashed r"
  by (auto simp: udp_add_tx_def Let_def split: if_splits)

lemma udp_flushSend_ok:
  assumes "udp_sender s" and "udp_flushSend env s = (t, Ok ())"
  shows "udp_sender t \<and> u_sendbuf t = [] \<and> u_txbuf t = u_txbuf s @ u_sendbuf s \<and>
    send_blocks t = clear_queued (send_blocks s)"
proof -
  let ?s = "s\<lparr>u_txbuf := u_txbuf s @ u_sendbuf s, u_sendbuf := [],
    send_blocks := clear_queued (send_blocks s)\<rparr>"
  have "udp_add_tx env ?s = (t, Ok ())"
    using assms by (auto simp: udp_flushSend_def udp_sender_def split: if_splits)
  from udp_add_tx_sel [OF this] show ?thesis
    using assms(1) by (simp add: udp_sender_def base_ok_def)
qed

interpretation udp: psc_transport udp_sender udp_pending udp_wire udp_queueSend_id "udp_flushSend env"
  for env :: "('w, 'x) udp_env_scheme"
proof unfold_locales
  fix s t :: "'w udp" and bs k
  assume a: "udp_sender s" "msg_fits bs"
  then have s: "base_ok s" by (simp add: udp_sender_def)
  show "udp_sender t \<and> udp_pending t = udp_pending s @ frame k bs \<and> udp_wire t = udp_wire s"
    if "udp_queueSend_id k bs s = (t, Ok ())"
    using udp_queueSend_id_cases [OF s a(2), of k] that a(1)
    by (auto simp: udp_sender_def udp_pending_def udp_wire_def)
  show "udp_sender t \<and> udp_pending t = udp_pending s \<and> udp_wire t = udp_wire s"
    if "udp_queueSend_id k bs s = (t, Throw e)" for e
    using udp_queueSend_id_cases [OF s a(2), of k] that a(1)
    by (auto simp: udp_sender_def udp_pending_def udp_wire_def base_ok_getSend)
  show "\<not> crashed (snd (udp_queueSend_id k bs s))"
    using udp_queueSend_id_cases [OF s a(2), of k] by auto
next
  fix s t :: "'w udp"
  assume "udp_sender s" "udp_flushSend env s = (t, Ok ())"
  then show "udp_sender t \<and> udp_pending t = [] \<and> udp_wire t = udp_wire s @ udp_pending s"
    using udp_flushSend_ok by (fastforce simp: udp_pending_def udp_wire_def)
qed

interpretation udp_drv: psc_driver udp_sender udp_pending udp_wire udp_queueSend_id "udp_flushSend env"
    udp_queueSend_raw
  for env :: "('w, 'x) udp_env_scheme"
proof unfold_locales
  fix s :: "'w udp" and k f
  assume "udp_sender s" and f: "\<And>b. block_ok k b \<Longrightarrow> block_ok k (f b)"
  then show "udp_sender (upd_send k f s) \<and> udp_pending (upd_send k f s) = udp_pending s \<and>
      udp_wire (upd_send k f s) = udp_wire s"
    using base_ok_upd_send [of s k f] by (simp add: udp_sender_def udp_pending_def udp_wire_def upd_send_def)
qed (auto simp: udp_sender_def udp_queueSend_id_def getSend_def)

text \<open>Sending the cached content is sending its bytes, when libevent keeps its promises.\<close>

lemma udp_queueSend_buf_eq:
  assumes "evbuffer_lawful (api env)" and "dbuffer_ok d" and "msg_fits (dbytes d)"
  shows "udp_queueSend_buf env k d s = udp_queueSend_raw k (dbytes d) s"
proof -
  let ?n = "length (dbytes d)"
  have sz: "dbuffer_size (api env) d = ?n" by (rule dbuffer_size_eq [OF assms(1)])
  have u: "unat (8 + of_nat ?n :: u32) = 8 + ?n" by (rule unat_len8 [OF assms(3)])
  have "\<exists>ok. dbuffer_copyout (api env) d 0 ?n = Ok (ok, dbytes d)"
  proof (cases "dbytes d = []")
    case True
    then show ?thesis
      using copyout_shape_none [OF assms(1), of 1 d 0] by (auto simp: dbuffer_copyout_def)
  next
    case False
    then show ?thesis
      using copyout_eq [OF assms(1,2), of ?n 0] assms(3) by (auto simp: msg_fits_def)
  qed
  then show ?thesis
    by (auto simp: udp_queueSend_buf_def udp_queueSend_raw_def sz u Let_def
        split: prod.splits outcome.splits)
qed

definition udp_ready :: "('w, 'x) udp_env_scheme \<Rightarrow> 'w udp \<Rightarrow> bool" where
  "udp_ready env s \<longleftrightarrow> evbuffer_lawful (api env) \<and> udp_sender s"

interpretation udp_set: psc_settings "udp_ready env" udp_pending udp_wire udp_queueSend_id "udp_flushSend env"
    udp_queueSend_raw "udp_queueSend_buf env"
  for env :: "('w, 'x) udp_env_scheme"
proof unfold_locales
  fix s t :: "'w udp" and bs k
  assume a: "udp_ready env s"
  note u = a [unfolded udp_ready_def]
  show "udp_ready env t \<and> udp_pending t = udp_pending s @ frame k bs \<and> udp_wire t = udp_wire s"
    if "msg_fits bs" "udp_queueSend_id k bs s = (t, Ok ())"
    using u udp.queue_ok [OF _ that] by (simp add: udp_ready_def)
  show "udp_ready env t \<and> udp_pending t = udp_pending s \<and> udp_wire t = udp_wire s"
    if "msg_fits bs" "udp_queueSend_id k bs s = (t, Throw e)" for e
    using u udp.queue_refused [OF _ that] by (simp add: udp_ready_def)
  show "\<not> crashed (snd (udp_queueSend_id k bs s))" if "msg_fits bs"
    using udp.queue_safe [OF conjunct2 [OF u] that] .
  show "udp_ready env t \<and> udp_pending t = [] \<and> udp_wire t = udp_wire s @ udp_pending s"
    if "udp_flushSend env s = (t, Ok ())"
    using u udp.flush_ok [OF _ that] by (simp add: udp_ready_def)
  show "connected s" "base_ok s" using u by (simp_all add: udp_sender_def)
  show "udp_ready env (upd_send k f s) \<and> udp_pending (upd_send k f s) = udp_pending s \<and>
      udp_wire (upd_send k f s) = udp_wire s" if "\<And>b. block_ok k b \<Longrightarrow> block_ok k (f b)" for f
    using u udp_drv.cache_kept [of s k f] that by (simp add: udp_ready_def)
next
  fix s :: "'w udp" and k b
  assume a: "udp_ready env s" "send_blocks s k = Some b" "msg_fits (dbytes (data b))"
  then have s: "base_ok s" "udp_sender s" "evbuffer_lawful (api env)"
    by (simp_all add: udp_ready_def udp_sender_def)
  then have "dbuffer_ok (data b)" using a(2) blocks_okD [of "send_blocks s"] by (simp add: base_ok_def)
  then have "udp_queueSend_buf env k (data b) s = udp_queueSend_raw k (dbytes (data b)) s"
    by (rule udp_queueSend_buf_eq [OF s(3) _ a(3)])
  then show "(\<exists>t. udp_queueSend_buf env k (data b) s = (t, Ok ()) \<and> udp_ready env t \<and> udp_wire t = udp_wire s \<and>
      udp_pending t = udp_pending s @ frame k (dbytes (data b))) \<or>
    (\<exists>e. udp_queueSend_buf env k (data b) s = (s, Throw e))"
    using udp_queueSend_raw_cases [OF s(1) a(2,3)] a(1)
    by (auto simp: udp_ready_def udp_sender_def udp_pending_def udp_wire_def)
qed (auto simp: udp_queueSend_id_def getSend_def)

section \<open>Bounds of the queues\<close>

definition udp_bounded :: "'w udp \<Rightarrow> bool" where
  "udp_bounded s \<longleftrightarrow>
     length (u_sendbuf s) \<le> 64 \<and> length (u_txbuf s) \<le> 127 \<and> length (u_readybuf s) \<le> 64"

lemma udp_queueHeader_bounded:
  "udp_bounded s \<Longrightarrow> udp_queueHeader k n s = (t, r) \<Longrightarrow> udp_bounded t"
  by (auto simp: udp_queueHeader_def udp_bounded_def Let_def split: if_splits list.splits option.splits)

lemma udp_put_body_bounded:
  assumes "udp_put_body bs s = (t, r)" and "u_sendbuf s \<noteq> []"
  shows "udp_bounded t = udp_bounded s"
  using assms by (auto simp: udp_put_body_def udp_bounded_def Let_def split: if_splits)

lemma udp_queueHeader_nonempty: "udp_queueHeader k n s = (t, Ok ()) \<Longrightarrow> u_sendbuf t \<noteq> []"
  by (auto simp: udp_queueHeader_def Let_def split: if_splits list.splits option.splits)

lemma udp_bounded_upd [simp]:
  "udp_bounded (upd_send k f s) = udp_bounded s" "udp_bounded (getSend k s) = udp_bounded s"
  "udp_bounded (emit c s) = udp_bounded s" "udp_bounded (s\<lparr>connected := c'\<rparr>) = udp_bounded s"
  "udp_bounded (s\<lparr>calls := n\<rparr>) = udp_bounded s"
  by (simp_all add: udp_bounded_def)

lemma udp_queueSend_raw_bounded:
  assumes "udp_bounded s" and "udp_queueSend_raw k bs s = (t, r)"
  shows "udp_bounded t"
proof -
  obtain s1 r1 where h: "udp_queueHeader k (of_nat (length bs)) s = (s1, r1)"
    by (cases "udp_queueHeader k (of_nat (length bs)) s")
  have s1: "udp_bounded s1" by (rule udp_queueHeader_bounded [OF assms(1) h])
  show ?thesis
  proof (cases r1)
    case (Ok u)
    obtain s2 r2 where p: "udp_put_body bs s1 = (s2, r2)" by (cases "udp_put_body bs s1")
    have "udp_bounded s2"
      using udp_put_body_bounded [OF p] udp_queueHeader_nonempty [of k _ s s1] h Ok s1 by auto
    then show ?thesis
      using assms(2) h Ok p s1 by (cases r2) (auto simp: udp_queueSend_raw_def split: if_splits)
  qed (use assms(2) h s1 in \<open>auto simp: udp_queueSend_raw_def\<close>)
qed

lemma udp_queueSend_buf_bounded:
  assumes "udp_bounded s" and "udp_queueSend_buf env k d s = (t, r)"
  shows "udp_bounded t"
proof -
  let ?n = "dbuffer_size (api env) d"
  obtain s1 r1 where h: "udp_queueHeader k (of_nat ?n) s = (s1, r1)"
    by (cases "udp_queueHeader k (of_nat ?n) s")
  have s1: "udp_bounded s1" by (rule udp_queueHeader_bounded [OF assms(1) h])
  show ?thesis
  proof (cases "r1 = Ok () \<and> (\<exists>x. dbuffer_copyout (api env) d 0 ?n = Ok x)")
    case True
    then obtain b bs where c: "dbuffer_copyout (api env) d 0 ?n = Ok (b, bs)" by auto
    obtain s2 r2 where p: "udp_put_body bs s1 = (s2, r2)" by (cases "udp_put_body bs s1")
    have "udp_bounded s2"
      using udp_put_body_bounded [OF p] udp_queueHeader_nonempty [of k _ s s1] h True s1 by auto
    then show ?thesis
      using assms(2) h True p s1 c
      by (cases r2) (auto simp: udp_queueSend_buf_def Let_def split: if_splits)
  next
    case False
    then show ?thesis
      using assms(2) h s1
      by (cases r1) (auto simp: udp_queueSend_buf_def Let_def split: if_splits outcome.splits)
  qed
qed

lemma udp_flushSend_bounded:
  assumes "udp_bounded s" and "udp_flushSend env s = (t, r)"
  shows "udp_bounded t"
proof (cases "\<not> connected s \<or> 64 \<le> length (u_txbuf s)")
  case True
  then show ?thesis using assms by (auto simp: udp_flushSend_def split: if_splits)
next
  case False
  then show ?thesis
    using assms udp_add_tx_sel [of env _ t r] by (fastforce simp: udp_flushSend_def udp_bounded_def)
qed

lemma udp_client_call_bounded:
  assumes "udp_bounded s" and "udp_client_call env c s = (t, r)"
  shows "udp_bounded t"
proof (cases c)
  case (CSend k)
  then show ?thesis
    using assms udp_queueSend_buf_bounded by (cases "send_blocks s k") (auto simp: psc_send_def)
next
  case (CQueue k bs)
  then show ?thesis
    using assms udp_queueSend_raw_bounded [of "getSend k s"] by (simp add: udp_queueSend_id_def)
qed (use assms udp_flushSend_bounded in \<open>auto simp: udp_forceReConnect_def\<close>)

lemma udp_client_run_bounded:
  "udp_bounded s \<Longrightarrow> udp_client_run env cs s = (t, r) \<Longrightarrow> udp_bounded t"
proof (induction cs arbitrary: s)
  case (Cons c cs)
  obtain s1 r1 where c: "udp_client_call env c s = (s1, r1)" by (cases "udp_client_call env c s")
  have "udp_bounded s1" by (rule udp_client_call_bounded [OF Cons.prems(1) c])
  then show ?case using Cons.IH [of s1] Cons.prems(2) c by (cases r1) auto
qed simp

lemma udp_process_all_bounded:
  "udp_bounded s \<Longrightarrow> udp_process_all env rs s = (t, r) \<Longrightarrow> udp_bounded t"
proof (induction rs arbitrary: s)
  case (Cons x rs)
  let ?c = "udp_client_run env (dbProcess env x (u_world s)) (emit (IoProcess x) s)"
  obtain s1 r1 where c: "?c = (s1, r1)" by (cases ?c)
  have "udp_bounded s1" using udp_client_run_bounded [OF _ c] Cons.prems(1) by simp
  then show ?case using Cons.IH [of s1] Cons.prems(2) c by (cases r1) auto
qed simp

section \<open>The send loop\<close>

abbreviation after_sendto :: "byte list \<Rightarrow> 'w udp \<Rightarrow> 'w udp" where
  "after_sendto p s \<equiv> (emit (IoSendto p) s)\<lparr>calls := Suc (calls s)\<rparr>"

lemma udp_send_loop_empty: "u_txbuf s = [] \<Longrightarrow> udp_send_loop env b s = (s, b)"
  by (subst udp_send_loop.simps) simp

lemma udp_send_loop_sent:
  "u_txbuf s = p # rest \<Longrightarrow> sendto env (calls s) p = TxSent n \<Longrightarrow>
   udp_send_loop env b s = udp_send_loop env (b \<or> length p \<noteq> n) (udp_sent p rest n (after_sendto p s))"
  by (subst udp_send_loop.simps) (simp add: Let_def)

lemma udp_send_loop_bounded:
  "udp_bounded s \<Longrightarrow> udp_bounded (fst (udp_send_loop env scanme s))"
proof (induction env scanme s rule: udp_send_loop.induct)
  case (1 env scanme s)
  show ?case
  proof (cases "u_txbuf s")
    case Nil
    then show ?thesis using "1.prems" by (simp add: udp_send_loop_empty)
  next
    case (Cons p rest)
    show ?thesis
    proof (cases "sendto env (calls s) p")
      case (TxSent n)
      have "udp_bounded (udp_sent p rest n (after_sendto p s))"
        using "1.prems" Cons by (auto simp: udp_bounded_def udp_sent_sel)
      then show ?thesis
        using "1.IH" [OF Cons refl TxSent] udp_send_loop_sent [of s p rest env n scanme] Cons TxSent
        by simp
    next
      case TxAgain
      then show ?thesis
        using "1.prems" Cons by (subst udp_send_loop.simps) (simp add: udp_bounded_def)
    next
      case (TxError err)
      then show ?thesis
        using "1.prems" Cons by (subst udp_send_loop.simps) (simp add: udp_bounded_def)
    qed
  qed
qed

lemma udp_senddata_bounded:
  assumes "udp_bounded s" and "udp_senddata env evt s = (t, r)"
  shows "udp_bounded t"
proof -
  let ?x = "if evt AND EV_WRITE \<noteq> 0 then udp_send_loop env False s else (s, False)"
  obtain s1 scanme where x: "?x = (s1, scanme)" by (cases ?x)
  have s1: "udp_bounded s1"
    using x udp_send_loop_bounded [OF assms(1), of env False] assms(1) by (auto split: if_splits)
  let ?y = "if u_txbuf s1 \<noteq> [] then udp_add_tx env s1 else (s1, Ok ())"
  obtain s2 r2 where y: "?y = (s2, r2)" by (cases ?y)
  have "udp_bounded s2"
    using y s1 udp_add_tx_sel [of env s1 s2 r2] by (auto simp: udp_bounded_def split: if_splits)
  then show ?thesis
    using assms(2) x y unfolding udp_senddata_def
    by (cases r2; cases scanme) (auto simp: Let_def)
qed

text \<open>Receiving does not touch the queues of the sender.\<close>

lemma udp_packet_queues:
  "udp_packet env a pkt s = (t, b, r) \<Longrightarrow> udp_bounded t = udp_bounded s"
  by (auto simp: udp_packet_def udp_deliver_def udp_bounded_def rx_store_def Let_def
      split: if_splits option.splits prod.splits)

lemma udp_recv_loop_queues:
  "udp_recv_loop env ps scanme s = (t, b, r) \<Longrightarrow> udp_bounded t = udp_bounded s"
proof (induction env ps scanme s arbitrary: t b r rule: udp_recv_loop.induct)
  case (4 env a pkt ps scanme s)
  obtain s1 c r1 where p: "udp_packet env a pkt s = (s1, c, r1)" by (metis prod_cases3)
  then show ?case
    using "4.IH" [OF p [symmetric] refl] "4.prems" udp_packet_queues [OF p] by (cases r1) auto
qed (auto simp: udp_bounded_def)

lemma udp_recvdata_bounded:
  assumes "udp_bounded s" and "udp_recvdata env evt ps s = (t, r)"
  shows "udp_bounded t"
proof -
  obtain s1 b r1 where l: "udp_recv_loop env ps False s = (s1, b, r1)" by (metis prod_cases3)
  then have "udp_bounded s1" using assms(1) udp_recv_loop_queues by blast
  then show ?thesis
    using assms l by (cases r1; cases b) (auto simp: udp_recvdata_def udp_bounded_def split: if_splits)
qed

inductive udp_step :: "('w, 'x) udp_env_scheme \<Rightarrow> 'w udp \<Rightarrow> 'w udp \<times> unit outcome \<Rightarrow> bool" for env where
  client: "udp_step env s (udp_client_call env c s)"
| connect: "udp_step env s (udp_connect env s)"
| writable: "udp_step env s (ev_send env evt s)"
| readable: "udp_step env s (ev_recv env evt ps s)"

inductive udp_reach :: "('w, 'x) udp_env_scheme \<Rightarrow> 'w udp \<Rightarrow> 'w udp \<Rightarrow> bool" for env s0 where
  start: "udp_reach env s0 s0"
| step: "udp_reach env s0 s \<Longrightarrow> udp_step env s (t, r) \<Longrightarrow> udp_reach env s0 t"

lemma logged_fst: "fst (logged x) = fst x"
  by (auto simp: logged_def split: prod.splits outcome.splits)

lemma udp_step_bounded: "udp_step env s x \<Longrightarrow> udp_bounded s \<Longrightarrow> udp_bounded (fst x)"
proof (induction rule: udp_step.induct)
  case (client s c)
  then show ?case by (metis udp_client_call_bounded prod.collapse)
next
  case (connect s)
  obtain t r where c: "udp_connect env s = (t, r)" by (cases "udp_connect env s")
  let ?s = "emit IoOnConnect (emit (IoAddRx 5) s\<lparr>calls := Suc (calls s), connected := True\<rparr>)"
  have "udp_bounded ?s" using connect by simp
  then have "udp_bounded t"
    using c connect udp_process_all_bounded [of ?s env "procOnConnect s" t r]
    by (auto simp: udp_connect_def Let_def split: if_splits)
  then show ?case using c by simp
next
  case (writable s evt)
  then show ?case unfolding ev_send_def logged_fst by (metis udp_senddata_bounded prod.collapse)
next
  case (readable s evt ps)
  then show ?case unfolding ev_recv_def logged_fst by (metis udp_recvdata_bounded prod.collapse)
qed

section \<open>Properties\<close>


text \<open>
  C25: the queues of the UDP driver are bounded whatever device supports and the network do:
  at most 64 packets wait for a flush, 127 for the socket, and 64 buffers are kept for
  reuse.
\<close>

theorem udp_queue_bounds:
  assumes "u_sendbuf s0 = []" and "u_txbuf s0 = []" and "u_readybuf s0 = []" and "udp_reach env s0 s"
  shows "length (u_sendbuf s) \<le> 64 \<and> length (u_txbuf s) \<le> 127 \<and> length (u_readybuf s) \<le> 64"
proof -
  have "udp_bounded s"
    using assms(4)
  proof (induction rule: udp_reach.induct)
    case start
    then show ?case using assms(1-3) by (simp add: udp_bounded_def)
  next
    case (step s t r)
    then show ?case using udp_step_bounded by fastforce
  qed
  then show ?thesis by (simp add: udp_bounded_def)
qed

theorem udp_queue_bounds_witness:
  "length (u_sendbuf (fst (udp_queueSend_id 7 [5] demo_udp))) \<le> 64"
proof -
  obtain t r where q: "udp_client_call demo_udp_env (CQueue 7 [5]) demo_udp = (t, r)"
    by (cases "udp_client_call demo_udp_env (CQueue 7 [5]) demo_udp")
  then have "udp_reach demo_udp_env demo_udp t"
    by (metis udp_reach.intros udp_step.client)
  then show ?thesis
    using udp_queue_bounds [of demo_udp demo_udp_env t] q by simp
qed

text \<open>
  as long as the free list has room for all buffers, a writable socket that takes every
  packet is sent each waiting packet exactly once, in order, and the queue is empty after.
\<close>

theorem udp_send_each_once:
  assumes "\<forall>n p. sendto env n p = TxSent (length p)"
    and "length (u_readybuf s) + length (u_txbuf s) \<le> 64"
  shows "\<exists>t. udp_senddata env EV_WRITE s = (t, Ok ()) \<and> u_txbuf t = [] \<and>
    io t = io s @ map IoSendto (u_txbuf s)"
proof -
  have "\<exists>t. udp_send_loop env False s = (t, False) \<and> u_txbuf t = [] \<and>
      io t = io s @ map IoSendto (u_txbuf s)"
    using assms(2)
  proof (induction "u_txbuf s" arbitrary: s)
    case Nil
    then show ?case by (simp add: udp_send_loop_empty)
  next
    case (Cons p rest)
    let ?s = "udp_sent p rest (length p) (after_sendto p s)"
    have "length (u_readybuf s) < 64" using Cons.prems by (simp flip: Cons.hyps(2))
    then have s: "u_txbuf ?s = rest" "io ?s = io s @ [IoSendto p]"
      "length (u_readybuf ?s) + length (u_txbuf ?s) \<le> 64"
      using Cons.prems by (simp_all add: udp_sent_sel flip: Cons.hyps(2))
    have "udp_send_loop env False s = udp_send_loop env False ?s"
      using udp_send_loop_sent [of s p rest env "length p" False] assms(1) Cons.hyps(2) by simp
    then show ?case
      using Cons.hyps(1) [of ?s] s by (auto simp flip: Cons.hyps(2))
  qed
  then show ?thesis by (auto simp: udp_senddata_def)
qed

theorem udp_send_each_once_witness:
  "\<exists>t. udp_senddata demo_udp_env EV_WRITE (demo_udp\<lparr>u_txbuf := [[1], [2]]\<rparr>) = (t, Ok ()) \<and>
     io t = [IoSendto [1], IoSendto [2]]"
  using udp_send_each_once [of demo_udp_env "demo_udp\<lparr>u_txbuf := [[1], [2]]\<rparr>"]
  by (auto simp: demo_udp_env_def)

text \<open>
  once the free list holds 64 buffers, a packet is sent twice. The loop then drops a
  buffer of the free list instead of the packet it has just sent, and comes back to the
  same packet.
\<close>

theorem udp_send_twice:
  assumes "\<forall>n p. sendto env n p = TxSent (length p)"
    and "u_txbuf s = p # rest" and "length (u_readybuf s) = 64"
  shows "\<exists>t. udp_send_loop env False s = udp_send_loop env False t \<and> u_txbuf t = rest \<and>
    io t = io s @ [IoSendto p, IoSendto p] \<and> length (u_readybuf t) = 64"
proof -
  let ?s = "udp_sent p rest (length p) (after_sendto p s)"
  let ?t = "udp_sent p rest (length p) (after_sendto p ?s)"
  have s: "u_txbuf ?s = p # rest" "length (u_readybuf ?s) = 63" "io ?s = io s @ [IoSendto p]"
    using assms(2,3) by (simp_all add: udp_sent_sel)
  have "udp_send_loop env False s = udp_send_loop env False ?s"
    using udp_send_loop_sent [of s p rest env "length p" False] assms(1,2) by simp
  also have "\<dots> = udp_send_loop env False ?t"
    using udp_send_loop_sent [of ?s p rest env "length p" False] assms(1) s(1) by simp
  finally have "udp_send_loop env False s = udp_send_loop env False ?t" .
  moreover have "u_txbuf ?t = rest" "io ?t = io s @ [IoSendto p, IoSendto p]" "length (u_readybuf ?t) = 64"
    using s udp_sent_sel [of p rest "length p" "after_sendto p ?s"] by simp_all
  ultimately show ?thesis by blast
qed

theorem udp_send_twice_witness:
  "\<exists>t. udp_send_loop demo_udp_env False
       (demo_udp\<lparr>u_txbuf := [[1]], u_readybuf := replicate 64 []\<rparr>) =
       udp_send_loop demo_udp_env False t \<and> u_txbuf t = [] \<and> io t = [IoSendto [1], IoSendto [1]]"
  using udp_send_twice [of demo_udp_env "demo_udp\<lparr>u_txbuf := [[1]], u_readybuf := replicate 64 []\<rparr>" "[1]" "[]"]
  by (auto simp: demo_udp_env_def)



end
