(* ===== verification/Event_Base.thy ===== *)
theory Event_Base
  imports Psc_Prelude
begin

text \<open>
  The thread that runs the event loop of libevent (class \<open>EventBase\<close>, coreApp/src/psc/evbase.h, evbase.cpp). All
  drivers share one, as long as any of them exists.

  The functions that another thread has put into the loop are pending until the loop gets to them; \<open>call\<close> runs one of
  them, named by a number. The timer that keeps the loop busy is armed or not.
\<close>

record event_base =
  eb_running :: bool
  eb_keepalive :: bool
  eb_pending :: "nat list"

text \<open>\<open>ok\<close>: libevent makes a base and a timer. The thread is started at once.\<close>

definition EventBase_new :: "bool \<Rightarrow> event_base outcome" where
  "EventBase_new ok =
     (if \<not> ok then Throw BadAlloc else Ok \<lparr>eb_running = True, eb_keepalive = False, eb_pending = []\<rparr>)"

text \<open>The base that exists, or a new one.\<close>

definition makeBase :: "bool \<Rightarrow> event_base option \<Rightarrow> event_base outcome" where
  "makeBase ok last_base = (case last_base of Some b \<Rightarrow> Ok b | None \<Rightarrow> EventBase_new ok)"

definition event_base_once :: "nat \<Rightarrow> event_base \<Rightarrow> event_base" where
  "event_base_once i b = b\<lparr>eb_pending := eb_pending b @ [i]\<rparr>"

definition keepalive_cb :: "event_base \<Rightarrow> event_base" where
  "keepalive_cb b = b\<lparr>eb_keepalive := True\<rparr>"

text \<open>The loop runs what is pending, in order.\<close>

fun run_pending :: "(nat \<Rightarrow> 's \<Rightarrow> 's \<times> unit outcome) \<Rightarrow> nat list \<Rightarrow> 's \<Rightarrow> 's \<times> unit outcome" where
  "run_pending call [] s = (s, Ok ())"
| "run_pending call (i # is) s =
     (case call i s of
        (t, Ok _) \<Rightarrow> run_pending call is t
      | (t, r) \<Rightarrow> (t, r))"

text \<open>The thread: up to the loop, and from there to its end.\<close>

definition run_enter :: "event_base \<Rightarrow> event_base" where
  "run_enter b = b\<lparr>eb_keepalive := True\<rparr>"

definition run_leave ::
  "(nat \<Rightarrow> 's \<Rightarrow> 's \<times> unit outcome) \<Rightarrow> event_base \<Rightarrow> 's \<Rightarrow> event_base \<times> 's \<times> unit outcome" where
  "run_leave call b s =
     (case run_pending call (eb_pending b) s of
        (t, Ok _) \<Rightarrow> (b\<lparr>eb_pending := [], eb_keepalive := False, eb_running := False\<rparr>, t, Ok ())
      | (t, r) \<Rightarrow> (b, t, r))"

text \<open>\<open>stop\<close> tells the loop to exit and waits for the end of the thread, if it runs.\<close>

definition eb_stop ::
  "(nat \<Rightarrow> 's \<Rightarrow> 's \<times> unit outcome) \<Rightarrow> event_base \<Rightarrow> 's \<Rightarrow> event_base \<times> 's \<times> unit outcome" where
  "eb_stop call b s = (if \<not> eb_running b then (b, s, Ok ()) else run_leave call b s)"

lemma eb_stop_first:
  assumes "eb_running b" and "eb_pending b = []" and "call i s = (t, Ok ())"
  shows "eb_stop call (event_base_once i b) s = (b\<lparr>eb_pending := [], eb_keepalive := False, eb_running := False\<rparr>, t, Ok ())"
  using assms by (simp add: eb_stop_def run_leave_def event_base_once_def)

lemma eb_stop_later:
  "\<not> eb_running b \<Longrightarrow> eb_stop call (event_base_once i b) s = (event_base_once i b, s, Ok ())"
  by (simp add: eb_stop_def event_base_once_def)

end
