(* ===== verification/Dev_Common.thy ===== *)
theory Dev_Common
  imports Complex_Main Psc_Base
begin

text \<open>
  What the device supports share (coreApp/src/psc/devcommon.h, devcommon.cpp): byte order
  conversion, the linear conversion of analog records, parsing of links, record time
  stamps, and the mapping of exceptions to alarms.

  The byte order of the host is the parameter \<open>le\<close> (true for little endian). A value of any
  type is handled as its memory image, the list of its bytes in host order.
\<close>

section \<open>Byte order\<close>

definition host_order :: "bool \<Rightarrow> byte list \<Rightarrow> byte list" where
  "host_order le bs = (if le then rev bs else bs)"

text \<open>The memory images of integers, and the integers of memory images.\<close>

definition host16 :: "bool \<Rightarrow> u16 \<Rightarrow> byte list" where "host16 le w = host_order le (be16 w)"
definition host32 :: "bool \<Rightarrow> u32 \<Rightarrow> byte list" where "host32 le w = host_order le (be32 w)"
definition host64 :: "bool \<Rightarrow> u64 \<Rightarrow> byte list" where "host64 le w = host_order le (be64 w)"
definition unhost16 :: "bool \<Rightarrow> byte list \<Rightarrow> u16" where "unhost16 le bs = unbe16 (host_order le bs)"
definition unhost32 :: "bool \<Rightarrow> byte list \<Rightarrow> u32" where "unhost32 le bs = unbe32 (host_order le bs)"
definition unhost64 :: "bool \<Rightarrow> byte list \<Rightarrow> u64" where "unhost64 le bs = unbe64 (host_order le bs)"

definition htons :: "bool \<Rightarrow> u16 \<Rightarrow> u16" where "htons le w = unhost16 le (be16 w)"
definition htonl :: "bool \<Rightarrow> u32 \<Rightarrow> u32" where "htonl le w = unhost32 le (be32 w)"

text \<open>\<open>nswap<8>\<close> swaps the two halves and converts each with \<open>htonl\<close>, whatever the host is.\<close>

definition nswap8 :: "bool \<Rightarrow> u64 \<Rightarrow> u64" where
  "nswap8 le x =
     (let h = ucast (drop_bit 32 x) :: u32; l = ucast x :: u32;
          out = push_bit 32 (ucast (htonl le l) :: u64)
      in out OR ucast (htonl le h))"

text \<open>\<open>hton\<close> for a type of 1, 2, 4 or 8 bytes, on memory images; \<open>ntoh\<close> is the same function.\<close>

definition hton :: "bool \<Rightarrow> byte list \<Rightarrow> byte list" where
  "hton le img =
     (if length img = 2 then host16 le (htons le (unhost16 le img))
      else if length img = 4 then host32 le (htonl le (unhost32 le img))
      else if length img = 8 then host64 le (nswap8 le (unhost64 le img))
      else img)"

definition ntoh :: "bool \<Rightarrow> byte list \<Rightarrow> byte list" where
  "ntoh le img = hton le img"

definition bytes2val :: "bool \<Rightarrow> nat \<Rightarrow> byte list \<Rightarrow> byte list" where
  "bytes2val le n bs = ntoh le (take n bs)"

lemma host_order_simps [simp]:
  "length (host_order le bs) = length bs" "host_order le (host_order le bs) = bs"
  "host_order False bs = bs" "host_order True bs = rev bs"
  by (simp_all add: host_order_def)

lemma host_sizes [simp]:
  "length (host16 le v) = 2" "length (host32 le w) = 4" "length (host64 le x) = 8"
  by (simp_all add: host16_def host32_def host64_def)

lemma unhost_host [simp]:
  "unhost16 le (host16 le v) = v" "unhost32 le (host32 le w) = w" "unhost64 le (host64 le x) = x"
  by (simp_all add: host16_def host32_def host64_def unhost16_def unhost32_def unhost64_def)

lemma host_unhost:
  "length bs = 2 \<Longrightarrow> host16 le (unhost16 le bs) = bs"
  "length bs = 4 \<Longrightarrow> host32 le (unhost32 le bs) = bs"
  "length bs = 8 \<Longrightarrow> host64 le (unhost64 le bs) = bs"
  by (simp_all add: host16_def host32_def host64_def unhost16_def unhost32_def unhost64_def
      be16_unbe16 be32_unbe32 be64_unbe64)

lemma host_htonl [simp]: "host32 le (htonl le w) = be32 w" "host16 le (htons le v) = be16 v"
  by (simp_all add: htonl_def htons_def host_unhost)

lemma be32_htonl: "be32 (htonl le w) = host_order le (be32 w)"
  by (simp add: htonl_def unhost32_def be32_unbe32)

lemma nswap8_cat: "nswap8 le x = cat64 (htonl le (ucast x)) (htonl le (ucast (drop_bit 32 x)))"
  by (simp add: nswap8_def cat64_def Let_def)

lemma be64_cat64: "be64 (cat64 a b) = be32 a @ be32 b"
  by (simp add: be64_def cat64_hi cat64_lo)

lemma length_hton [simp]: "length (hton le img) = length img"
  by (simp add: hton_def)

text \<open>On types of up to 4 bytes, and on little endian hosts, \<open>hton\<close> is the network order.\<close>

lemma hton_net:
  assumes "length img \<in> {1, 2, 4} \<or> length img = 8 \<and> le"
  shows "hton le img = host_order le img"
proof (cases "length img = 8")
  case True
  then have le: le using assms by simp
  define x where "x = unhost64 le img"
  have x: "be64 x = rev img"
    using True le by (simp add: x_def unhost64_def be64_unbe64)
  have "hton le img = host64 le (nswap8 le x)"
    using True by (simp add: hton_def x_def)
  also have "\<dots> = be64 x"
    unfolding nswap8_cat host64_def be64_cat64 be32_htonl using le by (simp add: be64_def)
  finally show ?thesis using x le by simp
next
  case False
  then consider "length img = 1" | "length img = 2" | "length img = 4" using assms by auto
  then show ?thesis
  proof cases
    case 1
    then obtain b where "img = [b]" by (auto simp: length_Suc_conv)
    then show ?thesis by (simp add: hton_def host_order_def)
  next
    case 2
    then show ?thesis by (simp add: hton_def unhost16_def be16_unbe16)
  next
    case 3
    then show ?thesis by (simp add: hton_def unhost32_def be32_unbe32)
  qed
qed

lemma hton_hton:
  assumes "length img \<in> {1, 2, 4, 8}"
  shows "hton le (hton le img) = img"
proof (cases "length img = 8 \<and> \<not> le")
  case True
  define x where "x = unhost64 le img"
  have "be64 (nswap8 le (nswap8 le x)) = be64 x"
    unfolding nswap8_cat be64_cat64 be32_htonl cat64_hi cat64_lo by (simp add: be64_def)
  then have "nswap8 le (nswap8 le x) = x" by (metis unbe64_be64)
  then show ?thesis using True by (simp add: hton_def x_def host_unhost)
next
  case False
  then show ?thesis using assms hton_net [of img le] hton_net [of "hton le img" le] by auto
qed

section \<open>Analog conversion\<close>

text \<open>
  The linear conversion of ai and ao records, in exact arithmetic. \<open>linear\<close> tells whether LINR
  is LINEAR or SLOPE.
\<close>

record 'f analog =
  roff :: 'f
  aslo :: 'f
  aoff :: 'f
  linear :: bool
  eoff :: 'f
  eslo :: 'f

definition analogRaw2EGU :: "'f::field analog \<Rightarrow> 'f \<Rightarrow> 'f" where
  "analogRaw2EGU a rval =
     (let v = rval + roff a;
          v = (if aslo a \<noteq> 0 then v * aslo a else v);
          v = v + aoff a
      in if linear a then (v + eoff a) * eslo a else v)"

definition analogEGU2Raw :: "'f::field analog \<Rightarrow> 'f \<Rightarrow> 'f" where
  "analogEGU2Raw a v =
     (let v = (if linear a then (v - eoff a) / eslo a else v);
          v = v - aoff a;
          v = (if aslo a \<noteq> 0 then v / aslo a else v)
      in v - roff a)"

lemma analog_back_forth:
  assumes "eslo a \<noteq> 0"
  shows "analogEGU2Raw a (analogRaw2EGU a r) =
    r + (if linear a then (eoff a - eoff a / eslo a) / (if aslo a \<noteq> 0 then aslo a else 1) else 0)"
  using assms by (simp add: analogEGU2Raw_def analogRaw2EGU_def Let_def field_simps)

section \<open>Links\<close>

text \<open>
  The input stream that a link is parsed from: what is left of the text, and the flags of
  the stream. An extraction from a stream that is not good fails; it skips white space; it
  sets the end flag when it reads up to the end of the text.
\<close>

record istream =
  chars :: string
  eofbit :: bool
  failbit :: bool

definition isspace :: "char \<Rightarrow> bool" where
  "isspace c \<longleftrightarrow> of_char c \<in> {9, 10, 11, 12, 13, 32 :: nat}"

definition isdigit :: "char \<Rightarrow> bool" where
  "isdigit c \<longleftrightarrow> 48 \<le> (of_char c :: nat) \<and> (of_char c :: nat) \<le> 57"

definition istream_new :: "string \<Rightarrow> istream" where
  "istream_new s = \<lparr>chars = s, eofbit = False, failbit = False\<rparr>"

text \<open>The sentry of an extraction: \<open>None\<close> if it fails.\<close>

definition sentry :: "istream \<Rightarrow> istream \<times> string option" where
  "sentry st =
     (if eofbit st \<or> failbit st then (st\<lparr>failbit := True\<rparr>, None)
      else case dropWhile isspace (chars st) of
          [] \<Rightarrow> (\<lparr>chars = [], eofbit = True, failbit = True\<rparr>, None)
        | cs \<Rightarrow> (st\<lparr>chars := cs\<rparr>, Some cs))"

definition extract_word :: "istream \<Rightarrow> istream \<times> string" where
  "extract_word st =
     (case sentry st of
        (st1, None) \<Rightarrow> (st1, [])
      | (st1, Some cs) \<Rightarrow>
          let w = takeWhile (\<lambda>c. \<not> isspace c) cs; rest = dropWhile (\<lambda>c. \<not> isspace c) cs
          in (\<lparr>chars = rest, eofbit = (rest = []), failbit = False\<rparr>, w))"

definition digits_val :: "string \<Rightarrow> nat" where
  "digits_val ds = foldl (\<lambda>n c. 10 * n + (of_char c - 48)) 0 ds"

text \<open>A number has an optional sign. The value is checked by the caller for its type.\<close>

definition extract_int :: "istream \<Rightarrow> istream \<times> int" where
  "extract_int st =
     (case sentry st of
        (st1, None) \<Rightarrow> (st1, 0)
      | (st1, Some cs) \<Rightarrow>
          let neg = (hd cs = CHR ''-'');
              body = (if hd cs = CHR ''-'' \<or> hd cs = CHR ''+'' then tl cs else cs);
              ds = takeWhile isdigit body; rest = dropWhile isdigit body
          in (\<lparr>chars = rest, eofbit = (rest = []), failbit = (ds = [])\<rparr>,
              if neg then - int (digits_val ds) else int (digits_val ds)))"

text \<open>
  Unsigned types of \<open>w\<close> bits take a negated number modulo \<open>2 ^ w\<close>; a number out of range
  fails.
\<close>

definition extract_unsigned :: "nat \<Rightarrow> istream \<Rightarrow> istream \<times> nat" where
  "extract_unsigned w st =
     (case extract_int st of (st1, n) \<Rightarrow>
        if \<bar>n\<bar> \<ge> 2 ^ w then (st1\<lparr>failbit := True\<rparr>, 2 ^ w - 1) else (st1, nat (n mod 2 ^ w)))"

definition extract_long :: "istream \<Rightarrow> istream \<times> int" where
  "extract_long st =
     (case extract_int st of (st1, n) \<Rightarrow>
        if n < - (2 ^ 63) then (st1\<lparr>failbit := True\<rparr>, - (2 ^ 63))
        else if n \<ge> 2 ^ 63 then (st1\<lparr>failbit := True\<rparr>, 2 ^ 63 - 1)
        else (st1, n))"

datatype blkptr = PRecv u16 | PSend u16 | PNull

record priv =
  p_bid :: u16
  p_block :: blkptr
  p_offset :: nat
  p_step :: int
  p_timeFromBlock :: bool
  p_tsoffset :: nat

text \<open>The text of a link: driver name, message number, and optional offset and step.\<close>

definition link_fields :: "string \<Rightarrow> (string \<times> nat \<times> nat \<times> int) outcome" where
  "link_fields link =
     (let (st1, nm) = extract_word (istream_new link);
          (st2, blk) = extract_unsigned 32 st1;
          (st3, ofs) = (if \<not> eofbit st2 then extract_unsigned 64 st2 else (st2, 0));
          (st4, stp) = (if \<not> eofbit st3 then extract_long st3 else (st3, 0))
      in if failbit st4 then Throw (RuntimeError ''Link parsing error'')
         else Ok (nm, blk, ofs, stp))"

text \<open>
  \<open>parse_link\<close> for the driver that the name stands for (\<open>found\<close>, if there is one). \<open>ts\<close> and
  \<open>onconn\<close> are what the info tags TimeFromBlock and SYNC of the record say: the parsed offset,
  if any, and whether SYNC is ProcOnConn; \<open>rp\<close> is the record.
\<close>

definition parse_link ::
  "(string \<Rightarrow> bool) \<Rightarrow> nat option \<Rightarrow> bool \<Rightarrow> rec_ptr \<Rightarrow> string \<Rightarrow> nat \<Rightarrow>
   'a psc_base_scheme \<Rightarrow> 'a psc_base_scheme \<times> priv outcome" where
  "parse_link found ts onconn rp link direction s =
     (case link_fields link of
        Ok (nm, blk, ofs, stp) \<Rightarrow>
          if \<not> found nm then (s, Throw (RuntimeError ''PSC name not known''))
          else
            let k = of_nat blk :: u16;
                (s1, ptr) = (if direction = 0 then (getRecv k s, PRecv k)
                             else if direction = 1 then (getSend k s, PSend k) else (s, PNull));
                s2 = (if onconn \<and> direction \<noteq> 0 then s1\<lparr>procOnConnect := procOnConnect s1 @ [rp]\<rparr> else s1)
            in (s2, Ok \<lparr>p_bid = k, p_block = ptr, p_offset = ofs, p_step = stp,
                        p_timeFromBlock = (ts \<noteq> None), p_tsoffset = (case ts of Some n \<Rightarrow> n | None \<Rightarrow> 0)\<rparr>)
      | Throw e \<Rightarrow> (s, Throw e)
      | Crash c \<Rightarrow> (s, Crash c))"

section \<open>Records\<close>

text \<open>What a device support touches of any record. Alarms are the calls of recGblSetSevr, in order.\<close>

record dev_rec =
  tse_device :: bool
  rec_time :: epics_time
  alarms :: "(nat \<times> nat) list"

abbreviation (input) READ_ALARM :: nat where "READ_ALARM \<equiv> 1"
abbreviation (input) WRITE_ALARM :: nat where "WRITE_ALARM \<equiv> 2"
abbreviation (input) SOFT_ALARM :: nat where "SOFT_ALARM \<equiv> 15"
abbreviation (input) UDF_ALARM :: nat where "UDF_ALARM \<equiv> 17"

definition recGblSetSevr :: "nat \<Rightarrow> nat \<Rightarrow> 'r dev_rec_scheme \<Rightarrow> 'r dev_rec_scheme" where
  "recGblSetSevr sts sevr r = r\<lparr>alarms := alarms r @ [(sts, sevr)]\<rparr>"

datatype dev_ret = DevOk | DevNoConvert | DevErr | DevBadRequest

text \<open>The handlers at the end of each entry point (macro \<open>CATCH\<close>).\<close>

definition CATCH ::
  "'r dev_rec_scheme \<times> 's \<times> dev_ret outcome \<Rightarrow> 'r dev_rec_scheme \<times> 's \<times> dev_ret outcome" where
  "CATCH x =
     (case x of
        (r, s, Throw (RecAlarm sts sevr)) \<Rightarrow> (recGblSetSevr sts sevr r, s, Ok DevBadRequest)
      | (r, s, Throw _) \<Rightarrow> (recGblSetSevr COMM_ALARM INVALID_ALARM r, s, Ok DevBadRequest)
      | (r, s, y) \<Rightarrow> (r, s, y))"

definition deref :: "blkptr \<Rightarrow> 'a psc_base_scheme \<Rightarrow> block option" where
  "deref p s =
     (case p of PRecv k \<Rightarrow> recv_blocks s k | PSend k \<Rightarrow> send_blocks s k | PNull \<Rightarrow> None)"

definition upd_block :: "blkptr \<Rightarrow> (block \<Rightarrow> block) \<Rightarrow> 'a psc_base_scheme \<Rightarrow> 'a psc_base_scheme" where
  "upd_block p f s =
     (case p of PRecv k \<Rightarrow> upd_recv k f s | PSend k \<Rightarrow> upd_send k f s | PNull \<Rightarrow> s)"

definition POSIX_TIME_AT_EPICS_EPOCH :: u32 where
  "POSIX_TIME_AT_EPICS_EPOCH = 631152000"

text \<open>\<open>mk_time\<close> is the conversion of a time stamp to epicsTime, which rejects invalid ones.\<close>

definition setRecTimestamp ::
  "evbuffer_api \<Rightarrow> (epics_time \<Rightarrow> epics_time outcome) \<Rightarrow> priv \<Rightarrow> 'a psc_base_scheme \<Rightarrow>
   'r dev_rec_scheme \<Rightarrow> 'r dev_rec_scheme \<times> unit outcome" where
  "setRecTimestamp api mk_time p s r =
     (if \<not> tse_device r then (r, Ok ())
      else case deref (p_block p) s of
          None \<Rightarrow> (r, Crash NullPointer)
        | Some b \<Rightarrow>
            (case (if p_timeFromBlock p then copyout_shape api (data b) (p_tsoffset p) 8 0 1 else Ok (0, [])) of
               Ok (n, raw) \<Rightarrow>
                 if n = 1
                 then (case mk_time (unbe32 (take 4 raw) - POSIX_TIME_AT_EPICS_EPOCH, unbe32 (drop 4 raw)) of
                         Ok t \<Rightarrow> (r\<lparr>rec_time := t\<rparr>, Ok ())
                       | Throw e \<Rightarrow> (r, Throw e)
                       | Crash c \<Rightarrow> (r, Crash c))
                 else (r\<lparr>rec_time := rxtime b\<rparr>, Ok ())
             | Throw e \<Rightarrow> (r, Throw e)
             | Crash c \<Rightarrow> (r, Crash c)))"

section \<open>Printing and parsing links\<close>

fun dec :: "nat \<Rightarrow> string" where
  "dec n = (if n < 10 then [char_of (48 + n)] else dec (n div 10) @ [char_of (48 + n mod 10)])"

declare dec.simps [simp del]

lemma digit_char: "n < 10 \<Longrightarrow> isdigit (char_of (48 + n)) \<and> (of_char (char_of (48 + n)) :: nat) = 48 + n"
  by (simp add: isdigit_def)

lemma dec_props: "dec n \<noteq> [] \<and> list_all isdigit (dec n) \<and> digits_val (dec n) = n"
proof (induction n rule: dec.induct)
  case (1 n)
  show ?case
  proof (cases "n < 10")
    case True
    then show ?thesis
      using digit_char [of n] by (subst dec.simps, subst dec.simps, subst dec.simps)
        (simp add: digits_val_def)
  next
    case False
    have d: "dec n = dec (n div 10) @ [char_of (48 + n mod 10)]"
      using False by (subst dec.simps) simp
    show ?thesis
      using 1 False digit_char [of "n mod 10"] unfolding d by (simp add: digits_val_def)
  qed
qed

lemma digit_not_sign: "isdigit c \<Longrightarrow> c \<noteq> CHR ''-'' \<and> c \<noteq> CHR ''+'' \<and> \<not> isspace c"
  by (auto simp: isdigit_def isspace_def)

lemma take_digits:
  assumes "list_all isdigit ds" and "rest = [] \<or> \<not> isdigit (hd rest)"
  shows "takeWhile isdigit (ds @ rest) = ds" and "dropWhile isdigit (ds @ rest) = rest"
proof -
  have "\<forall>c \<in> set ds. isdigit c" using assms(1) by (simp add: list_all_iff)
  moreover have "takeWhile isdigit rest = []" "dropWhile isdigit rest = rest"
    using assms(2) by (cases rest; simp)+
  ultimately show "takeWhile isdigit (ds @ rest) = ds" and "dropWhile isdigit (ds @ rest) = rest"
    by (simp_all add: takeWhile_append2 dropWhile_append2)
qed

lemma extract_int_dec:
  assumes "chars st = CHR '' '' # dec n @ rest" and "\<not> eofbit st" and "\<not> failbit st"
    and "rest = [] \<or> \<not> isdigit (hd rest)"
  shows "extract_int st = (\<lparr>chars = rest, eofbit = (rest = []), failbit = False\<rparr>, int n)"
proof -
  obtain c ds where ds: "dec n = c # ds" using dec_props [of n] by (cases "dec n") auto
  then have c: "isdigit c" using dec_props [of n] by simp
  have "isspace (CHR '' '')" by (simp add: isspace_def)
  then have "sentry st = (st\<lparr>chars := dec n @ rest\<rparr>, Some (dec n @ rest))"
    using assms(1-3) ds digit_not_sign [OF c] by (simp add: sentry_def)
  then show ?thesis
    using take_digits [of "dec n" rest] dec_props [of n] assms(4) ds digit_not_sign [OF c]
    by (simp add: extract_int_def del: dropWhile_eq_Nil_conv)
qed

lemma extract_word_name:
  assumes "nm \<noteq> []" and "list_all (\<lambda>c. \<not> isspace c) nm" and "rest = [] \<or> isspace (hd rest)"
  shows "extract_word (istream_new (nm @ rest)) =
    (\<lparr>chars = rest, eofbit = (rest = []), failbit = False\<rparr>, nm)"
proof -
  obtain c cs where nm: "nm = c # cs" using assms(1) by (cases nm) auto
  have all: "\<forall>c \<in> set nm. \<not> isspace c" using assms(2) by (simp add: list_all_iff)
  have "takeWhile (\<lambda>c. \<not> isspace c) rest = []" "dropWhile (\<lambda>c. \<not> isspace c) rest = rest"
    using assms(3) by (cases rest; simp)+
  then have "takeWhile (\<lambda>c. \<not> isspace c) (nm @ rest) = nm" "dropWhile (\<lambda>c. \<not> isspace c) (nm @ rest) = rest"
    using all by (simp_all add: takeWhile_append2 dropWhile_append2)
  moreover have "sentry (istream_new (nm @ rest)) = (istream_new (nm @ rest), Some (nm @ rest))"
    using nm all by (simp add: sentry_def istream_new_def)
  ultimately show ?thesis by (simp add: extract_word_def del: dropWhile_eq_Nil_conv)
qed

section \<open>Properties\<close>

text \<open>
  \<open>hton\<close> puts a value of 1, 2 or 4 bytes into network byte order on every host, and a
  value of 8 bytes on a little endian host, and \<open>ntoh\<close> takes it back.
\<close>

theorem hton_network_order:
  assumes "length img \<in> {1, 2, 4} \<or> length img = 8 \<and> le"
  shows "hton le img = (if le then rev img else img) \<and> ntoh le (hton le img) = img"
  using hton_net [OF assms] hton_hton [of img le] assms by (auto simp: host_order_def ntoh_def)

theorem hton_network_order_witness:
  "hton True [4, 3, 2, 1] = [1, 2, 3, 4] \<and> ntoh True (hton True [4, 3, 2, 1]) = [4, 3, 2, 1]"
  using hton_network_order [of "[4, 3, 2, 1]" True] by auto

text \<open>
  on a big endian host \<open>hton\<close> exchanges the two halves of an 8 byte value, although it is
  in network order already.
\<close>

theorem hton64_big_endian:
  assumes "length img = 8"
  shows "hton False img = drop 4 img @ take 4 img"
proof -
  define x where "x = unhost64 False img"
  have "be32 (ucast (drop_bit 32 x)) @ be32 (ucast x) = take 4 img @ drop 4 img"
    using assms by (simp add: x_def unhost64_def be64_unbe64 flip: be64_def)
  then have "be32 (ucast (drop_bit 32 x)) = take 4 img \<and> be32 (ucast x) = drop 4 img"
    using assms by (subst (asm) append_eq_append_conv) auto
  moreover have "hton False img = host64 False (nswap8 False x)"
    using assms by (simp add: hton_def x_def)
  moreover have "\<dots> = be32 (ucast x) @ be32 (ucast (drop_bit 32 x))"
    unfolding nswap8_cat host64_def be64_cat64 be32_htonl by simp
  ultimately show ?thesis by simp
qed

theorem hton64_big_endian_witness:
  "hton False [1, 2, 3, 4, 5, 6, 7, 8] = [5, 6, 7, 8, 1, 2, 3, 4]"
  using hton64_big_endian [of "[1, 2, 3, 4, 5, 6, 7, 8]"] by simp

text \<open>
  the conversions between raw and engineering units are inverse to each other, in exact
  arithmetic, exactly when the record is not linear, or EOFF is 0 or ESLO is 1: reading adds
  EOFF before it multiplies with ESLO, writing subtracts EOFF before it divides.
\<close>

theorem analog_roundtrip_iff:
  fixes a :: "'f::field analog"
  assumes "eslo a \<noteq> 0"
  shows "analogEGU2Raw a (analogRaw2EGU a r) = r \<longleftrightarrow> \<not> linear a \<or> eoff a = 0 \<or> eslo a = 1"
proof -
  have "eoff a = eoff a / eslo a \<longleftrightarrow> eoff a = 0 \<or> eslo a = 1"
    using assms by (auto simp: field_simps)
  then show ?thesis by (simp add: analog_back_forth [OF assms])
qed

theorem analog_roundtrip_iff_witness:
  "analogEGU2Raw \<lparr>roff = 0, aslo = 0, aoff = 0, linear = True, eoff = 1, eslo = 2\<rparr>
     (analogRaw2EGU \<lparr>roff = 0, aslo = 0, aoff = 0, linear = True, eoff = 1, eslo = 2\<rparr> (5 :: rat)) \<noteq> 5"
  using analog_roundtrip_iff [of "\<lparr>roff = 0, aslo = 0, aoff = 0, linear = True, eoff = 1, eslo = (2 :: rat)\<rparr>" 5]
  by simp

text \<open>
  links are parsed as they are written: a driver name, a message number, and optionally
  an offset and a step, separated by blanks.
\<close>

theorem link_roundtrip:
  assumes "nm \<noteq> []" and "list_all (\<lambda>c. \<not> isspace c) nm"
    and "blk < 2 ^ 32" and "ofs < 2 ^ 64" and "stp < 2 ^ 63"
  shows "link_fields (nm @ '' '' @ dec blk) = Ok (nm, blk, 0, 0) \<and>
    link_fields (nm @ '' '' @ dec blk @ '' '' @ dec ofs) = Ok (nm, blk, ofs, 0) \<and>
    link_fields (nm @ '' '' @ dec blk @ '' '' @ dec ofs @ '' '' @ dec stp) = Ok (nm, blk, ofs, int stp)"
proof -
  have sp: "isspace (CHR '' '')" "\<not> isdigit (CHR '' '')" by (simp_all add: isspace_def isdigit_def)
  have nums: "int blk < 2 ^ 32" "int ofs < 2 ^ 64" "int stp < 2 ^ 63"
    using assms(3-5) by simp_all
  then have m: "int blk mod 2 ^ 32 = int blk" "int ofs mod 2 ^ 64 = int ofs" by simp_all
  note w = extract_word_name [OF assms(1,2)]
  show ?thesis
    using w [of "'' '' @ dec blk"] w [of "'' '' @ dec blk @ '' '' @ dec ofs"]
      w [of "'' '' @ dec blk @ '' '' @ dec ofs @ '' '' @ dec stp"] sp nums m
    by (simp add: link_fields_def extract_unsigned_def extract_long_def
        extract_int_dec [where rest = "[]"] extract_int_dec)
qed

theorem link_roundtrip_witness:
  "link_fields ''psc1 40 8'' = Ok (''psc1'', 40, 8, 0)"
proof -
  have d: "dec 40 = ''40''" "dec 8 = ''8''"
    by (simp_all add: dec.simps char_of_def bit_0)
  have "list_all (\<lambda>c. \<not> isspace c) ''psc1''" by (simp add: isspace_def)
  then show ?thesis using link_roundtrip [of "''psc1''" 40 8 0] d by simp
qed

end
