(* ===== verification/Udp_Fast.thy ===== *)
theory Udp_Fast
  imports Dev_Common Psc_Udp
begin

text \<open>
  The fast UDP receiver \<open>UDPFast\<close> (udpApp/src/udpdrv.h, udpdrv.cpp). Two threads share a pool of
  packet buffers: the receiver (\<open>rxfn\<close>) takes buffers from the pool (\<open>vpool\<close>), has the kernel
  fill them in batches, and appends the packets to \<open>pending\<close>; the cache worker (\<open>cachefn\<close>) takes
  all pending packets, updates the blocks, writes the packets to a data file, keeps some of
  them in the short buffer, and returns the buffers to the pool.

  The local variables of the two threads are part of the state, with the place each thread
  has reached. \<open>vpool\<close> is kept with its back first. The events are binary semaphores. Calls of
  the operating system are parameters: the n-th call of open, writev and fdatasync, and the
  packets that recvmmsg returns.
\<close>

section \<open>State\<close>

record pkt =
  k_body :: "byte list"
  k_bodylen :: nat
  k_rxtime :: epics_time
  k_msgid :: u16

definition pkt_new :: pkt where
  "pkt_new = \<lparr>k_body = [], k_bodylen = 0, k_rxtime = (0, 0), k_msgid = 0\<rparr>"

datatype rx_pc = RxIdle | RxTop | RxWait | RxRecv nat | RxDone
datatype c_pc = CIdle | CTop | CWait | CWork epics_time | CDone

record 'w fast = psc_base +
  peer :: addr
  running :: bool
  batchSize :: nat
  vpoolTotal :: nat
  rxcnt :: u64
  ntimeout :: u64
  ndrops :: u64
  nignore :: u64
  noom :: u64
  lastsize :: u64
  netrx :: u64
  storewrote :: u64
  vpool :: "byte list list"
  pend :: "pkt list"
  vpoolStall :: bool
  pendingReady :: bool
  filedir :: string
  filebase :: string
  lastfile :: string
  lasterror :: string
  reopen :: bool
  recording :: bool
  shortBuf :: "pkt list"
  shortLimit :: nat
  rxpc :: rx_pc
  msgs :: "byte list list"
  prevndrops :: u32
  notifycache :: bool
  cpc :: c_pc
  inprog :: "pkt list"
  datafile :: "(string \<times> byte list) option"
  filetotal :: u64
  done_files :: "(string \<times> byte list) list"
  f_calls :: nat
  f_world :: 'w

record 'w fast_env =
  f_scanIo :: "block \<Rightarrow> u32"
  f_listener :: "cb \<Rightarrow> block \<Rightarrow> 'w \<Rightarrow> 'w \<times> unit outcome"
  max_len :: u64
  dsync_mb :: int
  iov_pairs :: nat
  open_file :: "nat \<Rightarrow> string \<Rightarrow> nat"
  writev :: "nat \<Rightarrow> byte list \<Rightarrow> nat + nat"
  fdatasync :: "nat \<Rightarrow> nat"
  strerror :: "nat \<Rightarrow> string"
  strftime :: "epics_time \<Rightarrow> string"

text \<open>
  open and fdatasync return an error number, 0 for success; writev returns an error number or
  the number of bytes written.

  The constructor: \<open>rxbuflen\<close> is the size of the socket's receive buffer, the booleans and
  \<open>resolved\<close> are the results of the socket calls.
\<close>

record fast_conf =
  PSCUDPMaxPacketSize :: int
  PSCUDPMaxPacketRate :: real
  PSCUDPBufferPeriod :: real
  iovLimit :: nat

definition max_pkt_len :: "fast_conf \<Rightarrow> nat" where
  "max_pkt_len c = nat (max 8 (PSCUDPMaxPacketSize c))"

definition pool_total :: "fast_conf \<Rightarrow> nat" where
  "pool_total c = nat \<lfloor>max 1 (2 * PSCUDPMaxPacketRate c * PSCUDPBufferPeriod c)\<rfloor>"

definition UDPFast_new ::
  "fast_conf \<Rightarrow> bool \<Rightarrow> bool \<Rightarrow> nat \<Rightarrow> addr option \<Rightarrow> bool \<Rightarrow> bool \<Rightarrow> string \<Rightarrow> string \<Rightarrow> u16 \<Rightarrow> 'w \<Rightarrow> 'w fast outcome" where
  "UDPFast_new c sock timeo rxbuflen resolved bound named n h p w =
     (if \<not> sock then Throw BadAlloc
      else if \<not> timeo then Throw (RuntimeError ''Unable to set SO_RCVTIMEO'')
      else if rxbuflen = 0 then Throw (RuntimeError ''zero RX buffer length not valid'')
      else case resolved of
          None \<Rightarrow> Throw (RuntimeError ''Bad host/IP'')
        | Some a \<Rightarrow>
            if \<not> bound then Throw (RuntimeError ''Unable to bind()'')
            else if \<not> named then Throw (RuntimeError ''Unable to getsockname()'')
            else Ok (psc_base.extend (psc_base_new n h p)
              \<lparr>peer = a, running = True,
               batchSize = min (max 1 (rxbuflen div max_pkt_len c)) (iovLimit c), vpoolTotal = pool_total c,
               rxcnt = 0, ntimeout = 0, ndrops = 0, nignore = 0, noom = 0, lastsize = 0, netrx = 0, storewrote = 0,
               vpool = replicate (pool_total c) (replicate (max_pkt_len c) 0), pend = [],
               vpoolStall = False, pendingReady = False,
               filedir = [], filebase = [], lastfile = [], lasterror = [], reopen = True, recording = False,
               shortBuf = [], shortLimit = 0,
               rxpc = RxIdle, msgs = [], prevndrops = 0, notifycache = False,
               cpc = CIdle, inprog = [], datafile = None, filetotal = 0, done_files = [], f_calls = 0, f_world = w\<rparr>))"

section \<open>The receiver\<close>

text \<open>
  The buffers for the next batch: a message keeps its buffer when the packet in it was not
  used. The result is the messages, the pool, and how many messages have a buffer.
\<close>

fun assign_bufs :: "byte list list \<Rightarrow> byte list list \<Rightarrow> (byte list list \<times> byte list list \<times> nat) outcome" where
  "assign_bufs [] vp = Ok ([], vp, 0)"
| "assign_bufs (m # ms) vp =
     (if m \<noteq> [] then
        (case assign_bufs ms vp of
           Ok (ms', vp', n) \<Rightarrow> Ok (m # ms', vp', Suc n) | Throw e \<Rightarrow> Throw e | Crash c \<Rightarrow> Crash c)
      else case vp of
          [] \<Rightarrow> Ok (m # ms, [], 0)
        | v # vp1 \<Rightarrow>
            if length v < 8 then Crash AssertFailed
            else (case assign_bufs ms vp1 of
                    Ok (ms', vp', n) \<Rightarrow> Ok (v # ms', vp', Suc n) | Throw e \<Rightarrow> Throw e | Crash c \<Rightarrow> Crash c))"

text \<open>The top of the loop: stall, or assign buffers, wake the cache worker and call the kernel.\<close>

definition rx_top :: "'w fast \<Rightarrow> 'w fast \<times> unit outcome" where
  "rx_top s =
     (if \<not> running s then (s\<lparr>rxpc := RxDone\<rparr>, Ok ())
      else if vpool s = [] then (s\<lparr>noom := noom s + 1, rxpc := RxWait\<rparr>, Ok ())
      else case assign_bufs (msgs s) (vpool s) of
          Ok (ms, vp, n) \<Rightarrow>
            (s\<lparr>msgs := ms, vpool := vp, pendingReady := (pendingReady s \<or> notifycache s),
               notifycache := False, rxpc := RxRecv n\<rparr>, Ok ())
        | Throw e \<Rightarrow> (s, Throw e)
        | Crash c \<Rightarrow> (s, Crash c))"

definition rx_wake :: "'w fast \<Rightarrow> 'w fast" where
  "rx_wake s = s\<lparr>vpoolStall := False, rxpc := RxTop\<rparr>"

text \<open>
  A datagram as the kernel hands it over: its source, its bytes, and the drop counts in its
  control messages. 8 bytes go to the header, the others fill the buffer as far as it goes.
\<close>

record dgram =
  g_src :: addr
  g_bytes :: "byte list"
  g_ovfl :: "u32 list"

fun rx_drops :: "u32 list \<Rightarrow> 'w fast \<Rightarrow> 'w fast" where
  "rx_drops [] s = s"
| "rx_drops (n # ns) s =
     rx_drops ns (if n \<noteq> prevndrops s
                  then s\<lparr>ndrops := ndrops s + ucast (n - prevndrops s), prevndrops := n\<rparr> else s)"

definition msg_len :: "byte list \<Rightarrow> dgram \<Rightarrow> nat" where
  "msg_len buf g = min (length (g_bytes g)) (8 + length buf)"

definition fill_buf :: "byte list \<Rightarrow> dgram \<Rightarrow> byte list" where
  "fill_buf buf g = splice_at 0 (take (length buf) (drop 8 (g_bytes g))) buf"

text \<open>One received packet: the message's buffer afterwards, and the bytes to count.\<close>

definition rx_packet :: "epics_time \<Rightarrow> dgram \<Rightarrow> byte list \<Rightarrow> 'w fast \<Rightarrow> byte list \<times> nat \<times> 'w fast" where
  "rx_packet now g buf s0 =
     (let len = msg_len buf g; buf1 = fill_buf buf g; s = rx_drops (g_ovfl g) s0;
          ignore = (buf1, 0, s\<lparr>nignore := nignore s + 1\<rparr>)
      in if g_src g \<noteq> peer s then ignore
         else if len < 8 then ignore
         else if \<not> hdr_marked (g_bytes g) then ignore
         else
           let msgid = hdr_id (g_bytes g); blen = hdr_len (g_bytes g)
           in if unat blen < len - 8 then ignore
              else ([], len + 16 + 20 + 8,
                    s\<lparr>notifycache := (notifycache s \<or> pend s = []),
                      pend := pend s @ [\<lparr>k_body = buf1, k_bodylen = unat blen, k_rxtime = now, k_msgid = msgid\<rparr>]\<rparr>))"

fun rx_batch ::
  "epics_time \<Rightarrow> dgram list \<Rightarrow> byte list list \<Rightarrow> 'w fast \<Rightarrow> byte list list \<times> nat \<times> 'w fast" where
  "rx_batch t (g # gs) (m # ms) s =
     (case rx_packet t g m s of (m', n, s1) \<Rightarrow>
        case rx_batch t gs ms s1 of (ms', n', s2) \<Rightarrow> (m' # ms', n + n', s2))"
| "rx_batch t gs ms s = (ms, 0, s)"

datatype rx_ret = RxGot "dgram list" | RxTimedOut | RxFailed

text \<open>From the return of recvmmsg to the end of the loop.\<close>

definition rx_recv :: "epics_time \<Rightarrow> rx_ret \<Rightarrow> 'w fast \<Rightarrow> 'w fast" where
  "rx_recv now ret s =
     (let s1 = (case ret of RxTimedOut \<Rightarrow> s\<lparr>ntimeout := ntimeout s + 1\<rparr> | _ \<Rightarrow> s);
          gs = (case ret of RxGot gs \<Rightarrow> gs | _ \<Rightarrow> []);
          (ms, tot, s2) = rx_batch now gs (msgs s1) (s1\<lparr>rxcnt := rxcnt s1 + of_nat (length gs)\<rparr>)
      in s2\<lparr>msgs := ms, netrx := netrx s2 + of_nat tot, rxpc := RxTop\<rparr>)"

section \<open>The cache worker\<close>

text \<open>Return the buffers of the finished packets to the pool, and wait for new ones.\<close>

definition cache_top :: "'w fast \<Rightarrow> 'w fast" where
  "cache_top s =
     (let bufs = filter (\<lambda>b. b \<noteq> []) (map k_body (inprog s));
          s1 = s\<lparr>vpool := rev bufs @ vpool s, inprog := []\<rparr>;
          unstall = (inprog s \<noteq> [] \<and> vpool s = [] \<and> vpool s1 \<noteq> [])
      in s1\<lparr>vpoolStall := (vpoolStall s \<or> unstall), cpc := (if running s then CWait else CDone)\<rparr>)"

definition cache_wake :: "epics_time \<Rightarrow> 'w fast \<Rightarrow> 'w fast" where
  "cache_wake now s = s\<lparr>pendingReady := False, inprog := pend s, pend := inprog s, cpc := CWork now\<rparr>"

definition deliver_pkt :: "'w fast_env \<Rightarrow> pkt \<Rightarrow> 'w fast \<Rightarrow> 'w fast \<times> unit outcome" where
  "deliver_pkt env p s =
     (case recv_blocks s (k_msgid p) of
        None \<Rightarrow> (s\<lparr>ukncount := ukncount s + 1\<rparr>, Ok ())
      | Some b \<Rightarrow>
          let d = dbuffer_assign (data b) (k_body p);
              b1 = b\<lparr>blk_count := blk_count b + 1, rxtime := k_rxtime p, data := d\<rparr>;
              b2 = requestScan (f_scanIo env) b1;
              s1 = s\<lparr>recv_blocks := (recv_blocks s)(k_msgid p \<mapsto> b2)\<rparr>
          in case cblist_call (f_listener env) (listeners b2) b2 (f_world s1) of
               (w, r) \<Rightarrow> (emit (IoNotify (k_msgid p) (dbytes d)) (s1\<lparr>f_world := w\<rparr>), r))"

fun fast_deliver :: "'w fast_env \<Rightarrow> pkt list \<Rightarrow> 'w fast \<Rightarrow> 'w fast \<times> unit outcome" where
  "fast_deliver env [] s = (s, Ok ())"
| "fast_deliver env (p # ps) s =
     (case deliver_pkt env p s of
        (s1, Ok _) \<Rightarrow> fast_deliver env ps s1
      | (s1, r) \<Rightarrow> (s1, r))"

definition close_file :: "'w fast \<Rightarrow> 'w fast" where
  "close_file s =
     (case datafile s of None \<Rightarrow> s | Some f \<Rightarrow> s\<lparr>datafile := None, done_files := done_files s @ [f]\<rparr>)"

text \<open>Open the next data file. The number is the error, 0 if there is none.\<close>

definition open_next :: "'w fast_env \<Rightarrow> epics_time \<Rightarrow> 'w fast \<Rightarrow> 'w fast \<times> nat" where
  "open_next env now s0 =
     (if recording s0 \<and> reopen s0 \<and> filebase s0 \<noteq> [] then
        let s = close_file (s0\<lparr>reopen := False, filetotal := 0\<rparr>);
            fname = (if filedir s \<noteq> [] then filedir s @ ''/'' else []) @ filebase s @ strftime env now @ ''.dat'';
            err = open_file env (f_calls s) fname;
            s1 = s\<lparr>f_calls := Suc (f_calls s)\<rparr>
        in if err \<noteq> 0 then (s1\<lparr>recording := False\<rparr>, err)
           else (s1\<lparr>datafile := Some (fname, []), lastfile := fname\<rparr>, 0)
      else (s0, 0))"

text \<open>The record of a packet in the data file: a header of 16 bytes and the body.\<close>

definition file_header :: "pkt \<Rightarrow> byte list" where
  "file_header p =
     [0x50, 0x53] @ be16 (k_msgid p) @ be32 (of_nat (k_bodylen p)) @
     be32 (fst (k_rxtime p) + POSIX_TIME_AT_EPICS_EPOCH) @ be32 (snd (k_rxtime p))"

definition file_record :: "pkt \<Rightarrow> byte list" where
  "file_record p = file_header p @ take (k_bodylen p) (k_body p)"

text \<open>
  The batches of writev. An I/O vector that reaches beyond its buffer is out of bounds. The
  result has the bytes counted, and the error if any.
\<close>

definition write_batch ::
  "'w fast_env \<Rightarrow> string \<times> byte list \<Rightarrow> pkt list \<Rightarrow> nat \<Rightarrow> 'w fast \<Rightarrow> 'w fast \<times> (nat \<times> nat) outcome" where
  "write_batch env f batch err s =
     (let bytes = concat (map file_record batch);
          batchtotal = sum_list (map (\<lambda>p. 16 + k_bodylen p) batch);
          s0 = s\<lparr>f_calls := Suc (f_calls s)\<rparr>
      in if \<exists>p \<in> set batch. length (k_body p) < k_bodylen p then (s, Crash OutOfBounds)
         else case writev env (f_calls s) bytes of
                Inl e \<Rightarrow> ((close_file s0)\<lparr>recording := False\<rparr>, Ok (batchtotal, e))
              | Inr ret \<Rightarrow>
                  let s1 = s0\<lparr>datafile := Some (fst f, snd f @ take ret bytes)\<rparr>
                  in (if ret \<noteq> batchtotal then (close_file s1)\<lparr>recording := False\<rparr> else s1, Ok (batchtotal, err)))"

function write_batches :: "'w fast_env \<Rightarrow> pkt list \<Rightarrow> nat \<Rightarrow> nat \<Rightarrow> 'w fast \<Rightarrow> 'w fast \<times> (nat \<times> nat) outcome" where
  "write_batches env ps tot err s =
     (case datafile s of
        None \<Rightarrow> (s, Ok (tot, err))
      | Some f \<Rightarrow>
          if ps = [] then (s, Ok (tot, err))
          else if iov_pairs env = 0 then (s, Crash NoProgress)
          else (case write_batch env f (take (iov_pairs env) ps) err s of
                  (s1, Ok (n, err1)) \<Rightarrow> write_batches env (drop (iov_pairs env) ps) (tot + n) err1 s1
                | (s1, Throw x) \<Rightarrow> (s1, Throw x)
                | (s1, Crash x) \<Rightarrow> (s1, Crash x)))"
  by pat_completeness auto
termination
  by (relation "measure (\<lambda>(env, ps, tot, err, s). length ps)") auto

declare write_batches.simps [simp del]

definition write_file :: "'w fast_env \<Rightarrow> nat \<Rightarrow> 'w fast \<Rightarrow> 'w fast \<times> nat outcome" where
  "write_file env fileerr s =
     (if datafile s = None then (s, Ok fileerr)
      else case write_batches env (inprog s) 0 fileerr s of
          (s1, Ok (tot, err)) \<Rightarrow>
            let s2 = s1\<lparr>storewrote := storewrote s1 + of_nat tot, filetotal := filetotal s1 + of_nat tot,
                        lastsize := filetotal s1 + of_nat tot\<rparr>
            in if dsync_mb env \<noteq> 0 \<and> datafile s2 \<noteq> None \<and> drop_bit 20 (filetotal s2) \<ge> word_of_int (dsync_mb env)
               then let e = fdatasync env (f_calls s2)
                    in (s2\<lparr>filetotal := 0, f_calls := Suc (f_calls s2)\<rparr>, Ok (if e \<noteq> 0 then e else err))
               else (s2, Ok err)
        | (s1, Throw e) \<Rightarrow> (s1, Throw e)
        | (s1, Crash c) \<Rightarrow> (s1, Crash c))"

text \<open>Packets move to the short buffer as long as it has room; empty ones take their places.\<close>

definition keep_short :: "'w fast \<Rightarrow> 'w fast" where
  "keep_short s =
     (let istart = length (shortBuf s);
          nmove = min (length (inprog s)) (unat (of_nat (shortLimit s) - of_nat istart :: u64))
      in s\<lparr>shortBuf := shortBuf s @ take nmove (inprog s),
           inprog := replicate nmove pkt_new @ drop nmove (inprog s)\<rparr>)"

definition error_text :: "'w fast_env \<Rightarrow> nat \<Rightarrow> string" where
  "error_text env e = ''('' @ dec e @ '') '' @ strerror env e"

definition cache_work :: "'w fast_env \<Rightarrow> epics_time \<Rightarrow> 'w fast \<Rightarrow> 'w fast \<times> unit outcome" where
  "cache_work env now s =
     (let s1 = (if \<not> recording s then close_file s else s)
      in case fast_deliver env (inprog s1) s1 of
           (s2, Ok _) \<Rightarrow>
             if inprog s2 = [] then (s2\<lparr>cpc := CTop\<rparr>, Ok ())
             else
               let s3 = (if datafile s2 \<noteq> None \<and> filetotal s2 \<ge> max_len env then s2\<lparr>reopen := True\<rparr> else s2);
                   (s4, err) = open_next env now s3
               in (case write_file env err s4 of
                     (s5, Ok err') \<Rightarrow>
                       let s6 = keep_short s5
                       in ((if err' \<noteq> 0 then s6\<lparr>lasterror := error_text env err'\<rparr> else s6)\<lparr>cpc := CTop\<rparr>, Ok ())
                   | (s5, Throw e) \<Rightarrow> (s5, Throw e)
                   | (s5, Crash c) \<Rightarrow> (s5, Crash c))
         | (s2, Throw e) \<Rightarrow> (s2, Throw e)
         | (s2, Crash c) \<Rightarrow> (s2, Crash c))"

section \<open>Start and stop\<close>

definition fast_connect :: "'w fast \<Rightarrow> 'w fast" where
  "fast_connect s =
     s\<lparr>connected := True, rxpc := RxTop, msgs := replicate (batchSize s) [], prevndrops := 0, notifycache := False,
       cpc := CTop, inprog := [], datafile := None, filetotal := 0\<rparr>"

text \<open>\<open>stop\<close> up to the wait for the end of the threads; the packet to itself wakes the receiver.\<close>

definition fast_stop :: "'w fast \<Rightarrow> 'w fast" where
  "fast_stop s = s\<lparr>connected := False, running := False, vpoolStall := True, pendingReady := True\<rparr>"

end
