(* ===== verification/Psc_Registry.thy ===== *)
theory Psc_Registry
  imports Event_Base Psc_Tcp Psc_Udp Udp_Fast "HOL-Library.List_Lexorder" "HOL-Library.Char_ord"
begin

text \<open>
  The process-wide registry of drivers (coreApp/src/pscbase.cpp: \<open>PSCBase::pscmap\<close>), the iocsh
  commands that create drivers, and the start and stop of all drivers with the IOC.

  Drivers are objects with an address (a number). The registry maps names to addresses; the
  map is ordered by name, as std::map is. A call through a pointer to \<open>PSCBase\<close> goes to the
  driver's own class. The drivers for TCP and UDP share one event loop, which exists as long as one of them does.
\<close>

section \<open>The ordered map\<close>

fun map_set :: "string \<Rightarrow> 'v \<Rightarrow> (string \<times> 'v) list \<Rightarrow> (string \<times> 'v) list" where
  "map_set k v [] = [(k, v)]"
| "map_set k v ((k', v') # xs) =
     (if k < k' then (k, v) # (k', v') # xs
      else if k = k' then (k, v) # xs
      else (k', v') # map_set k v xs)"

definition map_erase :: "string \<Rightarrow> (string \<times> 'v) list \<Rightarrow> (string \<times> 'v) list" where
  "map_erase k xs = filter (\<lambda>x. fst x \<noteq> k) xs"

definition map_ok :: "(string \<times> 'v) list \<Rightarrow> bool" where
  "map_ok xs \<longleftrightarrow> sorted_wrt (<) (map fst xs)"

lemma set_map_set: "set (map_set k v xs) \<subseteq> insert (k, v) (set xs)"
  by (induction xs) (auto split: if_splits)

lemma map_of_map_set: "map_ok xs \<Longrightarrow> map_of (map_set k v xs) = (map_of xs)(k \<mapsto> v)"
  unfolding map_ok_def
proof (induction xs)
  case (Cons x xs)
  obtain k' v' where x: "x = (k', v')" by (cases x)
  have "map_of xs k = None" if "k < k'"
    using that Cons.prems x by (auto simp: map_of_eq_None_iff)
  then show ?case using Cons x by (auto simp: fun_eq_iff)
qed simp

lemma map_of_map_erase: "map_of (map_erase k xs) = (map_of xs)(k := None)"
  by (induction xs) (auto simp: map_erase_def fun_eq_iff)

lemma map_ok_set: "map_ok xs \<Longrightarrow> map_ok (map_set k v xs)"
proof (induction xs)
  case (Cons x xs)
  obtain k' v' where x: "x = (k', v')" by (cases x)
  have "k' < fst y" if "y \<in> set (map_set k v xs)" "k' < k" for y
    using that set_map_set [of k v xs] Cons.prems x by (auto simp: map_ok_def)
  then show ?case
    using Cons x by (auto simp: map_ok_def)
qed (simp add: map_ok_def)

lemma map_ok_erase: "map_ok xs \<Longrightarrow> map_ok (map_erase k xs)"
  unfolding map_ok_def map_erase_def by (induction xs) auto

section \<open>Drivers\<close>

datatype 'w driver = Tcp "'w psc" | Udp "'w udp" | Fast "'w fast"

record 'w registry =
  pscmap :: "(string \<times> nat) list"
  objs :: "nat \<Rightarrow> 'w driver option"
  fresh :: nat
  evbase :: "event_base option"
  base_refs :: nat
  deleted :: "(nat \<times> 'w driver) list"

text \<open>
  \<open>base_refs\<close> is the number of references to the event loop; \<open>deleted\<close> has the drivers that were deleted, as they
  were then.
\<close>

definition registry_new :: "'w registry" where
  "registry_new = \<lparr>pscmap = [], objs = Map.empty, fresh = 0, evbase = None, base_refs = 0, deleted = []\<rparr>"

fun uses_loop :: "'w driver \<Rightarrow> bool" where
  "uses_loop (Tcp s) = True"
| "uses_loop (Udp s) = True"
| "uses_loop (Fast s) = False"

definition release_base :: "'w registry \<Rightarrow> 'w registry" where
  "release_base g = (if base_refs g = 0 then g\<lparr>evbase := None\<rparr> else g)"

definition getPSCBase :: "string \<Rightarrow> 'w registry \<Rightarrow> nat option" where
  "getPSCBase n g = map_of (pscmap g) n"

text \<open>
  The constructor of \<open>PSCBase\<close> enters the object under its name. When the constructor of the
  driver (\<open>made\<close>) leaves with an exception, the destructor of \<open>PSCBase\<close> erases the name.
\<close>

definition construct :: "string \<Rightarrow> 'w driver outcome \<Rightarrow> 'w registry \<Rightarrow> 'w registry \<times> unit outcome" where
  "construct n made g =
     (let i = fresh g; g1 = g\<lparr>pscmap := map_set n i (pscmap g), fresh := Suc i\<rparr>
      in case made of
           Ok d \<Rightarrow> (g1\<lparr>objs := (objs g1)(i \<mapsto> d)\<rparr>, Ok ())
         | Throw e \<Rightarrow> (g1\<lparr>pscmap := map_erase n (pscmap g1)\<rparr>, Throw e)
         | Crash c \<Rightarrow> (g1, Crash c))"

text \<open>
  The constructor of a driver that uses the event loop makes or shares it (\<open>loop\<close>: it can be made), between the
  constructor of \<open>PSCBase\<close> and its own.
\<close>

definition construct_ev :: "bool \<Rightarrow> string \<Rightarrow> 'w driver outcome \<Rightarrow> 'w registry \<Rightarrow> 'w registry \<times> unit outcome" where
  "construct_ev loop n made g =
     (case makeBase loop (evbase g) of
        Ok b \<Rightarrow>
          (case construct n made (g\<lparr>evbase := Some b\<rparr>) of
             (g1, Ok _) \<Rightarrow> (g1\<lparr>base_refs := Suc (base_refs g1)\<rparr>, Ok ())
           | (g1, y) \<Rightarrow> (release_base g1, y))
      | Throw e \<Rightarrow> construct n (Throw e) g
      | Crash c \<Rightarrow> (g, Crash c))"

text \<open>
  The commands log an exception and report an error to the shell, the boolean of the result.
\<close>

definition reported :: "'w registry \<times> unit outcome \<Rightarrow> 'w registry \<times> bool outcome" where
  "reported x =
     (case x of (g, Ok _) \<Rightarrow> (g, Ok False) | (g, Throw e) \<Rightarrow> (g, Ok True) | (g, Crash c) \<Rightarrow> (g, Crash c))"

definition map_outcome :: "('a \<Rightarrow> 'b) \<Rightarrow> 'a outcome \<Rightarrow> 'b outcome" where
  "map_outcome f x = (case x of Ok a \<Rightarrow> Ok (f a) | Throw e \<Rightarrow> Throw e | Crash c \<Rightarrow> Crash c)"

definition createPSC ::
  "evbuffer_api \<Rightarrow> bool \<Rightarrow> bool \<Rightarrow> 'w \<Rightarrow> string \<Rightarrow> string \<Rightarrow> int \<Rightarrow> int \<Rightarrow> 'w registry \<Rightarrow> 'w registry \<times> bool outcome" where
  "createPSC ap loop alloc w n h prt tmo g =
     reported (construct_ev loop n (map_outcome Tcp (PSC_new ap alloc n h (word_of_int prt) (word_of_int tmo) w)) g)"

definition createPSCUDP ::
  "bool \<Rightarrow> bool \<Rightarrow> bool \<Rightarrow> string + u32 \<Rightarrow> string option \<Rightarrow> 'w \<Rightarrow> string \<Rightarrow> string \<Rightarrow> int \<Rightarrow> 'w registry \<Rightarrow>
   'w registry \<times> bool outcome" where
  "createPSCUDP loop sock events resolved bound w n h hostport g =
     reported (construct_ev loop n (map_outcome Udp (PSCUDP_new sock events resolved bound n h (word_of_int hostport) w)) g)"

definition createPSCUDPFast ::
  "fast_conf \<Rightarrow> bool \<Rightarrow> bool \<Rightarrow> nat \<Rightarrow> addr option \<Rightarrow> bool \<Rightarrow> bool \<Rightarrow> 'w \<Rightarrow> string \<Rightarrow> string \<Rightarrow> int \<Rightarrow> 'w registry \<Rightarrow>
   'w registry \<times> bool outcome" where
  "createPSCUDPFast c sock timeo rxbuflen resolved bound named w n h hostport g =
     reported (construct n
       (map_outcome Fast (UDPFast_new c sock timeo rxbuflen resolved bound named n h (word_of_int hostport) w)) g)"

section \<open>Start and stop\<close>

definition on_driver :: "('s \<Rightarrow> 'd) \<Rightarrow> 's \<times> unit outcome \<Rightarrow> 'd \<times> unit outcome" where
  "on_driver c x = (case x of (s, y) \<Rightarrow> (c s, y))"

text \<open>
  The virtual \<open>connect\<close>. \<open>nb\<close> is the bufferevent that libevent makes, \<open>ok\<close> whether the
  connection attempt could be started.
\<close>

fun drv_connect ::
  "'w psc_env \<Rightarrow> 'w udp_env \<Rightarrow> bev option \<Rightarrow> bool \<Rightarrow> 'w driver \<Rightarrow> 'w driver \<times> unit outcome" where
  "drv_connect env uenv nb ok (Tcp s) = on_driver Tcp (connect env nb ok s)"
| "drv_connect env uenv nb ok (Udp s) = on_driver Udp (udp_connect uenv s)"
| "drv_connect env uenv nb ok (Fast s) = (Fast (fast_connect s), Ok ())"

text \<open>\<open>psc_real_exit\<close>, which the loop runs for the driver of number \<open>i\<close>.\<close>

definition psc_real_exit :: "nat \<Rightarrow> (nat \<Rightarrow> 'w driver option) \<Rightarrow> (nat \<Rightarrow> 'w driver option) \<times> unit outcome" where
  "psc_real_exit i os =
     (case os i of
        Some (Tcp s) \<Rightarrow> (case stopinloop s of (t, y) \<Rightarrow> (os(i \<mapsto> Tcp t), y))
      | Some (Udp s) \<Rightarrow> (os(i \<mapsto> Udp (udp_stopinloop s)), Ok ())
      | Some (Fast s) \<Rightarrow> (os, Ok ())
      | None \<Rightarrow> (os, Crash UseAfterFree))"

text \<open>The virtual \<open>stop\<close>: of the drivers that use the event loop, and of the fast receiver.\<close>

definition psc_event_stop :: "nat \<Rightarrow> 'w registry \<Rightarrow> 'w registry \<times> unit outcome" where
  "psc_event_stop i g =
     (case evbase g of
        None \<Rightarrow> (g, Crash NullPointer)
      | Some b \<Rightarrow>
          (case eb_stop psc_real_exit (event_base_once i b) (objs g) of
             (b1, os, y) \<Rightarrow> (g\<lparr>evbase := Some b1, objs := os\<rparr>, y)))"

definition drv_stop :: "nat \<Rightarrow> 'w driver \<Rightarrow> 'w registry \<Rightarrow> 'w registry \<times> unit outcome" where
  "drv_stop i d g =
     (case d of
        Fast s \<Rightarrow> (g\<lparr>objs := (objs g)(i \<mapsto> Fast (fast_stop s))\<rparr>, Ok ())
      | _ \<Rightarrow> psc_event_stop i g)"

definition delete_driver :: "nat \<Rightarrow> 'w registry \<Rightarrow> 'w registry" where
  "delete_driver i g =
     (case objs g i of
        None \<Rightarrow> g
      | Some d \<Rightarrow>
          let g1 = g\<lparr>objs := (objs g)(i := None), deleted := deleted g @ [(i, d)]\<rparr>
          in if uses_loop d then release_base (g1\<lparr>base_refs := base_refs g1 - 1\<rparr>) else g1)"

text \<open>
  The loop of \<open>startAll\<close>, in the order of the names. An exception leaves the loop; a name whose
  object is gone is a dangling pointer.
\<close>

fun start_loop ::
  "(nat \<Rightarrow> 'd \<Rightarrow> 'd \<times> unit outcome) \<Rightarrow> (string \<times> nat) list \<Rightarrow> (nat \<Rightarrow> 'd option) \<Rightarrow>
   (nat \<Rightarrow> 'd option) \<times> unit outcome" where
  "start_loop conn [] os = (os, Ok ())"
| "start_loop conn ((n, i) # xs) os =
     (case os i of
        None \<Rightarrow> (os, Crash NullPointer)
      | Some d \<Rightarrow>
          (case conn i d of
             (d1, Ok _) \<Rightarrow> start_loop conn xs (os(i \<mapsto> d1))
           | (d1, y) \<Rightarrow> (os(i \<mapsto> d1), y)))"

definition startAll ::
  "(nat \<Rightarrow> 'w driver \<Rightarrow> 'w driver \<times> unit outcome) \<Rightarrow> 'w registry \<Rightarrow> 'w registry \<times> unit outcome" where
  "startAll conn g =
     (case start_loop conn (pscmap g) (objs g) of (os, y) \<Rightarrow> (g\<lparr>objs := os\<rparr>, y))"

text \<open>The loop of \<open>stopAll\<close>: every driver is stopped and deleted.\<close>

fun stop_loop :: "(string \<times> nat) list \<Rightarrow> 'w registry \<Rightarrow> 'w registry \<times> unit outcome" where
  "stop_loop [] g = (g, Ok ())"
| "stop_loop ((n, i) # xs) g =
     (case objs g i of
        None \<Rightarrow> (g, Crash NullPointer)
      | Some d \<Rightarrow>
          (case drv_stop i d g of
             (g1, Ok _) \<Rightarrow> stop_loop xs (delete_driver i g1)
           | (g1, y) \<Rightarrow> (g1, y)))"

definition stopAll :: "'w registry \<Rightarrow> 'w registry \<times> unit outcome" where
  "stopAll g = stop_loop (pscmap g) (g\<lparr>pscmap := []\<rparr>)"

text \<open>The hook of the IOC: the exit handler is registered and the drivers are started, once it runs.\<close>

definition PSCHook ::
  "(nat \<Rightarrow> 'w driver \<Rightarrow> 'w driver \<times> unit outcome) \<Rightarrow> bool \<Rightarrow> 'w registry \<Rightarrow> ('w registry \<times> bool) \<times> unit outcome" where
  "PSCHook conn afterIocRunning g =
     (if \<not> afterIocRunning then ((g, False), Ok ())
      else case startAll conn g of (g1, y) \<Rightarrow> ((g1, True), y))"

section \<open>Invariant\<close>

text \<open>Every name leads to an object of its own.\<close>

definition reg_ok :: "'w registry \<Rightarrow> bool" where
  "reg_ok g \<longleftrightarrow> map_ok (pscmap g) \<and> distinct (map snd (pscmap g)) \<and>
     (\<forall>x \<in> set (pscmap g). snd x < fresh g \<and> objs g (snd x) \<noteq> None)"

text \<open>Every registered driver that uses the event loop has a reference to it, and a loop with references exists.\<close>

definition on_loop :: "'w registry \<Rightarrow> string \<times> nat \<Rightarrow> bool" where
  "on_loop g x \<longleftrightarrow> (case objs g (snd x) of Some d \<Rightarrow> uses_loop d | None \<Rightarrow> False)"

definition refs_ok :: "(string \<times> nat) list \<Rightarrow> 'w registry \<Rightarrow> bool" where
  "refs_ok xs g \<longleftrightarrow> length (filter (on_loop g) xs) \<le> base_refs g \<and> (base_refs g > 0 \<longrightarrow> evbase g \<noteq> None)"

lemma distinct_map_set:
  "distinct (map snd xs) \<Longrightarrow> v \<notin> snd ` set xs \<Longrightarrow> distinct (map snd (map_set k v xs))"
proof (induction xs)
  case (Cons x xs)
  have "snd ` set (map_set k v xs) \<subseteq> insert v (snd ` set xs)"
    using set_map_set [of k v xs] by fastforce
  then show ?case using Cons by (cases x) auto
qed simp

lemma reg_ok_new: "reg_ok registry_new"
  by (simp add: reg_ok_def registry_new_def map_ok_def)

lemma erase_subset: "set (map_erase k xs) \<subseteq> set xs"
  by (auto simp: map_erase_def)

lemma erase_set: "set (map_erase k (map_set k v xs)) \<subseteq> set xs"
  using set_map_set [of k v xs] by (auto simp: map_erase_def)

lemma erase_map_set: "map_erase k (map_set k v xs) = map_erase k xs"
  by (induction xs) (auto simp: map_erase_def)

lemma reg_ok_construct:
  assumes "reg_ok g" and "construct n made g = (g1, y)" and "\<not> crashed y"
  shows "reg_ok g1"
proof -
  let ?m = "map_set n (fresh g) (pscmap g)"
  have new: "fresh g \<notin> snd ` set (pscmap g)" using assms(1) unfolding reg_ok_def by fastforce
  then have d: "distinct (map snd ?m)"
    using assms(1) by (intro distinct_map_set) (simp_all add: reg_ok_def)
  have m: "map_ok ?m" using assms(1) by (simp add: reg_ok_def map_ok_set)
  show ?thesis
  proof (cases made)
    case (Ok dv)
    then have "g1 = g\<lparr>pscmap := ?m, fresh := Suc (fresh g), objs := (objs g)(fresh g \<mapsto> dv)\<rparr>"
      using assms(2) by (simp add: construct_def Let_def)
    then show ?thesis
      using assms(1) m d set_map_set [of n "fresh g" "pscmap g"] unfolding reg_ok_def by fastforce
  next
    case (Throw e)
    then have "g1 = g\<lparr>pscmap := map_erase n ?m, fresh := Suc (fresh g)\<rparr>"
      using assms(2) by (auto simp: construct_def Let_def)
    moreover have "distinct (map snd (map_erase n ?m))"
      using d by (simp add: map_erase_def distinct_map_filter)
    ultimately show ?thesis
      using assms(1) m map_ok_erase [of ?m n] erase_set [of n "fresh g" "pscmap g"]
      unfolding reg_ok_def by fastforce
  next
    case (Crash c)
    then show ?thesis using assms(2,3) by (auto simp: construct_def Let_def)
  qed
qed

lemma reg_ok_base [simp]:
  "reg_ok (g\<lparr>evbase := b\<rparr>) = reg_ok g" "reg_ok (g\<lparr>base_refs := n\<rparr>) = reg_ok g" "reg_ok (release_base g) = reg_ok g"
  by (simp_all add: reg_ok_def release_base_def)

lemma reg_ok_construct_ev:
  assumes "reg_ok g" and "construct_ev loop n made g = (g1, y)" and "\<not> crashed y"
  shows "reg_ok g1"
proof (cases "makeBase loop (evbase g)")
  case (Ok b)
  obtain g2 z where c: "construct n made (g\<lparr>evbase := Some b\<rparr>) = (g2, z)" by (cases "construct n made (g\<lparr>evbase := Some b\<rparr>)")
  have "\<not> crashed z" using assms(2,3) Ok c by (cases z) (auto simp: construct_ev_def)
  then have "reg_ok g2" using reg_ok_construct [OF _ c] assms(1) by simp
  then show ?thesis using assms(2) Ok c by (cases z) (auto simp: construct_ev_def)
next
  case (Throw e)
  then show ?thesis using reg_ok_construct [OF assms(1) _ assms(3)] assms(2) by (simp add: construct_ev_def)
next
  case (Crash e)
  then show ?thesis by (simp add: makeBase_def EventBase_new_def split: option.splits if_splits)
qed

lemma filter_map_set:
  "length (filter P (map_set k v xs)) \<le> (if P (k, v) then Suc (length (filter P xs)) else length (filter P xs))"
  by (induction xs) auto

lemma filter_erase: "length (filter P (map_erase k xs)) \<le> length (filter P xs)"
  by (induction xs) (auto simp: map_erase_def)

lemma filter_on_loop: "\<forall>x \<in> set xs. objs h (snd x) = objs g (snd x) \<Longrightarrow> filter (on_loop h) xs = filter (on_loop g) xs"
  by (intro filter_cong) (auto simp: on_loop_def)

text \<open>The counting of the references, over the construction of any driver.\<close>

lemma on_loop_construct:
  assumes "reg_ok g" and "construct n made g = (g1, y)" and "\<not> crashed y"
  shows "length (filter (on_loop g1) (pscmap g1)) \<le> length (filter (on_loop g) (pscmap g)) +
    (case made of Ok d \<Rightarrow> if uses_loop d then 1 else 0 | _ \<Rightarrow> 0)"
    and "evbase g1 = evbase g" and "base_refs g1 = base_refs g"
proof -
  let ?m = "map_set n (fresh g) (pscmap g)"
  have o: "\<forall>x \<in> set (pscmap g). snd x \<noteq> fresh g" using assms(1) by (auto simp: reg_ok_def)
  show "length (filter (on_loop g1) (pscmap g1)) \<le> length (filter (on_loop g) (pscmap g)) +
    (case made of Ok d \<Rightarrow> if uses_loop d then 1 else 0 | _ \<Rightarrow> 0)"
  proof (cases made)
    case (Ok d)
    then have g1: "objs g1 = (objs g)(fresh g \<mapsto> d)" "pscmap g1 = ?m" using assms(2) by (auto simp: construct_def Let_def)
    have "filter (on_loop g1) (pscmap g) = filter (on_loop g) (pscmap g)" using o g1(1) by (intro filter_on_loop) simp
    then show ?thesis
      using filter_map_set [of "on_loop g1" n "fresh g" "pscmap g"] g1 Ok by (simp add: on_loop_def split: if_splits)
  next
    case (Throw e)
    then have g1: "objs g1 = objs g" "pscmap g1 = map_erase n ?m" using assms(2) by (auto simp: construct_def Let_def)
    have "map_erase n ?m = map_erase n (pscmap g)" by (rule erase_map_set)
    moreover have "on_loop g1 = on_loop g" using g1(1) by (simp add: fun_eq_iff on_loop_def)
    ultimately show ?thesis using filter_erase [of "on_loop g" n "pscmap g"] g1(2) by simp
  next
    case (Crash c)
    then show ?thesis using assms(2,3) by (auto simp: construct_def Let_def)
  qed
  show "evbase g1 = evbase g" "base_refs g1 = base_refs g"
    using assms(2) by (auto simp: construct_def Let_def split: outcome.splits)
qed

lemma refs_ok_construct_ev:
  assumes "reg_ok g" and "refs_ok (pscmap g) g" and "construct_ev loop n made g = (g1, y)" and "\<not> crashed y"
  shows "refs_ok (pscmap g1) g1"
proof (cases "makeBase loop (evbase g)")
  case (Ok b)
  let ?h = "g\<lparr>evbase := Some b\<rparr>"
  obtain g2 z where c: "construct n made ?h = (g2, z)" by (cases "construct n made ?h")
  have z: "\<not> crashed z" using assms(3,4) Ok c by (cases z) (auto simp: construct_ev_def)
  have "on_loop ?h = on_loop g" by (simp add: fun_eq_iff on_loop_def)
  then have n: "length (filter (on_loop g2) (pscmap g2)) \<le> base_refs g + (case made of Ok d \<Rightarrow> if uses_loop d then 1 else 0 | _ \<Rightarrow> 0)"
    "evbase g2 = Some b" "base_refs g2 = base_refs g"
    using on_loop_construct [OF _ c z] assms(1,2) by (force simp: refs_ok_def)+
  show ?thesis
  proof (cases made)
    case (Ok d)
    then have "z = Ok ()" using c by (auto simp: construct_def Let_def)
    then have g1: "g1 = g2\<lparr>base_refs := Suc (base_refs g2)\<rparr>" using assms(3) \<open>makeBase loop (evbase g) = Ok b\<close> c by (simp add: construct_ev_def)
    then have "on_loop g1 = on_loop g2" by (simp add: fun_eq_iff on_loop_def)
    then show ?thesis using n g1 Ok by (simp add: refs_ok_def split: if_splits)
  next
    case (Throw e)
    then have "z = Throw e" using c by (auto simp: construct_def Let_def)
    then have g1: "g1 = release_base g2" using assms(3) Ok c by (simp add: construct_ev_def)
    then have "on_loop g1 = on_loop g2" by (simp add: fun_eq_iff on_loop_def release_base_def)
    then show ?thesis using n g1 Throw by (auto simp: refs_ok_def release_base_def)
  next
    case (Crash e)
    then show ?thesis using c z by (auto simp: construct_def Let_def)
  qed
next
  case (Throw e)
  then have c: "construct n (Throw e) g = (g1, y)" using assms(3) by (simp add: construct_ev_def)
  from on_loop_construct [OF assms(1) c assms(4)] show ?thesis using assms(2) by (simp add: refs_ok_def)
next
  case (Crash e)
  then show ?thesis by (simp add: makeBase_def EventBase_new_def split: option.splits if_splits)
qed

lemma start_loop_all:
  assumes "distinct (map snd xs)" and "\<forall>x \<in> set xs. os (snd x) \<noteq> None"
    and "\<forall>x \<in> set xs. snd (conn (snd x) (the (os (snd x)))) = Ok ()"
  shows "start_loop conn xs os =
    (\<lambda>i. if i \<in> snd ` set xs then map_option (\<lambda>d. fst (conn i d)) (os i) else os i, Ok ())"
  using assms
proof (induction xs arbitrary: os)
  case (Cons x xs)
  obtain n i where x: "x = (n, i)" by (cases x)
  obtain d where d: "os i = Some d" using Cons.prems(2) x by auto
  have c: "conn i d = (fst (conn i d), Ok ())"
    using Cons.prems(3) x d by (cases "conn i d") auto
  have i: "i \<notin> snd ` set xs" using Cons.prems(1) x by simp
  have step: "start_loop conn (x # xs) os = start_loop conn xs (os(i \<mapsto> fst (conn i d)))"
    using x d by (subst c, simp, subst c, simp)
  have "start_loop conn xs (os(i \<mapsto> fst (conn i d))) =
      (\<lambda>j. if j \<in> snd ` set xs then map_option (\<lambda>d. fst (conn j d)) ((os(i \<mapsto> fst (conn i d))) j)
           else (os(i \<mapsto> fst (conn i d))) j, Ok ())"
    using Cons.prems i x by (intro Cons.IH) force+
  then show ?case unfolding step using x d i by (auto simp: fun_eq_iff)
qed simp

lemma start_loop_append:
  "start_loop conn (xs @ ys) os =
     (case start_loop conn xs os of (os1, Ok _) \<Rightarrow> start_loop conn ys os1 | (os1, y) \<Rightarrow> (os1, y))"
proof (induction xs arbitrary: os)
  case (Cons x xs)
  obtain n i where x: "x = (n, i)" by (cases x)
  show ?case
  proof (cases "os i")
    case (Some d)
    obtain d1 y where "conn i d = (d1, y)" by (cases "conn i d")
    then show ?thesis using x Some Cons.IH by (cases y) (simp_all del: fun_upd_apply)
  qed (simp add: x)
qed simp

lemma start_loop_frame: "i \<notin> snd ` set xs \<Longrightarrow> fst (start_loop conn xs os) i = os i"
proof (induction xs arbitrary: os)
  case (Cons x xs)
  obtain n j where x: "x = (n, j)" by (cases x)
  show ?case
  proof (cases "os j")
    case (Some d)
    obtain d1 y where "conn j d = (d1, y)" by (cases "conn j d")
    then show ?thesis using x Some Cons by (cases y) simp_all
  qed (simp add: x)
qed simp

text \<open>The end of all drivers: what is left of each when it is deleted. \<open>r\<close>: the event loop runs.\<close>

fun stopped :: "'w driver \<Rightarrow> 'w driver" where
  "stopped (Tcp s) = Tcp (fst (stopinloop s))"
| "stopped (Udp s) = Udp (udp_stopinloop s)"
| "stopped (Fast s) = Fast (fast_stop s)"

fun ends :: "(nat \<Rightarrow> 'w driver option) \<Rightarrow> bool \<Rightarrow> (string \<times> nat) list \<Rightarrow> (nat \<times> 'w driver) list" where
  "ends os r [] = []"
| "ends os r (x # xs) =
     (let d = the (os (snd x))
      in (snd x, if uses_loop d \<and> \<not> r then d else stopped d) # ends os (r \<and> \<not> uses_loop d) xs)"

definition loop_running :: "'w registry \<Rightarrow> bool" where
  "loop_running g \<longleftrightarrow> (\<exists>b. evbase g = Some b \<and> eb_running b)"

definition stop_ready :: "(string \<times> nat) list \<Rightarrow> 'w registry \<Rightarrow> bool" where
  "stop_ready xs g \<longleftrightarrow>
     distinct (map snd xs) \<and> (\<forall>x \<in> set xs. objs g (snd x) \<noteq> None) \<and> refs_ok xs g \<and>
     (\<forall>b. evbase g = Some b \<and> eb_running b \<longrightarrow> eb_pending b = []) \<and>
     (\<forall>x \<in> set xs. \<forall>s. objs g (snd x) = Some (Tcp s) \<and> connected s \<longrightarrow> session s \<noteq> None)"

lemma ends_cong: "\<forall>x \<in> set xs. os' (snd x) = os (snd x) \<Longrightarrow> ends os' r xs = ends os r xs"
  by (induction xs arbitrary: r) (simp_all add: Let_def)

lemma ends_append:
  "\<forall>x \<in> set xs. objs g (snd x) \<noteq> None \<Longrightarrow>
     ends (objs g) r (xs @ ys) = ends (objs g) r xs @ ends (objs g) (r \<and> filter (on_loop g) xs = []) ys"
proof (induction xs arbitrary: r)
  case (Cons x xs)
  obtain d where "objs g (snd x) = Some d" using Cons.prems by auto
  then show ?case using Cons by (auto simp: Let_def on_loop_def)
qed simp

lemma stopinloop_returns: "(connected s \<longrightarrow> session s \<noteq> None) \<Longrightarrow> snd (stopinloop s) = Ok ()"
  by (auto simp: stopinloop_def Let_def)

text \<open>Stopping one driver.\<close>

lemma drv_stop_fast: "drv_stop i (Fast s) g = (g\<lparr>objs := (objs g)(i \<mapsto> stopped (Fast s))\<rparr>, Ok ())"
  by (simp add: drv_stop_def)

lemma drv_stop_loop:
  assumes "uses_loop d" and "objs g i = Some d" and "evbase g = Some b" and "eb_running b \<longrightarrow> eb_pending b = []"
    and "\<forall>s. d = Tcp s \<and> connected s \<longrightarrow> session s \<noteq> None"
  shows "\<exists>b1. \<not> eb_running b1 \<and> drv_stop i d g =
    (g\<lparr>evbase := Some b1, objs := (objs g)(i \<mapsto> if eb_running b then stopped d else d)\<rparr>, Ok ())"
proof (cases "eb_running b")
  case True
  have "psc_real_exit i (objs g) = ((objs g)(i \<mapsto> stopped d), Ok ())"
  proof (cases d)
    case (Tcp s)
    then show ?thesis
      using stopinloop_returns [of s] assms(2,5) by (cases "stopinloop s") (auto simp: psc_real_exit_def)
  qed (use assms(1,2) in \<open>simp_all add: psc_real_exit_def\<close>)
  from eb_stop_first [where call = psc_real_exit, OF True _ this] assms(4) True
  have "eb_stop psc_real_exit (event_base_once i b) (objs g) =
      (b\<lparr>eb_pending := [], eb_keepalive := False, eb_running := False\<rparr>, (objs g)(i \<mapsto> stopped d), Ok ())" by simp
  then show ?thesis using True assms(1,3)
    by (intro exI [of _ "b\<lparr>eb_pending := [], eb_keepalive := False, eb_running := False\<rparr>"], cases d)
      (simp_all add: drv_stop_def psc_event_stop_def)
next
  case False
  have "(objs g)(i \<mapsto> d) = objs g" using assms(2) by auto
  then show ?thesis using False assms(1,3)
    by (intro exI [of _ "event_base_once i b"], cases d)
      (simp_all add: drv_stop_def psc_event_stop_def eb_stop_def event_base_once_def)
qed

lemma on_loop_cong: "objs g' (snd x) = objs g (snd x) \<Longrightarrow> on_loop g' x = on_loop g x"
  by (simp add: on_loop_def)

lemma stop_step:
  assumes "stop_ready (x # xs) g" and "objs g (snd x) = Some d"
  shows "\<exists>g1. drv_stop (snd x) d g = (g1, Ok ()) \<and> stop_ready xs (delete_driver (snd x) g1) \<and>
    pscmap (delete_driver (snd x) g1) = pscmap g \<and> objs (delete_driver (snd x) g1) = (objs g)(snd x := None) \<and>
    loop_running (delete_driver (snd x) g1) = (loop_running g \<and> \<not> uses_loop d) \<and>
    deleted (delete_driver (snd x) g1) = deleted g @ [(snd x, if uses_loop d \<and> \<not> loop_running g then d else stopped d)]"
proof -
  let ?i = "snd x"
  have r: "distinct (map snd xs)" "?i \<notin> snd ` set xs" "\<forall>y \<in> set xs. objs g (snd y) \<noteq> None" "refs_ok (x # xs) g"
    "\<forall>b. evbase g = Some b \<and> eb_running b \<longrightarrow> eb_pending b = []"
    "\<forall>y \<in> set (x # xs). \<forall>s. objs g (snd y) = Some (Tcp s) \<and> connected s \<longrightarrow> session s \<noteq> None"
    using assms(1) by (auto simp: stop_ready_def)
  have other: "snd y \<noteq> ?i" if "y \<in> set xs" for y using r(2) that by (metis imageI)
  have flt: "filter (on_loop h) xs = filter (on_loop g) xs" if "objs h = (objs g)(?i := None)" for h
    using that other by (intro filter_cong) (auto simp: on_loop_def)
  show ?thesis
  proof (cases "uses_loop d")
    case False
    then obtain s where d: "d = Fast s" by (cases d) auto
    let ?h = "g\<lparr>objs := (objs g)(?i := None), deleted := deleted g @ [(?i, stopped d)]\<rparr>"
    have "delete_driver ?i (g\<lparr>objs := (objs g)(?i \<mapsto> stopped d)\<rparr>) = ?h" by (simp add: delete_driver_def d)
    moreover have "\<not> on_loop g x" using assms(2) d by (simp add: on_loop_def)
    then have "refs_ok xs ?h" using r(4) flt [of ?h] by (simp add: refs_ok_def)
    ultimately show ?thesis
      using drv_stop_fast [of ?i s g] r other d by (auto simp: stop_ready_def loop_running_def)
  next
    case True
    have n: "Suc (length (filter (on_loop g) xs)) \<le> base_refs g" "base_refs g > 0 \<longrightarrow> evbase g \<noteq> None"
      using r(4) assms(2) True by (auto simp: refs_ok_def on_loop_def)
    then obtain b where b: "evbase g = Some b" by auto
    have "\<forall>s. d = Tcp s \<and> connected s \<longrightarrow> session s \<noteq> None" using r(6) assms(2) by simp
    from drv_stop_loop [OF True assms(2) b _ this] r(5) b obtain b1 where b1: "\<not> eb_running b1"
      "drv_stop ?i d g = (g\<lparr>evbase := Some b1, objs := (objs g)(?i \<mapsto> if eb_running b then stopped d else d)\<rparr>, Ok ())"
      by blast
    let ?e = "if eb_running b then stopped d else d"
    let ?h = "g\<lparr>evbase := Some b1, objs := (objs g)(?i := None), deleted := deleted g @ [(?i, ?e)], base_refs := base_refs g - 1\<rparr>"
    have ue: "uses_loop ?e" using True by (cases d) simp_all
    then have del: "delete_driver ?i (g\<lparr>evbase := Some b1, objs := (objs g)(?i \<mapsto> ?e)\<rparr>) = release_base ?h"
      by (simp add: delete_driver_def)
    have h: "objs (release_base ?h) = (objs g)(?i := None)" "base_refs (release_base ?h) = base_refs g - 1"
      "pscmap (release_base ?h) = pscmap g" "deleted (release_base ?h) = deleted g @ [(?i, ?e)]"
      "evbase (release_base ?h) = (if base_refs g - 1 = 0 then None else Some b1)"
      by (simp_all add: release_base_def)
    have "length (filter (on_loop (release_base ?h)) xs) \<le> base_refs g - 1" using flt [OF h(1)] n(1) by simp
    then have "refs_ok xs (release_base ?h)" unfolding refs_ok_def h by simp
    then have "stop_ready xs (release_base ?h)"
      using r other b1(1) unfolding stop_ready_def h by (auto split: if_splits)
    then show ?thesis
      using b1 del h b True by (auto simp: loop_running_def split: if_splits)
  qed
qed

lemma stop_loop_all:
  assumes "stop_ready xs g"
  shows "\<exists>g1. stop_loop xs g = (g1, Ok ()) \<and> pscmap g1 = pscmap g \<and>
    objs g1 = (\<lambda>i. if i \<in> snd ` set xs then None else objs g i) \<and> deleted g1 = deleted g @ ends (objs g) (loop_running g) xs"
  using assms
proof (induction xs arbitrary: g)
  case (Cons x xs)
  obtain n i where x: "x = (n, i)" by (cases x)
  obtain d where d: "objs g i = Some d" using Cons.prems x by (auto simp: stop_ready_def)
  obtain g1 where g1: "drv_stop i d g = (g1, Ok ())" "stop_ready xs (delete_driver i g1)"
    "pscmap (delete_driver i g1) = pscmap g" "objs (delete_driver i g1) = (objs g)(i := None)"
    "loop_running (delete_driver i g1) = (loop_running g \<and> \<not> uses_loop d)"
    "deleted (delete_driver i g1) = deleted g @ [(i, if uses_loop d \<and> \<not> loop_running g then d else stopped d)]"
    using stop_step [OF Cons.prems] d x by auto
  have "i \<notin> snd ` set xs" using Cons.prems x by (auto simp: stop_ready_def)
  then have "ends ((objs g)(i := None)) r xs = ends (objs g) r xs" for r by (intro ends_cong) force
  moreover obtain g2 where "stop_loop xs (delete_driver i g1) = (g2, Ok ())" "pscmap g2 = pscmap g"
    "objs g2 = (\<lambda>j. if j \<in> snd ` set xs then None else ((objs g)(i := None)) j)"
    "deleted g2 = deleted (delete_driver i g1) @ ends ((objs g)(i := None)) (loop_running (delete_driver i g1)) xs"
    using Cons.IH [OF g1(2)] unfolding g1(3,4) by blast
  ultimately show ?case using x d g1(1,5,6) by (auto simp: Let_def)
qed simp

lemma reg_lookup_objs: "reg_ok g \<Longrightarrow> getPSCBase n g = Some i \<Longrightarrow> i \<in> snd ` set (pscmap g)"
  unfolding getPSCBase_def using map_of_SomeD by force

definition tcp_driver :: "evbuffer_api \<Rightarrow> 'w \<Rightarrow> string \<Rightarrow> string \<Rightarrow> int \<Rightarrow> int \<Rightarrow> 'w driver" where
  "tcp_driver ap w n h prt tmo =
     Tcp (psc_base.extend (psc_base_new n h (word_of_int prt))
       \<lparr>mask = word_of_int tmo, session = None, timer_active = False, have_head = False,
        header = 0, bodylen = 0, bodyblock = None, expect = HEADER_SIZE,
        sendbuf = the (evbuffer_new ap), ticks = 0, world = w\<rparr>)"

lemma createPSC_made:
  assumes "loop \<or> evbase g \<noteq> None" and "alloc" and "evbuffer_new ap \<noteq> None"
  shows "createPSC ap loop alloc w n h prt tmo g =
    (g\<lparr>pscmap := map_set n (fresh g) (pscmap g), fresh := Suc (fresh g),
       objs := (objs g)(fresh g \<mapsto> tcp_driver ap w n h prt tmo),
       evbase := Some (case evbase g of Some b \<Rightarrow> b | None \<Rightarrow> \<lparr>eb_running = True, eb_keepalive = False, eb_pending = []\<rparr>),
       base_refs := Suc (base_refs g)\<rparr>, Ok False)"
  using assms
  by (auto simp: createPSC_def construct_ev_def construct_def reported_def map_outcome_def PSC_new_def Let_def
      makeBase_def EventBase_new_def tcp_driver_def split: option.splits)

lemma createPSC_fails:
  assumes "\<not> ((loop \<or> evbase g \<noteq> None) \<and> alloc \<and> evbuffer_new ap \<noteq> None)"
  shows "\<exists>b. createPSC ap loop alloc w n h prt tmo g =
    (g\<lparr>pscmap := map_erase n (map_set n (fresh g) (pscmap g)), fresh := Suc (fresh g), evbase := b\<rparr>, Ok True)"
proof (cases "loop \<or> evbase g \<noteq> None")
  case True
  then have "\<exists>b. makeBase loop (evbase g) = Ok b" by (cases "evbase g") (simp_all add: makeBase_def EventBase_new_def)
  then obtain b where "makeBase loop (evbase g) = Ok b" ..
  then show ?thesis
    using assms True
    by (intro exI [of _ "if base_refs g = 0 then None else Some b"])
      (auto simp: createPSC_def construct_ev_def construct_def reported_def map_outcome_def PSC_new_def Let_def
        release_base_def split: option.splits)
next
  case False
  then show ?thesis
    by (intro exI [of _ "evbase g"])
      (simp add: createPSC_def construct_ev_def construct_def reported_def Let_def makeBase_def EventBase_new_def)
qed

section \<open>Properties\<close>

text \<open>
  the iocsh command \<open>createPSC\<close>, from any state of the registry: on success the name leads
  to the new driver, with the configured peer; on failure the name is free, also when it
  belonged to another driver before, which is then unreachable; other names are not
  affected, the registry stays ordered with one object per name, and the references to the event loop stay right.
\<close>

theorem registry_create:
  assumes "reg_ok g"
  shows "\<exists>g1 err. createPSC ap loop alloc w n h prt tmo g = (g1, Ok err) \<and> reg_ok g1 \<and> (refs_ok (pscmap g) g \<longrightarrow> refs_ok (pscmap g1) g1) \<and>
    (\<forall>m. m \<noteq> n \<longrightarrow> getPSCBase m g1 = getPSCBase m g) \<and>
    (if err then getPSCBase n g1 = None
     else getPSCBase n g1 = Some (fresh g) \<and>
       (\<exists>s. objs g1 (fresh g) = Some (Tcp s) \<and> name s = n \<and> host s = h \<and> port s = word_of_int prt))"
proof -
  let ?made = "map_outcome Tcp (PSC_new ap alloc n h (word_of_int prt) (word_of_int tmo) w)"
  have m: "map_ok (pscmap g)" using assms by (simp add: reg_ok_def)
  have ok: "reg_ok g1" "refs_ok (pscmap g) g \<longrightarrow> refs_ok (pscmap g1) g1"
    if c: "createPSC ap loop alloc w n h prt tmo g = (g1, Ok err)" for g1 err
  proof -
    obtain y where y: "construct_ev loop n ?made g = (g1, y)" "\<not> crashed y"
      using c unfolding createPSC_def reported_def
      by (cases "construct_ev loop n ?made g") (auto split: outcome.splits)
    show "reg_ok g1" "refs_ok (pscmap g) g \<longrightarrow> refs_ok (pscmap g1) g1"
      using reg_ok_construct_ev [OF assms y] refs_ok_construct_ev [OF assms _ y] by blast+
  qed
  show ?thesis
  proof (cases "(loop \<or> evbase g \<noteq> None) \<and> alloc \<and> evbuffer_new ap \<noteq> None")
    case True
    then have "loop \<or> evbase g \<noteq> None" "alloc" "evbuffer_new ap \<noteq> None" by simp_all
    note c = createPSC_made [OF this, of w n h prt tmo]
    show ?thesis
      by (intro exI conjI, rule c, rule ok(1) [OF c], rule ok(2) [OF c])
        (simp_all add: getPSCBase_def map_of_map_set [OF m] tcp_driver_def psc_base.defs psc_base_new_def)
  next
    case False
    obtain b where c: "createPSC ap loop alloc w n h prt tmo g =
        (g\<lparr>pscmap := map_erase n (map_set n (fresh g) (pscmap g)), fresh := Suc (fresh g), evbase := b\<rparr>, Ok True)"
      using createPSC_fails [OF False] by blast
    show ?thesis
      by (intro exI conjI, rule c, rule ok(1) [OF c], rule ok(2) [OF c])
        (simp_all add: getPSCBase_def map_of_map_set [OF m] map_of_map_erase)
  qed
qed

definition demo_reg :: "unit registry" where
  "demo_reg = fst (createPSC chunk_api True True () ''b'' ''h'' 1 0 (fst (createPSC chunk_api True True () ''a'' ''h'' 2 0 registry_new)))"

lemma demo_reg_eq:
  "demo_reg = \<lparr>pscmap = [(''a'', 0), (''b'', 1)],
     objs = [0 \<mapsto> tcp_driver chunk_api () ''a'' ''h'' 2 0, 1 \<mapsto> tcp_driver chunk_api () ''b'' ''h'' 1 0],
     fresh = 2, evbase = Some \<lparr>eb_running = True, eb_keepalive = False, eb_pending = []\<rparr>, base_refs = 2, deleted = []\<rparr>"
proof -
  have "evbuffer_new chunk_api \<noteq> None" by (simp add: chunk_api_def)
  then show ?thesis
    by (simp add: demo_reg_def createPSC_made registry_new_def less_char_def)
qed

lemma demo_reg_ok:
  "reg_ok demo_reg" "pscmap demo_reg = [(''a'', 0), (''b'', 1)]" "fresh demo_reg = 2"
  by (simp_all add: demo_reg_eq reg_ok_def map_ok_def less_char_def)

theorem registry_create_witness:
  "\<exists>g1. createPSC chunk_api True False () ''a'' ''h'' 3 0 demo_reg = (g1, Ok True) \<and>
     getPSCBase ''a'' demo_reg = Some 0 \<and> getPSCBase ''a'' g1 = None \<and> getPSCBase ''b'' g1 = Some 1"
proof -
  obtain g1 err where g1: "createPSC chunk_api True False () ''a'' ''h'' 3 0 demo_reg = (g1, Ok err)"
    "\<forall>m. m \<noteq> ''a'' \<longrightarrow> getPSCBase m g1 = getPSCBase m demo_reg" "err \<longrightarrow> getPSCBase ''a'' g1 = None"
    using registry_create [OF demo_reg_ok(1), of chunk_api True False "()" "''a''" "''h''" 3 0]
    by (elim exE conjE) (rule that, assumption, assumption, simp)
  have e: err using g1(1) createPSC_fails [of True demo_reg False chunk_api "()" "''a''" "''h''" 3 0] by auto
  have b: "getPSCBase ''b'' demo_reg = Some 1" "getPSCBase ''a'' demo_reg = Some 0"
    by (simp_all add: getPSCBase_def demo_reg_ok(2))
  have "getPSCBase ''b'' g1 = getPSCBase ''b'' demo_reg" using g1(2) by simp
  then show ?thesis using g1(1,3) e b by simp
qed

text \<open>
  the start of the IOC connects the registered drivers in the order of their names, each
  once, as long as \<open>connect\<close> succeeds; when \<open>connect\<close> of one driver throws, the exception leaves
  the hook and the drivers behind it are not started at all.
\<close>

theorem registry_start:
  assumes "reg_ok g" and "pscmap g = xs @ ys"
    and "\<forall>x \<in> set xs. snd (conn (snd x) (the (objs g (snd x)))) = Ok ()"
  shows "\<exists>g1 y. PSCHook conn True g = ((g1, True), y) \<and> pscmap g1 = pscmap g \<and>
    (\<forall>i \<in> snd ` set xs. objs g1 i = map_option (\<lambda>d. fst (conn i d)) (objs g i)) \<and>
    (\<forall>i. i \<notin> snd ` set (pscmap g) \<longrightarrow> objs g1 i = objs g i) \<and> (ys = [] \<longrightarrow> y = Ok ()) \<and>
    (\<forall>n i d e zs. ys = (n, i) # zs \<and> objs g i = Some d \<and> snd (conn i d) = Throw e \<longrightarrow>
       y = Throw e \<and> (\<forall>j \<in> snd ` set zs. objs g1 j = objs g j))"
proof -
  let ?os = "\<lambda>i. if i \<in> snd ` set xs then map_option (\<lambda>d. fst (conn i d)) (objs g i) else objs g i"
  have dist: "distinct (map snd (xs @ ys))" "\<forall>x \<in> set (xs @ ys). objs g (snd x) \<noteq> None"
    using assms(1,2) by (simp_all add: reg_ok_def)
  have "start_loop conn xs (objs g) = (?os, Ok ())"
    using dist by (intro start_loop_all assms(3)) simp_all
  then have loop: "start_loop conn (pscmap g) (objs g) = start_loop conn ys ?os"
    by (simp add: assms(2) start_loop_append)
  obtain os1 y where l: "start_loop conn ys ?os = (os1, y)" by (cases "start_loop conn ys ?os")
  have fr: "os1 i = ?os i" if "i \<notin> snd ` set ys" for i
    using start_loop_frame [OF that, of conn ?os] l by simp
  have hook: "PSCHook conn True g = ((g\<lparr>objs := os1\<rparr>, True), y)"
    using loop l by (simp add: PSCHook_def startAll_def)
  have dj: "i \<notin> snd ` set ys" if "i \<in> snd ` set xs" for i using dist(1) that by auto
  have "os1 i = map_option (\<lambda>d. fst (conn i d)) (objs g i)" if "i \<in> snd ` set xs" for i
    using fr [OF dj [OF that]] that by simp
  moreover have "os1 i = objs g i" if "i \<notin> snd ` set (pscmap g)" for i
    using fr [of i] that assms(2) by (simp add: image_Un)
  moreover have "y = Ok ()" if "ys = []" using l that by simp
  moreover have "y = Throw e \<and> (\<forall>j \<in> snd ` set zs. os1 j = objs g j)"
    if f: "ys = (n, i) # zs" "objs g i = Some d" "snd (conn i d) = Throw e" for n i d e zs
  proof -
    have "i \<notin> snd ` set xs" "\<forall>j \<in> snd ` set zs. j \<noteq> i \<and> j \<notin> snd ` set xs"
      using dist(1) f(1) by auto
    then show ?thesis using l f by (cases "conn i d") auto
  qed
  ultimately show ?thesis using hook by (intro exI [of _ "g\<lparr>objs := os1\<rparr>"] exI [of _ y]) auto
qed

theorem registry_start_witness:
  "\<exists>g1. PSCHook (\<lambda>i d. if i = 1 then (d, Throw BadAlloc) else (d, Ok ())) True demo_reg = ((g1, True), Throw BadAlloc)"
proof -
  let ?c = "\<lambda>i d. if i = 1 then (d, Throw BadAlloc) else (d, Ok ()) :: unit driver \<times> unit outcome"
  obtain d where d: "objs demo_reg 1 = Some d"
    using demo_reg_ok(1,2) by (auto simp: reg_ok_def)
  show ?thesis
    using registry_start [OF demo_reg_ok(1), of "[(''a'', 0)]" "[(''b'', 1)]" ?c] d demo_reg_ok(2) by auto
qed

text \<open>
  C34: the exit handler deletes every registered driver and empties the registry, from any state in which the references
  to the event loop are right and the connected TCP drivers have a session. A fast receiver is stopped before it is
  deleted. Of the drivers that share the event loop, the first in the order of the names is stopped, and this ends the
  loop: the ones behind it are deleted as they were, \<open>stopinloop\<close> was never run for them.
\<close>

theorem registry_stop:
  assumes "reg_ok g" and "refs_ok (pscmap g) g"
    and "\<forall>b. evbase g = Some b \<and> eb_running b \<longrightarrow> eb_pending b = []"
    and "\<forall>i s. objs g i = Some (Tcp s) \<and> connected s \<longrightarrow> session s \<noteq> None"
  shows "\<exists>g1. stopAll g = (g1, Ok ()) \<and> pscmap g1 = [] \<and>
    (\<forall>i. objs g1 i = (if i \<in> snd ` set (pscmap g) then None else objs g i)) \<and>
    deleted g1 = deleted g @ ends (objs g) (loop_running g) (pscmap g) \<and>
    (\<forall>xs ys x d. pscmap g = xs @ x # ys \<and> objs g (snd x) = Some d \<longrightarrow>
       (snd x, if uses_loop d \<and> (filter (on_loop g) xs \<noteq> [] \<or> \<not> loop_running g) then d else stopped d) \<in> set (deleted g1))"
proof -
  let ?h = "g\<lparr>pscmap := []\<rparr>"
  have "on_loop ?h = on_loop g" by (simp add: fun_eq_iff on_loop_def)
  then have "stop_ready (pscmap g) ?h"
    using assms by (auto simp: stop_ready_def reg_ok_def refs_ok_def)
  from stop_loop_all [OF this] have "\<exists>g1. stopAll g = (g1, Ok ()) \<and> pscmap g1 = [] \<and>
    objs g1 = (\<lambda>i. if i \<in> snd ` set (pscmap g) then None else objs g i) \<and>
    deleted g1 = deleted g @ ends (objs g) (loop_running g) (pscmap g)"
    by (simp add: stopAll_def loop_running_def cong: if_cong)
  then obtain g1 where g1: "stopAll g = (g1, Ok ())" "pscmap g1 = []"
    "objs g1 = (\<lambda>i. if i \<in> snd ` set (pscmap g) then None else objs g i)"
    "deleted g1 = deleted g @ ends (objs g) (loop_running g) (pscmap g)"
    by blast
  have "(snd x, if uses_loop d \<and> (filter (on_loop g) xs \<noteq> [] \<or> \<not> loop_running g) then d else stopped d) \<in> set (deleted g1)"
    if s: "pscmap g = xs @ x # ys" "objs g (snd x) = Some d" for xs ys x d
  proof -
    have "\<forall>y \<in> set xs. objs g (snd y) \<noteq> None" using assms(1) s(1) by (auto simp: reg_ok_def)
    from ends_append [OF this, of "loop_running g" "x # ys"] show ?thesis
      unfolding g1(4) s(1) using s(2) by (auto simp: Let_def)
  qed
  then show ?thesis by (intro exI [of _ g1]) (simp add: g1(1-3) g1(4) [symmetric])
qed

theorem registry_stop_witness:
  "\<exists>g1. stopAll demo_reg = (g1, Ok ()) \<and> pscmap g1 = [] \<and> objs g1 0 = None \<and>
     (1, tcp_driver chunk_api () ''b'' ''h'' 1 0) \<in> set (deleted g1)"
proof -
  have r: "refs_ok (pscmap demo_reg) demo_reg" "on_loop demo_reg (''a'', 0)"
    by (simp_all add: demo_reg_eq refs_ok_def on_loop_def tcp_driver_def)
  have s: "\<forall>i s. objs demo_reg i = Some (Tcp s) \<and> connected s \<longrightarrow> session s \<noteq> None"
    by (auto simp: demo_reg_eq tcp_driver_def psc_base.defs psc_base_new_def split: if_splits)
  obtain g1 where g1: "stopAll demo_reg = (g1, Ok ())" "pscmap g1 = []"
    "\<forall>i. objs g1 i = (if i \<in> snd ` set (pscmap demo_reg) then None else objs demo_reg i)"
    "\<forall>xs ys x d. pscmap demo_reg = xs @ x # ys \<and> objs demo_reg (snd x) = Some d \<longrightarrow>
       (snd x, if uses_loop d \<and> (filter (on_loop demo_reg) xs \<noteq> [] \<or> \<not> loop_running demo_reg) then d else stopped d)
         \<in> set (deleted g1)"
    using registry_stop [OF demo_reg_ok(1) r(1) _ s] by (auto simp: demo_reg_eq)
  have "objs demo_reg 1 = Some (tcp_driver chunk_api () ''b'' ''h'' 1 0)" by (simp add: demo_reg_eq)
  with g1(4) [rule_format, of "[(''a'', 0)]" "(''b'', 1)" "[]"] r(2) g1(1-3) show ?thesis
    by (auto simp: demo_reg_ok(2) tcp_driver_def)
qed

end
