(* ===== verification/Dev_Reg.thy ===== *)
theory Dev_Reg
  imports Dev_Common
begin

text \<open>
  Register device support (coreApp/src/devPSCReg.cpp): records that read or write a value of
  fixed size at an offset in the body of a message. Values are memory images in host byte
  order; binary records hold 32 bit words and may be restricted to a bit mask.

  The device support is a client of the driver only through the block's buffer, so the
  definitions take any driver state that extends \<open>psc_base\<close>. A floating point value is a
  parameter \<open>dbl\<close> that gives the number a memory image stands for, or \<open>img\<close> for its inverse.
\<close>

section \<open>Records\<close>

record bin_rec = dev_rec +
  r_mask :: u32
  r_shft :: nat
  r_rval :: u32

record val_rec = dev_rec +
  r_val :: "byte list"

record 'f ana_rec = dev_rec +
  a_rval :: u32
  a_val :: 'f
  a_udf :: bool
  a_conv :: "'f analog"

definition extra_init :: "bin_rec \<Rightarrow> bin_rec" where
  "extra_init r = r\<lparr>r_mask := push_bit (r_shft r) (r_mask r)\<rparr>"

section \<open>Access to a field of a block\<close>

definition read_to_field ::
  "evbuffer_api \<Rightarrow> bool \<Rightarrow> priv \<Rightarrow> nat \<Rightarrow> 'a psc_base_scheme \<Rightarrow> 'r dev_rec_scheme \<Rightarrow>
   'r dev_rec_scheme \<times> byte list outcome" where
  "read_to_field api le p n s r =
     (let r1 = (if \<not> connected s then recGblSetSevr READ_ALARM INVALID_ALARM r else r)
      in case deref (p_block p) s of
           None \<Rightarrow> (r1, Crash NullPointer)
         | Some b \<Rightarrow>
             if p_offset p > dbuffer_size api (data b)
             then (r1, Throw (RecAlarm SOFT_ALARM INVALID_ALARM))
             else (case copyout_shape api (data b) (p_offset p) n 0 1 of
                     Ok (k, img) \<Rightarrow>
                       if k \<noteq> 1 then (r1, Throw (RecAlarm SOFT_ALARM INVALID_ALARM))
                       else (r1, Ok (ntoh le img))
                   | Throw e \<Rightarrow> (r1, Throw e)
                   | Crash c \<Rightarrow> (r1, Crash c)))"

definition write_from_field ::
  "evbuffer_api \<Rightarrow> bool \<Rightarrow> priv \<Rightarrow> byte list \<Rightarrow> 'a psc_base_scheme \<Rightarrow> 'r dev_rec_scheme \<Rightarrow>
   'r dev_rec_scheme \<times> 'a psc_base_scheme \<times> unit outcome" where
  "write_from_field api le p img s r =
     (let r1 = (if \<not> connected s then recGblSetSevr WRITE_ALARM INVALID_ALARM r else r);
          temp = hton le img
      in case deref (p_block p) s of
           None \<Rightarrow> (r1, s, Crash NullPointer)
         | Some b \<Rightarrow>
             if p_offset p > dbuffer_size api (data b)
             then (r1, s, Throw (RecAlarm SOFT_ALARM INVALID_ALARM))
             else
               let (d, ok) = dbuffer_copyin (data b) temp (p_offset p);
                   s1 = upd_block (p_block p) (\<lambda>b. b\<lparr>data := d\<rparr>) s
               in (r1, s1, if ok then Ok () else Throw (RecAlarm SOFT_ALARM INVALID_ALARM)))"

section \<open>Entry points\<close>

text \<open>A record without private data (its link was not understood) returns an error.\<close>

definition with_priv ::
  "priv option \<Rightarrow> (priv \<Rightarrow> 'r dev_rec_scheme \<times> 's \<times> dev_ret outcome) \<Rightarrow> 'r dev_rec_scheme \<Rightarrow> 's \<Rightarrow>
   'r dev_rec_scheme \<times> 's \<times> dev_ret outcome" where
  "with_priv dpvt body r s =
     (case dpvt of None \<Rightarrow> (r, s, Ok DevErr) | Some p \<Rightarrow> CATCH (body p))"

text \<open>
  \<open>init_input\<close>, \<open>init_rb\<close> (read back of settings) and \<open>init_output\<close> differ in the direction
  they ask \<open>parse_link\<close> for: 0 for received blocks, 1 for blocks to send. The result is the
  private data, if any. \<open>extra\<close> is \<open>extra_init\<close> for the records that have a mask to shift, and the
  identity for the others.
\<close>

definition init_reg ::
  "('r dev_rec_scheme \<Rightarrow> 'r dev_rec_scheme) \<Rightarrow> (string \<Rightarrow> bool) \<Rightarrow> nat option \<Rightarrow> bool \<Rightarrow> rec_ptr \<Rightarrow> string \<Rightarrow> nat \<Rightarrow>
   'r dev_rec_scheme \<Rightarrow> 'a psc_base_scheme \<Rightarrow>
   'r dev_rec_scheme \<times> ('a psc_base_scheme \<times> priv option) \<times> dev_ret outcome" where
  "init_reg extra found ts onconn rp link direction r s =
     (let r1 = extra r
      in case parse_link found ts onconn rp link direction s of
           (s1, Ok p) \<Rightarrow> (r1, (s1, Some p), Ok DevOk)
         | (s1, Throw e) \<Rightarrow> CATCH (r1, (s1, None), Throw e)
         | (s1, Crash c) \<Rightarrow> (r1, (s1, None), Crash c))"

text \<open>
  The common shape of the readers: read the field, store it with \<open>f\<close>, take the time stamp.
\<close>

definition read_then ::
  "evbuffer_api \<Rightarrow> bool \<Rightarrow> (epics_time \<Rightarrow> epics_time outcome) \<Rightarrow> nat \<Rightarrow>
   (byte list \<Rightarrow> 'r dev_rec_scheme \<Rightarrow> 'r dev_rec_scheme) \<Rightarrow> dev_ret \<Rightarrow> 'a psc_base_scheme \<Rightarrow>
   'r dev_rec_scheme \<Rightarrow> priv \<Rightarrow> 'r dev_rec_scheme \<times> 'a psc_base_scheme \<times> dev_ret outcome" where
  "read_then api le mk n f ret s r p =
     (case read_to_field api le p n s r of
        (r1, Ok img) \<Rightarrow>
          (case setRecTimestamp api mk p s (f img r1) of
             (r2, Ok _) \<Rightarrow> (r2, s, Ok ret)
           | (r2, Throw e) \<Rightarrow> (r2, s, Throw e)
           | (r2, Crash c) \<Rightarrow> (r2, s, Crash c))
      | (r1, Throw e) \<Rightarrow> (r1, s, Throw e)
      | (r1, Crash c) \<Rightarrow> (r1, s, Crash c))"

definition masked :: "u32 \<Rightarrow> u32 \<Rightarrow> u32" where
  "masked m w = (if m \<noteq> 0 then w AND m else w)"

definition read_binary ::
  "evbuffer_api \<Rightarrow> bool \<Rightarrow> (epics_time \<Rightarrow> epics_time outcome) \<Rightarrow> priv option \<Rightarrow> bin_rec \<Rightarrow>
   'a psc_base_scheme \<Rightarrow> bin_rec \<times> 'a psc_base_scheme \<times> dev_ret outcome" where
  "read_binary api le mk dpvt r s =
     with_priv dpvt (read_then api le mk 4 (\<lambda>img r. r\<lparr>r_rval := masked (r_mask r) (unhost32 le img)\<rparr>) DevOk s r) r s"

text \<open>\<open>read_to_val\<close> of a record whose VAL has \<open>n\<close> bytes (4 for longin, 8 for int64in).\<close>

definition read_to_val ::
  "evbuffer_api \<Rightarrow> bool \<Rightarrow> (epics_time \<Rightarrow> epics_time outcome) \<Rightarrow> nat \<Rightarrow> priv option \<Rightarrow> val_rec \<Rightarrow>
   'a psc_base_scheme \<Rightarrow> val_rec \<times> 'a psc_base_scheme \<times> dev_ret outcome" where
  "read_to_val api le mk n dpvt r s =
     with_priv dpvt (read_then api le mk n (\<lambda>img r. r\<lparr>r_val := img\<rparr>) DevOk s r) r s"

definition read_ai ::
  "evbuffer_api \<Rightarrow> bool \<Rightarrow> (epics_time \<Rightarrow> epics_time outcome) \<Rightarrow> priv option \<Rightarrow> 'f ana_rec \<Rightarrow>
   'a psc_base_scheme \<Rightarrow> 'f ana_rec \<times> 'a psc_base_scheme \<times> dev_ret outcome" where
  "read_ai api le mk dpvt r s =
     with_priv dpvt (read_then api le mk 4 (\<lambda>img r. r\<lparr>a_rval := unhost32 le img\<rparr>) DevOk s r) r s"

definition read_ai_float ::
  "evbuffer_api \<Rightarrow> bool \<Rightarrow> (epics_time \<Rightarrow> epics_time outcome) \<Rightarrow> (byte list \<Rightarrow> 'f::field) \<Rightarrow> ('f \<Rightarrow> bool) \<Rightarrow>
   nat \<Rightarrow> priv option \<Rightarrow> 'f ana_rec \<Rightarrow> 'a psc_base_scheme \<Rightarrow> 'f ana_rec \<times> 'a psc_base_scheme \<times> dev_ret outcome" where
  "read_ai_float api le mk dbl isnan n dpvt r s =
     with_priv dpvt
       (read_then api le mk n
          (\<lambda>img r. let v = analogRaw2EGU (a_conv r) (dbl img) in r\<lparr>a_val := v, a_udf := isnan v\<rparr>)
          DevNoConvert s r) r s"

definition write_then ::
  "evbuffer_api \<Rightarrow> bool \<Rightarrow> byte list \<Rightarrow> 'a psc_base_scheme \<Rightarrow> 'r dev_rec_scheme \<Rightarrow> priv \<Rightarrow>
   'r dev_rec_scheme \<times> 'a psc_base_scheme \<times> dev_ret outcome" where
  "write_then api le img s r p =
     (case write_from_field api le p img s r of
        (r1, s1, Ok _) \<Rightarrow> (r1, s1, Ok DevOk)
      | (r1, s1, Throw e) \<Rightarrow> (r1, s1, Throw e)
      | (r1, s1, Crash c) \<Rightarrow> (r1, s1, Crash c))"

definition write_binary ::
  "evbuffer_api \<Rightarrow> bool \<Rightarrow> priv option \<Rightarrow> bin_rec \<Rightarrow> 'a psc_base_scheme \<Rightarrow>
   bin_rec \<times> 'a psc_base_scheme \<times> dev_ret outcome" where
  "write_binary api le dpvt r s =
     with_priv dpvt (\<lambda>p.
       if r_mask r \<noteq> 0
       then (case read_to_field api le p 4 s r of
               (r1, Ok img) \<Rightarrow>
                 let temp = (unhost32 le img AND NOT (r_mask r)) OR (r_rval r AND r_mask r)
                 in write_then api le (host32 le temp) s r1 p
             | (r1, Throw e) \<Rightarrow> (r1, s, Throw e)
             | (r1, Crash c) \<Rightarrow> (r1, s, Crash c))
       else write_then api le (host32 le (r_rval r)) s r p) r s"

definition write_from_val ::
  "evbuffer_api \<Rightarrow> bool \<Rightarrow> priv option \<Rightarrow> val_rec \<Rightarrow> 'a psc_base_scheme \<Rightarrow>
   val_rec \<times> 'a psc_base_scheme \<times> dev_ret outcome" where
  "write_from_val api le dpvt r s = with_priv dpvt (write_then api le (r_val r) s r) r s"

definition write_ao ::
  "evbuffer_api \<Rightarrow> bool \<Rightarrow> priv option \<Rightarrow> 'f ana_rec \<Rightarrow> 'a psc_base_scheme \<Rightarrow>
   'f ana_rec \<times> 'a psc_base_scheme \<times> dev_ret outcome" where
  "write_ao api le dpvt r s = with_priv dpvt (write_then api le (host32 le (a_rval r)) s r) r s"

definition write_ao_float ::
  "evbuffer_api \<Rightarrow> bool \<Rightarrow> ('f::field \<Rightarrow> byte list) \<Rightarrow> priv option \<Rightarrow> 'f ana_rec \<Rightarrow> 'a psc_base_scheme \<Rightarrow>
   'f ana_rec \<times> 'a psc_base_scheme \<times> dev_ret outcome" where
  "write_ao_float api le img dpvt r s =
     with_priv dpvt (write_then api le (img (analogEGU2Raw (a_conv r) (a_val r))) s r) r s"

section \<open>What the accessors do to the bytes of a block\<close>

definition offline :: "nat \<Rightarrow> 'a psc_base_scheme \<Rightarrow> 'r dev_rec_scheme \<Rightarrow> 'r dev_rec_scheme" where
  "offline sts s r = (if connected s then r else recGblSetSevr sts INVALID_ALARM r)"

lemma read_to_field_eq:
  assumes "deref (p_block p) s = Some b" and "dbuffer_lawful api (data b)" and "0 < n" and "n \<le> 8"
  shows "read_to_field api le p n s r =
    (offline READ_ALARM s r,
     if p_offset p + n \<le> length (dbytes (data b))
     then Ok (ntoh le (take n (drop (p_offset p) (dbytes (data b)))))
     else Throw (RecAlarm SOFT_ALARM INVALID_ALARM))"
proof -
  have "copyout_shape api (data b) (p_offset p) n 0 1 =
      Ok (if p_offset p + n \<le> length (dbytes (data b))
          then (1, take n (drop (p_offset p) (dbytes (data b)))) else (0, []))"
    using assms(2-4) by (intro copyout_one) (auto simp: dbuffer_lawful_def)
  moreover have "dbuffer_size api (data b) = length (dbytes (data b))"
    using assms(2) dbuffer_size_eq by (auto simp: dbuffer_lawful_def)
  ultimately show ?thesis
    using assms(1,3) by (simp add: read_to_field_def offline_def Let_def)
qed

lemma write_from_field_eq:
  assumes "deref (p_block p) s = Some b" and "dbuffer_lawful api (data b)" and "img \<noteq> []"
  shows "write_from_field api le p img s r =
    (if p_offset p > length (dbytes (data b))
     then (offline WRITE_ALARM s r, s, Throw (RecAlarm SOFT_ALARM INVALID_ALARM))
     else (offline WRITE_ALARM s r,
           upd_block (p_block p) (\<lambda>b'. b'\<lparr>data := fst (dbuffer_copyin (data b) (hton le img) (p_offset p))\<rparr>) s,
           if p_offset p + length img \<le> length (dbytes (data b)) then Ok ()
           else Throw (RecAlarm SOFT_ALARM INVALID_ALARM)))"
proof -
  have "dbuffer_size api (data b) = length (dbytes (data b))"
    using assms(2) dbuffer_size_eq by (auto simp: dbuffer_lawful_def)
  moreover have "snd (dbuffer_copyin (data b) (hton le img) (p_offset p)) \<longleftrightarrow>
      length img \<le> length (dbytes (data b)) - p_offset p"
    using assms(2) copyin_refines(3) by (simp add: dbuffer_lawful_def)
  moreover have "length img \<le> length (dbytes (data b)) - p_offset p \<longleftrightarrow>
      p_offset p + length img \<le> length (dbytes (data b))"
    using assms(3) by (cases "length img") auto
  ultimately show ?thesis
    using assms(1) by (simp add: write_from_field_def offline_def Let_def case_prod_beta)
qed

lemma deref_upd_block: "deref p s = Some b \<Longrightarrow> deref p (upd_block p f s) = Some (f b)"
  by (cases p) (simp_all add: deref_def upd_block_def upd_send_def upd_recv_def)

lemma connected_upd_block [simp]: "connected (upd_block p f s) = connected s"
  by (cases p) (simp_all add: upd_block_def upd_send_def upd_recv_def)

text \<open>A write that fits: the block holds the network image at the offset, the rest is kept.\<close>

lemma write_from_field_fits:
  assumes "deref (p_block p) s = Some b" and "dbuffer_lawful api (data b)" and "img \<noteq> []"
    and "p_offset p + length img \<le> length (dbytes (data b))"
  shows "\<exists>t b'. write_from_field api le p img s r = (offline WRITE_ALARM s r, t, Ok ()) \<and>
    deref (p_block p) t = Some b' \<and> dbuffer_lawful api (data b') \<and> connected t = connected s \<and>
    dbytes (data b') = splice_at (p_offset p) (hton le img) (dbytes (data b))"
proof -
  let ?d = "fst (dbuffer_copyin (data b) (hton le img) (p_offset p))"
  let ?t = "upd_block (p_block p) (\<lambda>b'. b'\<lparr>data := ?d\<rparr>) s"
  have d: "dbytes ?d = splice_at (p_offset p) (hton le img) (dbytes (data b))" "dbuffer_lawful api ?d"
    using assms(2,4) dbuf.put_splice(1) [OF assms(2), of "p_offset p" "hton le img"]
      dbuf.put_ok [OF assms(2)] by auto
  have "write_from_field api le p img s r = (offline WRITE_ALARM s r, ?t, Ok ())"
    using write_from_field_eq [OF assms(1-3)] assms(4) by simp
  moreover have "deref (p_block p) ?t = Some (b\<lparr>data := ?d\<rparr>)"
    using deref_upd_block [OF assms(1)] by simp
  ultimately show ?thesis using d by auto
qed

section \<open>Properties\<close>

definition demo_blk :: block where
  "demo_blk = (block_new 7)\<lparr>data := dbuffer_assign dbuffer_empty [1, 2, 3, 4, 5, 6]\<rparr>"

definition demo_base :: psc_base where
  "demo_base = (psc_base_new ''psc'' ''localhost'' 3000)\<lparr>connected := True, send_blocks := [7 \<mapsto> demo_blk]\<rparr>"

definition demo_priv :: "nat \<Rightarrow> priv" where
  "demo_priv n = \<lparr>p_bid = 7, p_block = PSend 7, p_offset = n, p_step = 0, p_timeFromBlock = False, p_tsoffset = 0\<rparr>"

definition demo_bin :: bin_rec where
  "demo_bin = \<lparr>tse_device = False, rec_time = (0, 0), alarms = [], r_mask = 0xFF00, r_shft = 0, r_rval = 0xABCD\<rparr>"

lemma demo_blk_ok:
  "deref (p_block (demo_priv n)) demo_base = Some demo_blk" "dbytes (data demo_blk) = [1, 2, 3, 4, 5, 6]"
  "dbuffer_lawful chunk_api (data demo_blk)"
  by (simp_all add: deref_def demo_priv_def demo_base_def demo_blk_def psc_base_new_def dbuffer_lawful_def
      chunk_api_lawful)

text \<open>
  C13: a setting is read back as it was written: after a write of a value of 1, 2, 4 or 8
  bytes at an offset where it fits, a record that reads the same block and offset gets the
  same value, on hosts of either byte order, and the rest of the block is unchanged.
\<close>

theorem reg_write_read:
  assumes "deref (p_block p) s = Some b" and "dbuffer_lawful api (data b)"
    and "length (r_val r) \<in> {1, 2, 4, 8}"
    and "p_offset p + length (r_val r) \<le> length (dbytes (data b))" and "\<not> tse_device q"
  shows "\<exists>r1 t b' q1. write_from_val api le (Some p) r s = (r1, t, Ok DevOk) \<and>
    read_to_val api le mk (length (r_val r)) (Some p) q t = (q1, t, Ok DevOk) \<and> r_val q1 = r_val r \<and>
    deref (p_block p) t = Some b' \<and>
    dbytes (data b') = splice_at (p_offset p) (hton le (r_val r)) (dbytes (data b))"
proof -
  let ?n = "length (r_val r)"
  have n: "r_val r \<noteq> []" "0 < ?n" "?n \<le> 8" using assms(3) by auto
  obtain t b' where t: "write_from_field api le p (r_val r) s r = (offline WRITE_ALARM s r, t, Ok ())"
    "deref (p_block p) t = Some b'" "dbuffer_lawful api (data b')"
    "dbytes (data b') = splice_at (p_offset p) (hton le (r_val r)) (dbytes (data b))"
    using write_from_field_fits [OF assms(1,2) n(1) assms(4)] by blast
  have "take ?n (drop (p_offset p) (dbytes (data b'))) = hton le (r_val r)"
    using take_drop_splice_at [of "p_offset p" "hton le (r_val r)" "dbytes (data b)"] t(4) assms(4) by simp
  then have "read_to_field api le p ?n t q = (offline READ_ALARM t q, Ok (r_val r))"
    using read_to_field_eq [OF t(2,3) n(2,3), of le q] t(4) assms(4) hton_hton [OF assms(3), of le]
    by (simp add: ntoh_def)
  moreover have "\<not> tse_device (offline READ_ALARM t q)"
    using assms(5) by (simp add: offline_def recGblSetSevr_def)
  ultimately have "read_to_val api le mk ?n (Some p) q t =
      ((offline READ_ALARM t q)\<lparr>r_val := r_val r\<rparr>, t, Ok DevOk)"
    by (simp add: read_to_val_def with_priv_def read_then_def setRecTimestamp_def CATCH_def)
  then show ?thesis
    using t by (simp add: write_from_val_def with_priv_def write_then_def CATCH_def)
qed

theorem reg_write_read_witness:
  "\<exists>r1 t q1. write_from_val chunk_api True (Some (demo_priv 1))
       \<lparr>tse_device = False, rec_time = (0, 0), alarms = [], r_val = [8, 9]\<rparr> demo_base = (r1, t, Ok DevOk) \<and>
     read_to_val chunk_api True Ok 2 (Some (demo_priv 1))
       \<lparr>tse_device = False, rec_time = (0, 0), alarms = [], r_val = []\<rparr> t = (q1, t, Ok DevOk) \<and> r_val q1 = [8, 9]"
proof -
  let ?r = "\<lparr>tse_device = False, rec_time = (0, 0), alarms = [], r_val = [8, 9]\<rparr>"
  let ?q = "\<lparr>tse_device = False, rec_time = (0, 0), alarms = [], r_val = []\<rparr>"
  have "p_offset (demo_priv 1) + length (r_val ?r) \<le> length (dbytes (data demo_blk))"
    by (simp add: demo_blk_ok demo_priv_def)
  then obtain r1 t q1 where "write_from_val chunk_api True (Some (demo_priv 1)) ?r demo_base = (r1, t, Ok DevOk)"
    "read_to_val chunk_api True Ok (length (r_val ?r)) (Some (demo_priv 1)) ?q t = (q1, t, Ok DevOk)"
    "r_val q1 = r_val ?r"
    using reg_write_read [OF demo_blk_ok(1,3), of ?r 1 ?q True Ok] by auto
  then show ?thesis by (auto simp: numeral_2_eq_2)
qed

text \<open>
  a binary output record with a mask changes exactly the masked bits of the 32 bit word
  in network byte order at its offset, one without a mask the whole word; every other byte
  of the block is kept.
\<close>

theorem reg_write_masked:
  assumes "deref (p_block p) s = Some b" and "dbuffer_lawful api (data b)"
    and "p_offset p + 4 \<le> length (dbytes (data b))"
  defines "old \<equiv> unbe32 (take 4 (drop (p_offset p) (dbytes (data b))))"
  shows "\<exists>r1 t b'. write_binary api le (Some p) r s = (r1, t, Ok DevOk) \<and>
    deref (p_block p) t = Some b' \<and>
    dbytes (data b') = splice_at (p_offset p)
      (be32 (if r_mask r \<noteq> 0 then (old AND NOT (r_mask r)) OR (r_rval r AND r_mask r) else r_rval r))
      (dbytes (data b))"
proof -
  let ?w = "if r_mask r \<noteq> 0 then (old AND NOT (r_mask r)) OR (r_rval r AND r_mask r) else r_rval r"
  have img: "ntoh le (take 4 (drop (p_offset p) (dbytes (data b)))) = host32 le old"
    using assms(3) hton_net [of "take 4 (drop (p_offset p) (dbytes (data b)))" le]
    by (simp add: ntoh_def old_def host32_def be32_unbe32)
  have rd: "read_to_field api le p 4 s r = (offline READ_ALARM s r, Ok (host32 le old))"
    using read_to_field_eq [OF assms(1,2), of 4 le r] assms(3) img by simp
  have net: "hton le (host32 le ?w) = be32 ?w"
    using hton_net [of "host32 le ?w" le] by (simp add: host32_def)
  have ne: "host32 le ?w \<noteq> []" using host_sizes(2) [of le ?w] by fastforce
  have fits: "p_offset p + length (host32 le ?w) \<le> length (dbytes (data b))" using assms(3) by simp
  let ?r = "if r_mask r \<noteq> 0 then offline READ_ALARM s r else r"
  obtain t b' where t: "write_from_field api le p (host32 le ?w) s ?r = (offline WRITE_ALARM s ?r, t, Ok ())"
    "deref (p_block p) t = Some b'"
    "dbytes (data b') = splice_at (p_offset p) (be32 ?w) (dbytes (data b))"
    using write_from_field_fits [OF assms(1,2) ne fits, of le ?r] net by auto
  have "write_binary api le (Some p) r s = (offline WRITE_ALARM s ?r, t, Ok DevOk)"
    using t(1) rd by (cases "r_mask r = 0")
      (simp_all add: write_binary_def with_priv_def write_then_def CATCH_def Let_def)
  then show ?thesis using t by blast
qed

theorem reg_write_masked_witness:
  "\<exists>r1 t b'. write_binary chunk_api True (Some (demo_priv 1)) demo_bin demo_base = (r1, t, Ok DevOk) \<and>
     deref (PSend 7) t = Some b' \<and> dbytes (data b') = [1, 2, 3, 0xAB, 5, 6]"
proof -
  let ?m = "(unbe32 [2, 3, 4, 5] AND NOT 0xFF00) OR (0xABCD AND 0xFF00) :: u32"
  have m: "be32 ?m = [2, 3, 0xAB, 5]"
    by (simp add: be32_def cat32_def cat16_def)
  have fits: "p_offset (demo_priv 1) + 4 \<le> length (dbytes (data demo_blk))"
    by (simp add: demo_blk_ok demo_priv_def)
  have old: "take 4 (drop 1 [1, 2, 3, 4, 5, 6]) = [2, 3, 4, 5 :: byte]" by simp
  have bin: "r_mask demo_bin = 0xFF00" "r_rval demo_bin = 0xABCD" "p_offset (demo_priv 1) = 1"
    "p_block (demo_priv 1) = PSend 7" by (simp_all add: demo_bin_def demo_priv_def)
  have sp: "splice_at 1 [2, 3, 0xAB, 5] [1, 2, 3, 4, 5, 6] = [1, 2, 3, 0xAB, 5, 6 :: byte]"
    by (simp add: splice_at_def)
  obtain r1 t b' where t: "write_binary chunk_api True (Some (demo_priv 1)) demo_bin demo_base = (r1, t, Ok DevOk)"
    "deref (PSend 7) t = Some b'"
    "dbytes (data b') = splice_at 1 (be32 (if (0xFF00 :: u32) \<noteq> 0 then ?m else 0xABCD)) [1, 2, 3, 4, 5, 6]"
    using reg_write_masked [OF demo_blk_ok(1,3) fits, of True demo_bin]
    unfolding bin demo_blk_ok(2) old by blast
  have "(0xFF00 :: u32) \<noteq> 0" by simp
  then have "dbytes (data b') = [1, 2, 3, 0xAB, 5, 6]" using t(3) by (simp only: not_False_eq_True if_True m sp)
  then show ?thesis using t(1,2) by blast
qed

text \<open>
  a reader takes the 32 bit word in network byte order, restricted to its mask. When the
  driver is not connected it still reads the cached value, and marks it invalid. A field
  that does not lie inside of the block raises SOFT/INVALID and leaves the value alone.
\<close>

theorem reg_read_binary:
  assumes "deref (p_block p) s = Some b" and "dbuffer_lawful api (data b)" and "\<not> tse_device r"
  shows "if p_offset p + 4 \<le> length (dbytes (data b))
    then \<exists>r1. read_binary api le mk (Some p) r s = (r1, s, Ok DevOk) \<and>
      r_rval r1 = masked (r_mask r) (unbe32 (take 4 (drop (p_offset p) (dbytes (data b))))) \<and>
      alarms r1 = alarms r @ (if connected s then [] else [(READ_ALARM, INVALID_ALARM)])
    else \<exists>r1. read_binary api le mk (Some p) r s = (r1, s, Ok DevBadRequest) \<and>
      r_rval r1 = r_rval r \<and>
      alarms r1 = alarms r @ (if connected s then [] else [(READ_ALARM, INVALID_ALARM)]) @ [(SOFT_ALARM, INVALID_ALARM)]"
proof -
  let ?bs = "take 4 (drop (p_offset p) (dbytes (data b)))"
  have rd: "read_to_field api le p 4 s r =
      (offline READ_ALARM s r, if p_offset p + 4 \<le> length (dbytes (data b)) then Ok (ntoh le ?bs)
        else Throw (RecAlarm SOFT_ALARM INVALID_ALARM))"
    using read_to_field_eq [OF assms(1,2), of 4 le r] by simp
  have net: "unhost32 le (ntoh le ?bs) = unbe32 ?bs" if "p_offset p + 4 \<le> length (dbytes (data b))"
    using that hton_net [of ?bs le] by (simp add: ntoh_def unhost32_def)
  show ?thesis
    using rd net assms(3)
    by (simp add: read_binary_def with_priv_def read_then_def setRecTimestamp_def CATCH_def offline_def
        recGblSetSevr_def)
qed

theorem reg_read_binary_witness:
  "\<exists>r1. read_binary chunk_api True Ok (Some (demo_priv 4)) demo_bin demo_base = (r1, demo_base, Ok DevBadRequest) \<and>
     r_rval r1 = 0xABCD \<and> alarms r1 = [(15, 3)]"
proof -
  have "\<not> p_offset (demo_priv 4) + 4 \<le> length (dbytes (data demo_blk))" "\<not> tse_device demo_bin"
    "connected demo_base" "alarms demo_bin = []" "r_rval demo_bin = 0xABCD"
    by (simp_all add: demo_blk_ok demo_priv_def demo_bin_def demo_base_def)
  then show ?thesis
    using reg_read_binary [OF demo_blk_ok(1,3), where r = demo_bin and le = True and mk = Ok and n1 = 4]
    by simp
qed

text \<open>
  a write that does not fit raises SOFT/INVALID, but is not undone: the part of the value
  that fits has been stored in the block.
\<close>

theorem reg_write_overrun:
  assumes "deref (p_block p) s = Some b" and "dbuffer_lawful api (data b)" and "r_val r \<noteq> []"
    and "p_offset p \<le> length (dbytes (data b))"
    and "length (dbytes (data b)) < p_offset p + length (r_val r)"
  shows "\<exists>r1 t b'. write_from_val api le (Some p) r s = (r1, t, Ok DevBadRequest) \<and>
    last (alarms r1) = (SOFT_ALARM, INVALID_ALARM) \<and> deref (p_block p) t = Some b' \<and>
    dbytes (data b') = take (p_offset p) (dbytes (data b)) @
      take (length (dbytes (data b)) - p_offset p) (hton le (r_val r))"
proof -
  let ?d = "fst (dbuffer_copyin (data b) (hton le (r_val r)) (p_offset p))"
  let ?t = "upd_block (p_block p) (\<lambda>b'. b'\<lparr>data := ?d\<rparr>) s"
  have "write_from_field api le p (r_val r) s r =
      (offline WRITE_ALARM s r, ?t, Throw (RecAlarm SOFT_ALARM INVALID_ALARM))"
    using write_from_field_eq [OF assms(1-3), of le r] assms(4,5) by simp
  then have "write_from_val api le (Some p) r s =
      (recGblSetSevr SOFT_ALARM INVALID_ALARM (offline WRITE_ALARM s r), ?t, Ok DevBadRequest)"
    by (simp add: write_from_val_def with_priv_def write_then_def CATCH_def)
  moreover have "deref (p_block p) ?t = Some (b\<lparr>data := ?d\<rparr>)"
    using deref_upd_block [OF assms(1)] by simp
  moreover have "dbytes ?d = take (p_offset p) (dbytes (data b)) @
      take (length (dbytes (data b)) - p_offset p) (hton le (r_val r))"
    using assms(2,5) copyin_refines(2) [of "data b"] by (simp add: dbuffer_lawful_def)
  ultimately show ?thesis by (auto simp: recGblSetSevr_def)
qed

theorem reg_write_overrun_witness:
  "\<exists>r1 t b'. write_from_val chunk_api False (Some (demo_priv 5))
       \<lparr>tse_device = False, rec_time = (0, 0), alarms = [], r_val = [8, 9]\<rparr> demo_base = (r1, t, Ok DevBadRequest) \<and>
     deref (PSend 7) t = Some b' \<and> dbytes (data b') = [1, 2, 3, 4, 5, 8]"
proof -
  let ?r = "\<lparr>tse_device = False, rec_time = (0, 0), alarms = [], r_val = [8, 9]\<rparr>"
  have h: "hton False [8, 9] = [8, 9 :: byte]" using hton_net [of "[8, 9]" False] by simp
  have p: "p_offset (demo_priv 5) = 5" "p_block (demo_priv 5) = PSend 7" by (simp_all add: demo_priv_def)
  from reg_write_overrun [OF demo_blk_ok(1,3), where r = ?r and le = False and n1 = 5] show ?thesis
    by (auto simp: p demo_blk_ok(2) h)
qed

end
