(* ===== verification/Dev_Block.thy ===== *)
theory Dev_Block
  imports Dev_Reg Psc_Transport
begin

text \<open>
  Block device support (coreApp/src/devPSCWf.cpp, devPSCString.cpp): waveform records that
  show a message body as an array, and string records that show it as text, or send it.

  A waveform of integers or floats is an array of doubles in memory. \<open>conv\<close> gives the memory
  image of the double for the memory image of an element of \<open>sz\<close> bytes, \<open>unconv\<close> the image of
  the element for a double: the conversions of C++. The driver's \<open>queueSend\<close> for a block is
  a parameter of the writers.
\<close>

section \<open>Waveforms\<close>

record wf_rec = dev_rec +
  w_buf :: "byte list"
  w_nelm :: nat
  w_nord :: nat

text \<open>
  \<open>init_wf_record\<close> and \<open>init_wf_record_bytes\<close>: a record of the wrong element type (FTVL) stays
  without private data.
\<close>

definition init_wf_record ::
  "bool \<Rightarrow> (string \<Rightarrow> bool) \<Rightarrow> nat option \<Rightarrow> bool \<Rightarrow> rec_ptr \<Rightarrow> string \<Rightarrow> nat \<Rightarrow> wf_rec \<Rightarrow>
   'a psc_base_scheme \<Rightarrow> wf_rec \<times> ('a psc_base_scheme \<times> priv option) \<times> dev_ret outcome" where
  "init_wf_record ftvl_ok found ts onconn rp link direction r s =
     (if \<not> ftvl_ok then (r, (s, None), Ok DevOk)
      else init_reg (\<lambda>r. r) found ts onconn rp link direction r s)"

text \<open>
  The loop that turns the packed elements into doubles in place, from the last to the first.
\<close>

fun expand_loop :: "(byte list \<Rightarrow> byte list) \<Rightarrow> bool \<Rightarrow> nat \<Rightarrow> nat \<Rightarrow> byte list \<Rightarrow> byte list" where
  "expand_loop conv le sz 0 mem = mem"
| "expand_loop conv le sz (Suc i) mem =
     (let raw = take sz (drop (i * sz) mem)
      in expand_loop conv le sz i (splice_at (8 * i) (conv (ntoh le raw)) mem))"

definition wf_skip :: "priv \<Rightarrow> nat \<Rightarrow> nat" where
  "wf_skip p sz =
     (let step = (if p_step p \<noteq> 0 then nat (p_step p mod 2 ^ 64) else sz)
      in if step \<ge> sz then step - sz else 0)"

definition finish_read ::
  "evbuffer_api \<Rightarrow> (epics_time \<Rightarrow> epics_time outcome) \<Rightarrow> priv \<Rightarrow> 'a psc_base_scheme \<Rightarrow> 'r dev_rec_scheme \<Rightarrow>
   'r dev_rec_scheme \<times> 'a psc_base_scheme \<times> dev_ret outcome" where
  "finish_read api mk p s r =
     (case setRecTimestamp api mk p s r of
        (r1, Ok _) \<Rightarrow> (r1, s, Ok DevOk)
      | (r1, Throw e) \<Rightarrow> (r1, s, Throw e)
      | (r1, Crash c) \<Rightarrow> (r1, s, Crash c))"

definition read_wf_real ::
  "evbuffer_api \<Rightarrow> bool \<Rightarrow> (epics_time \<Rightarrow> epics_time outcome) \<Rightarrow> (byte list \<Rightarrow> byte list) \<Rightarrow> nat \<Rightarrow>
   priv option \<Rightarrow> wf_rec \<Rightarrow> 'a psc_base_scheme \<Rightarrow> wf_rec \<times> 'a psc_base_scheme \<times> dev_ret outcome" where
  "read_wf_real api le mk conv sz dpvt r s =
     with_priv dpvt (\<lambda>p.
       if \<not> connected s then (recGblSetSevr READ_ALARM INVALID_ALARM r, s, Ok DevOk)
       else case deref (p_block p) s of
           None \<Rightarrow> (r, s, Crash NullPointer)
         | Some b \<Rightarrow>
             (case copyout_shape api (data b) (p_offset p) sz (wf_skip p sz) (w_nelm r) of
                Ok (nelem, raw) \<Rightarrow>
                  let mem = splice_at 0 raw (w_buf r)
                  in finish_read api mk p s (r\<lparr>w_buf := expand_loop conv le sz nelem mem, w_nord := nelem\<rparr>)
              | Throw e \<Rightarrow> (r, s, Throw e)
              | Crash c \<Rightarrow> (r, s, Crash c))) r s"

text \<open>\<open>copyout\<close> returns a truth value, which becomes the number of elements.\<close>

definition read_wf_bytes ::
  "evbuffer_api \<Rightarrow> (epics_time \<Rightarrow> epics_time outcome) \<Rightarrow> priv option \<Rightarrow> wf_rec \<Rightarrow> 'a psc_base_scheme \<Rightarrow>
   wf_rec \<times> 'a psc_base_scheme \<times> dev_ret outcome" where
  "read_wf_bytes api mk dpvt r s =
     with_priv dpvt (\<lambda>p.
       if \<not> connected s then (recGblSetSevr READ_ALARM INVALID_ALARM r, s, Ok DevOk)
       else case deref (p_block p) s of
           None \<Rightarrow> (r, s, Crash NullPointer)
         | Some b \<Rightarrow>
             (case dbuffer_copyout api (data b) (p_offset p) (w_nelm r) of
                Ok (ok, raw) \<Rightarrow>
                  finish_read api mk p s
                    (r\<lparr>w_buf := splice_at 0 raw (w_buf r), w_nord := (if ok then 1 else 0)\<rparr>)
              | Throw e \<Rightarrow> (r, s, Throw e)
              | Crash c \<Rightarrow> (r, s, Crash c))) r s"

definition send_block ::
  "(u16 \<Rightarrow> byte list \<Rightarrow> 'a psc_base_scheme \<Rightarrow> 'a psc_base_scheme \<times> unit outcome) \<Rightarrow> priv \<Rightarrow> byte list \<Rightarrow>
   'r dev_rec_scheme \<Rightarrow> 'a psc_base_scheme \<Rightarrow> 'r dev_rec_scheme \<times> 'a psc_base_scheme \<times> dev_ret outcome" where
  "send_block queueSend p bs r s =
     (case p_block p of
        PSend k \<Rightarrow>
          (case queueSend k bs s of
             (s1, Ok _) \<Rightarrow> (r, s1, Ok DevOk)
           | (s1, Throw e) \<Rightarrow> (r, s1, Throw e)
           | (s1, Crash c) \<Rightarrow> (r, s1, Crash c))
      | _ \<Rightarrow> (r, s, Crash NullPointer))"

definition write_wf ::
  "(u16 \<Rightarrow> byte list \<Rightarrow> 'a psc_base_scheme \<Rightarrow> 'a psc_base_scheme \<times> unit outcome) \<Rightarrow> bool \<Rightarrow>
   (byte list \<Rightarrow> byte list) \<Rightarrow> priv option \<Rightarrow> wf_rec \<Rightarrow> 'a psc_base_scheme \<Rightarrow>
   wf_rec \<times> 'a psc_base_scheme \<times> dev_ret outcome" where
  "write_wf queueSend le unconv dpvt r s =
     with_priv dpvt (\<lambda>p.
       let to = map (\<lambda>i. hton le (unconv (take 8 (drop (8 * i) (w_buf r))))) [0..<w_nord r]
       in if \<not> connected s then (recGblSetSevr READ_ALARM INVALID_ALARM r, s, Ok DevOk)
          else send_block queueSend p (concat to) r s) r s"

definition write_wf_bytes ::
  "(u16 \<Rightarrow> byte list \<Rightarrow> 'a psc_base_scheme \<Rightarrow> 'a psc_base_scheme \<times> unit outcome) \<Rightarrow> priv option \<Rightarrow> wf_rec \<Rightarrow>
   'a psc_base_scheme \<Rightarrow> wf_rec \<times> 'a psc_base_scheme \<times> dev_ret outcome" where
  "write_wf_bytes queueSend dpvt r s =
     with_priv dpvt (\<lambda>p.
       if \<not> connected s then (recGblSetSevr READ_ALARM INVALID_ALARM r, s, Ok DevOk)
       else send_block queueSend p (take (w_nord r) (w_buf r)) r s) r s"

section \<open>Strings\<close>

abbreviation (input) MAX_STRING_SIZE :: nat where "MAX_STRING_SIZE \<equiv> 40"

record str_rec = dev_rec +
  s_val :: "byte list"

definition init_si_record ::
  "(string \<Rightarrow> bool) \<Rightarrow> nat option \<Rightarrow> bool \<Rightarrow> rec_ptr \<Rightarrow> string \<Rightarrow> str_rec \<Rightarrow> 'a psc_base_scheme \<Rightarrow>
   str_rec \<times> ('a psc_base_scheme \<times> priv option) \<times> dev_ret outcome" where
  "init_si_record found ts onconn rp link r s = init_reg (\<lambda>r. r) found ts onconn rp link 0 r s"

definition init_so_record ::
  "(string \<Rightarrow> bool) \<Rightarrow> nat option \<Rightarrow> bool \<Rightarrow> rec_ptr \<Rightarrow> string \<Rightarrow> str_rec \<Rightarrow> 'a psc_base_scheme \<Rightarrow>
   str_rec \<times> ('a psc_base_scheme \<times> priv option) \<times> dev_ret outcome" where
  "init_so_record found ts onconn rp link r s = init_reg (\<lambda>r. r) found ts onconn rp link 1 r s"

definition read_si ::
  "evbuffer_api \<Rightarrow> (epics_time \<Rightarrow> epics_time outcome) \<Rightarrow> priv option \<Rightarrow> str_rec \<Rightarrow> 'a psc_base_scheme \<Rightarrow>
   str_rec \<times> 'a psc_base_scheme \<times> dev_ret outcome" where
  "read_si api mk dpvt r s =
     with_priv dpvt (\<lambda>p.
       if \<not> connected s then (recGblSetSevr READ_ALARM INVALID_ALARM r, s, Ok DevOk)
       else case deref (p_block p) s of
           None \<Rightarrow> (r, s, Crash NullPointer)
         | Some b \<Rightarrow>
             let len = dbuffer_size api (data b);
                 len = (if len \<ge> MAX_STRING_SIZE then MAX_STRING_SIZE - 1 else len)
             in if p_offset p > len
                then finish_read api mk p s (r\<lparr>s_val := splice_at 0 [0] (s_val r)\<rparr>)
                else
                  let len = len - p_offset p
                  in case copyout_shape api (data b) (p_offset p) len 0 1 of
                       Ok (n, raw) \<Rightarrow>
                         finish_read api mk p s (r\<lparr>s_val := splice_at len [0] (splice_at 0 raw (s_val r))\<rparr>)
                     | Throw e \<Rightarrow> (r, s, Throw e)
                     | Crash c \<Rightarrow> (r, s, Crash c)) r s"

definition strnlen :: "byte list \<Rightarrow> nat \<Rightarrow> nat" where
  "strnlen bs n = length (takeWhile (\<lambda>b. b \<noteq> 0) (take n bs))"

definition write_so ::
  "(u16 \<Rightarrow> byte list \<Rightarrow> 'a psc_base_scheme \<Rightarrow> 'a psc_base_scheme \<times> unit outcome) \<Rightarrow> priv option \<Rightarrow> str_rec \<Rightarrow>
   'a psc_base_scheme \<Rightarrow> str_rec \<times> 'a psc_base_scheme \<times> dev_ret outcome" where
  "write_so queueSend dpvt r s =
     with_priv dpvt (\<lambda>p.
       if \<not> connected s then (recGblSetSevr WRITE_ALARM INVALID_ALARM r, s, Ok DevOk)
       else
         let bs = take (strnlen (s_val r) MAX_STRING_SIZE) (s_val r)
         in case send_block queueSend p bs r s of
              (r1, s1, Ok x) \<Rightarrow>
                (r1, upd_block (p_block p) (\<lambda>b. b\<lparr>data := dbuffer_assign (data b) bs\<rparr>) s1, Ok x)
            | (r1, s1, y) \<Rightarrow> (r1, s1, y)) r s"

section \<open>The loop in place\<close>

lemma expand_loop_tail:
  assumes "\<forall>x. length (conv x) = 8" and "8 * n \<le> length mem"
  shows "length (expand_loop conv le sz n mem) = length mem \<and>
    drop (8 * n) (expand_loop conv le sz n mem) = drop (8 * n) mem"
  using assms(2)
proof (induction n arbitrary: mem)
  case 0
  then show ?case by simp
next
  case (Suc i)
  define m where "m = splice_at (8 * i) (conv (ntoh le (take sz (drop (i * sz) mem)))) mem"
  have len: "length m = length mem" using Suc.prems assms(1) by (simp add: m_def)
  have ih: "length (expand_loop conv le sz i m) = length m \<and>
      drop (8 * i) (expand_loop conv le sz i m) = drop (8 * i) m"
    using Suc.IH [of m] Suc.prems len by simp
  have "drop (8 * Suc i) (expand_loop conv le sz i m) = drop 8 (drop (8 * i) (expand_loop conv le sz i m))"
    by (simp add: add.commute)
  also have "\<dots> = drop (8 * Suc i) mem"
    using ih Suc.prems assms(1) by (simp add: m_def splice_at_def add.commute)
  finally show ?case using ih len by (simp add: Let_def flip: m_def)
qed

text \<open>
  Elements are at most as long as doubles, so an element is overwritten only after it has
  been converted.
\<close>

lemma expand_loop_elem:
  assumes "\<forall>x. length (conv x) = 8" and "sz \<le> 8" and "8 * n \<le> length mem" and "j < n"
  shows "take 8 (drop (8 * j) (expand_loop conv le sz n mem)) = conv (ntoh le (take sz (drop (j * sz) mem)))"
  using assms(3,4)
proof (induction n arbitrary: mem)
  case 0
  then show ?case by simp
next
  case (Suc i)
  define c where "c = conv (ntoh le (take sz (drop (i * sz) mem)))"
  define m where "m = splice_at (8 * i) c mem"
  have c: "length c = 8" using assms(1) by (simp add: c_def)
  have len: "length m = length mem" using Suc.prems c by (simp add: m_def)
  have loop: "expand_loop conv le sz (Suc i) mem = expand_loop conv le sz i m"
    by (simp add: m_def c_def Let_def)
  show ?case
  proof (cases "j = i")
    case True
    have "take 8 (drop (8 * i) m) = c"
      using take_drop_splice_at [of "8 * i" c mem] Suc.prems c by (simp add: m_def)
    then show ?thesis
      using True loop expand_loop_tail [OF assms(1), of i m] Suc.prems len by (simp add: c_def)
  next
    case False
    have "j * sz + sz = Suc j * sz" by simp
    also have "\<dots> \<le> i * sz" using False Suc.prems by (intro mult_le_mono1) simp
    also have "\<dots> \<le> 8 * i" using assms(2) by (simp add: mult.commute)
    finally have le: "j * sz + sz \<le> 8 * i" .
    have "take sz (drop (j * sz) m) = take sz (drop (j * sz) (take (8 * i) m))"
      using le by (simp add: drop_take)
    also have "take (8 * i) m = take (8 * i) mem"
      using Suc.prems by (simp add: m_def splice_at_def)
    also have "take sz (drop (j * sz) (take (8 * i) mem)) = take sz (drop (j * sz) mem)"
      using le by (simp add: drop_take)
    finally show ?thesis
      using Suc.IH [of m] Suc.prems False len loop by simp
  qed
qed

lemma elements_nth:
  assumes "\<forall>i < n. k + i * (esize + eskip) + esize \<le> length bs" and "j < n"
  shows "take esize (drop (j * esize) (elements bs k esize eskip n)) =
    take esize (drop (k + j * (esize + eskip)) bs)"
  using assms
proof (induction n arbitrary: k j)
  case 0
  then show ?case by simp
next
  case (Suc n)
  have l: "length (take esize (drop k bs)) = esize"
    using Suc.prems(1) by (auto dest: spec [of _ 0])
  show ?case
  proof (cases j)
    case 0
    then show ?thesis using l by (simp add: elements_Suc)
  next
    case (Suc i)
    have "\<forall>i < n. (k + esize + eskip) + i * (esize + eskip) + esize \<le> length bs"
    proof (intro allI impI)
      fix i assume "i < n"
      then show "(k + esize + eskip) + i * (esize + eskip) + esize \<le> length bs"
        using Suc.prems(1) [rule_format, of "Suc i"] by (simp add: algebra_simps)
    qed
    from Suc.IH [OF this, of i] show ?thesis
      using Suc Suc.prems(2) l by (simp add: elements_Suc algebra_simps)
  qed
qed

lemma elements_length:
  assumes "\<forall>i < n. k + i * (esize + eskip) + esize \<le> length bs"
  shows "length (elements bs k esize eskip n) = n * esize"
  using assms
proof (induction n arbitrary: k)
  case 0
  then show ?case by simp
next
  case (Suc n)
  have l: "length (take esize (drop k bs)) = esize"
    using Suc.prems by (auto dest: spec [of _ 0])
  have "\<forall>i < n. (k + esize + eskip) + i * (esize + eskip) + esize \<le> length bs"
  proof (intro allI impI)
    fix i assume "i < n"
    then show "(k + esize + eskip) + i * (esize + eskip) + esize \<le> length bs"
      using Suc.prems [rule_format, of "Suc i"] by (simp add: algebra_simps)
  qed
  then show ?case using Suc.IH l by (simp add: elements_Suc)
qed

lemma copyout_shape_inside:
  assumes "dbuffer_lawful api d" and "0 < ecount" and "k < length (dbytes d)"
    and "0 < esize" and "length (dbytes d) + esize + eskip < 2 ^ 64"
  shows "\<exists>n. copyout_shape api d k esize eskip ecount = Ok (n, elements (dbytes d) k esize eskip n) \<and>
    n \<le> ecount \<and> (\<forall>i < n. k + i * (esize + eskip) + esize \<le> length (dbytes d)) \<and>
    (n < ecount \<longrightarrow> length (dbytes d) < k + n * (esize + eskip) + esize)"
proof -
  obtain n where n: "copyout_shape api d k esize eskip ecount = Ok (n, elements (dbytes d) k esize eskip n)"
    "n \<le> ecount"
    and fit: "\<And>m. 0 < m \<Longrightarrow> m \<le> ecount \<Longrightarrow> m \<le> n \<longleftrightarrow> k + m * esize + (m - 1) * eskip \<le> length (dbytes d)"
    using copyout_shape_max [OF _ _ assms(2-5)] assms(1) unfolding dbuffer_lawful_def by blast
  have eq: "k + Suc i * esize + (Suc i - 1) * eskip = k + i * (esize + eskip) + esize" for i
    by (simp add: algebra_simps)
  have "k + i * (esize + eskip) + esize \<le> length (dbytes d)" if "i < n" for i
    using fit [of "Suc i"] that n(2) eq [of i] by simp
  moreover have "length (dbytes d) < k + n * (esize + eskip) + esize" if "n < ecount"
    using fit [of "Suc n"] that eq [of n] by simp
  ultimately show ?thesis using n by blast
qed

lemma finish_read_ok: "\<not> tse_device r \<Longrightarrow> finish_read api mk p s r = (r, s, Ok DevOk)"
  by (simp add: finish_read_def setRecTimestamp_def)

section \<open>Sending through any driver\<close>

text \<open>The body that a waveform of numbers stands for, and that of a string record.\<close>

definition wf_net :: "bool \<Rightarrow> (byte list \<Rightarrow> byte list) \<Rightarrow> wf_rec \<Rightarrow> byte list" where
  "wf_net le unconv r =
     concat (map (\<lambda>i. hton le (unconv (take 8 (drop (8 * i) (w_buf r))))) [0..<w_nord r])"

definition text_of :: "byte list \<Rightarrow> byte list" where
  "text_of bs = take (strnlen bs MAX_STRING_SIZE) bs"

lemma text_of_eq: "text_of bs = takeWhile (\<lambda>b. b \<noteq> 0) (take MAX_STRING_SIZE bs)"
proof -
  have "takeWhile (\<lambda>b. b \<noteq> 0) (take 40 bs) = take (strnlen bs 40) (take 40 bs)"
    unfolding strnlen_def by (rule takeWhile_eq_take)
  moreover have "strnlen bs 40 \<le> 40"
    unfolding strnlen_def using length_takeWhile_le [of "\<lambda>b. b \<noteq> 0" "take 40 bs"] by simp
  ultimately show ?thesis by (simp add: text_of_def min_def)
qed

context psc_driver
begin

lemma send_block_cases:
  assumes "valid s" and "msg_fits bs" and "p_block p = PSend k" and "send_blocks s k \<noteq> None"
  shows "\<exists>t. valid t \<and> wire t = wire s \<and>
    (send_block queue_blk p bs r s = (r, t, Ok DevOk) \<and> pending t = pending s @ frame k bs \<or>
     (\<exists>e. send_block queue_blk p bs r s = (r, t, Throw e)) \<and> pending t = pending s)"
  using queue_blk_cases [OF assms(1,2,4)] assms(3) by (auto simp: send_block_def)

text \<open>
  What a writer does with a body that leaves through \<open>send_block\<close>: it is queued as one frame,
  or it is refused as a whole and the record raises an alarm.
\<close>

definition wrote ::
  "'a psc_base_scheme \<Rightarrow> u16 \<Rightarrow> byte list \<Rightarrow> 'r dev_rec_scheme \<Rightarrow>
   'r dev_rec_scheme \<times> 'a psc_base_scheme \<times> dev_ret outcome \<Rightarrow> bool" where
  "wrote s k bs r x \<longleftrightarrow>
     (case x of (r1, t, y) \<Rightarrow> valid t \<and> wire t = wire s \<and>
       (y = Ok DevOk \<and> r1 = r \<and> pending t = pending s @ frame k bs \<or>
        y = Ok DevBadRequest \<and> alarms r1 \<noteq> alarms r \<and> pending t = pending s))"

lemma send_block_wrote:
  assumes "valid s" and "msg_fits bs" and "p_block p = PSend k" and "send_blocks s k \<noteq> None"
  shows "wrote s k bs r (CATCH (send_block queue_blk p bs r s))"
proof -
  obtain t where t: "valid t" "wire t = wire s" and
    "send_block queue_blk p bs r s = (r, t, Ok DevOk) \<and> pending t = pending s @ frame k bs \<or>
     (\<exists>e. send_block queue_blk p bs r s = (r, t, Throw e)) \<and> pending t = pending s"
    using send_block_cases [OF assms] by blast
  then show ?thesis
  proof (elim disjE exE conjE)
    assume "send_block queue_blk p bs r s = (r, t, Ok DevOk)" "pending t = pending s @ frame k bs"
    then show ?thesis using t by (simp add: wrote_def CATCH_def)
  next
    fix e assume "send_block queue_blk p bs r s = (r, t, Throw e)" "pending t = pending s"
    then show ?thesis using t by (cases e) (simp_all add: wrote_def CATCH_def recGblSetSevr_def)
  qed
qed

lemma write_wf_bytes_sends:
  assumes "valid s" and "msg_fits (take (w_nord r) (w_buf r))" and "p_block p = PSend k"
    and "send_blocks s k \<noteq> None"
  shows "wrote s k (take (w_nord r) (w_buf r)) r (write_wf_bytes queue_blk (Some p) r s)"
  using send_block_wrote [OF assms] valid_connected [OF assms(1)]
  by (simp add: write_wf_bytes_def with_priv_def)

lemma write_wf_sends:
  assumes "valid s" and "msg_fits (wf_net le unconv r)" and "p_block p = PSend k"
    and "send_blocks s k \<noteq> None"
  shows "wrote s k (wf_net le unconv r) r (write_wf queue_blk le unconv (Some p) r s)"
  using send_block_wrote [OF assms] valid_connected [OF assms(1)]
  by (simp add: write_wf_def with_priv_def wf_net_def Let_def)

lemma write_so_sends:
  assumes "valid s" and "msg_fits (text_of (s_val r))" and "p_block p = PSend k"
    and "send_blocks s k = Some b"
  shows "wrote s k (text_of (s_val r)) r (write_so queue_blk (Some p) r s)"
proof -
  have c: "connected s" by (rule valid_connected [OF assms(1)])
  let ?bs = "text_of (s_val r)"
  obtain t where t: "valid t" "wire t = wire s" and
    "send_block queue_blk p ?bs r s = (r, t, Ok DevOk) \<and> pending t = pending s @ frame k ?bs \<or>
     (\<exists>e. send_block queue_blk p ?bs r s = (r, t, Throw e)) \<and> pending t = pending s"
    using send_block_cases [OF assms(1-3)] assms(4) by blast
  then show ?thesis
  proof (elim disjE exE conjE)
    let ?u = "upd_send k (\<lambda>b. b\<lparr>data := dbuffer_assign (data b) ?bs\<rparr>) t"
    assume q: "send_block queue_blk p ?bs r s = (r, t, Ok DevOk)" "pending t = pending s @ frame k ?bs"
    have "valid ?u \<and> pending ?u = pending t \<and> wire ?u = wire t"
      by (rule cache_kept [OF t(1)]) (simp add: block_ok_def)
    moreover have "write_so queue_blk (Some p) r s = (r, ?u, Ok DevOk)"
      using q(1) c assms(3) by (simp add: write_so_def with_priv_def CATCH_def upd_block_def Let_def flip: text_of_def)
    ultimately show ?thesis using q(2) t by (simp add: wrote_def)
  next
    fix e assume q: "send_block queue_blk p ?bs r s = (r, t, Throw e)" "pending t = pending s"
    then have "write_so queue_blk (Some p) r s = CATCH (r, t, Throw e)"
      using c by (simp add: write_so_def with_priv_def Let_def flip: text_of_def)
    then show ?thesis using q(2) t by (cases e) (simp_all add: wrote_def CATCH_def recGblSetSevr_def)
  qed
qed

end

section \<open>Properties\<close>

definition demo_wf :: wf_rec where
  "demo_wf = \<lparr>tse_device = False, rec_time = (0, 0), alarms = [], w_buf = replicate 16 0, w_nelm = 2, w_nord = 0\<rparr>"

definition demo_conv :: "byte list \<Rightarrow> byte list" where
  "demo_conv x = take 8 (x @ replicate 8 0)"

text \<open>
  C12: a waveform of numbers shows the elements of the message body, converted one by one,
  although the conversion to the wider doubles happens in place: element \<open>i\<close> of the record
  is the conversion of the bytes at \<open>offset + i * step\<close>, and NORD is the number of elements
  that lie inside of the body, at most NELM.
\<close>

theorem wf_read_elements:
  assumes "deref (p_block p) s = Some b" and "dbuffer_lawful api (data b)" and "connected s"
    and "\<not> tse_device r" and "0 < sz" and "sz \<le> 8" and "\<forall>x. length (conv x) = 8"
    and "0 < w_nelm r" and "length (w_buf r) = 8 * w_nelm r" and "p_offset p < length (dbytes (data b))"
    and "length (dbytes (data b)) + sz + wf_skip p sz < 2 ^ 64"
  shows "\<exists>r1. read_wf_real api le mk conv sz (Some p) r s = (r1, s, Ok DevOk) \<and> w_nord r1 \<le> w_nelm r \<and>
    (\<forall>i < w_nord r1. p_offset p + i * (sz + wf_skip p sz) + sz \<le> length (dbytes (data b)) \<and>
       take 8 (drop (8 * i) (w_buf r1)) =
       conv (ntoh le (take sz (drop (p_offset p + i * (sz + wf_skip p sz)) (dbytes (data b)))))) \<and>
    (w_nord r1 < w_nelm r \<longrightarrow>
       length (dbytes (data b)) < p_offset p + w_nord r1 * (sz + wf_skip p sz) + sz)"
proof -
  let ?skip = "wf_skip p sz" and ?bs = "dbytes (data b)"
  obtain n where n: "copyout_shape api (data b) (p_offset p) sz ?skip (w_nelm r) =
      Ok (n, elements ?bs (p_offset p) sz ?skip n)" "n \<le> w_nelm r"
    and inside: "\<forall>i < n. p_offset p + i * (sz + ?skip) + sz \<le> length ?bs"
    and maximal: "n < w_nelm r \<longrightarrow> length ?bs < p_offset p + n * (sz + ?skip) + sz"
    using copyout_shape_inside [OF assms(2,8,10,5,11)] by blast
  let ?raw = "elements ?bs (p_offset p) sz ?skip n"
  let ?mem = "splice_at 0 ?raw (w_buf r)"
  have raw: "length ?raw = n * sz" by (rule elements_length [OF inside])
  have "n * sz \<le> w_nelm r * 8" using n(2) assms(6) by (rule mult_le_mono)
  then have mem: "length ?mem = 8 * w_nelm r" using raw assms(9) by simp
  have elem: "take 8 (drop (8 * i) (expand_loop conv le sz n ?mem)) =
      conv (ntoh le (take sz (drop (p_offset p + i * (sz + ?skip)) ?bs)))" if "i < n" for i
  proof -
    have "i * sz + sz \<le> n * sz" using that mult_le_mono1 [of "Suc i" n sz] by simp
    then have "take sz (drop (i * sz) ?mem) = take sz (drop (i * sz) ?raw)"
      using raw by (simp add: splice_at_def)
    also have "\<dots> = take sz (drop (p_offset p + i * (sz + ?skip)) ?bs)"
      by (rule elements_nth [OF inside that])
    finally show ?thesis
      using expand_loop_elem [OF assms(7,6), of n ?mem i le] that mem n(2) by simp
  qed
  have "read_wf_real api le mk conv sz (Some p) r s =
      (r\<lparr>w_buf := expand_loop conv le sz n ?mem, w_nord := n\<rparr>, s, Ok DevOk)"
    using assms(1,3,4) n(1)
    by (simp add: read_wf_real_def with_priv_def finish_read_ok CATCH_def Let_def)
  then show ?thesis using elem inside maximal n(2) by simp
qed

theorem wf_read_elements_witness:
  "\<exists>r1. read_wf_real chunk_api True Ok demo_conv 2 (Some (demo_priv 3)) demo_wf demo_base =
       (r1, demo_base, Ok DevOk) \<and> w_nord r1 = 1 \<and>
     take 8 (w_buf r1) = [5, 4, 0, 0, 0, 0, 0, 0]"
proof -
  have c: "\<forall>x. length (demo_conv x) = 8" by (auto simp: demo_conv_def min_def)
  have sk: "wf_skip (demo_priv 3) 2 = 0" "p_offset (demo_priv 3) = 3"
    by (simp_all add: wf_skip_def demo_priv_def)
  have d: "connected demo_base" "\<not> tse_device demo_wf" "w_nelm demo_wf = 2" "length (w_buf demo_wf) = 16"
    by (simp_all add: demo_base_def demo_wf_def)
  have e: "ntoh True [4, 5] = [5, 4 :: byte]" using hton_net [of "[4, 5]" True] by (simp add: ntoh_def)
  obtain r1 where r1: "read_wf_real chunk_api True Ok demo_conv 2 (Some (demo_priv 3)) demo_wf demo_base =
      (r1, demo_base, Ok DevOk)" "w_nord r1 \<le> 2"
    "\<forall>i < w_nord r1. 3 + i * 2 + 2 \<le> 6 \<and>
       take 8 (drop (8 * i) (w_buf r1)) = demo_conv (ntoh True (take 2 (drop (3 + i * 2) [1, 2, 3, 4, 5, 6])))"
    "w_nord r1 < 2 \<longrightarrow> 6 < 3 + w_nord r1 * 2 + 2"
    using wf_read_elements [OF demo_blk_ok(1,3), where n1 = 3 and sz = 2 and conv = demo_conv and r = demo_wf
        and le = True and mk = Ok]
    by (auto simp: sk d c demo_blk_ok(2))
  have "w_nord r1 \<noteq> 0" using r1(4) by auto
  moreover have "w_nord r1 \<noteq> 2" using r1(3) [rule_format, of 1] by auto
  ultimately have n: "w_nord r1 = 1" using r1(2) by simp
  have "take 8 (w_buf r1) = demo_conv (ntoh True [4, 5])" using r1(3) [rule_format, of 0] n by simp
  then show ?thesis using r1(1) n e by (simp add: demo_conv_def numeral_eq_Suc)
qed

text \<open>
  a string record shows the text of the body from its offset on, ended by a zero, and
  never writes beyond its 40 bytes. At offset 39 of a body of 40 bytes or more there is
  nothing left to show, and the record divides by zero.
\<close>

theorem string_read:
  assumes "deref (p_block p) s = Some b" and "dbuffer_lawful api (data b)" and "connected s"
    and "\<not> tse_device r" and "length (s_val r) = MAX_STRING_SIZE"
    and "length (dbytes (data b)) + MAX_STRING_SIZE < 2 ^ 64"
  defines "n \<equiv> min (length (dbytes (data b))) 39 - p_offset p"
  shows "if p_offset p = 39 \<and> 39 < length (dbytes (data b))
    then read_si api mk (Some p) r s = (r, s, Crash DivByZero)
    else \<exists>r1. read_si api mk (Some p) r s = (r1, s, Ok DevOk) \<and> length (s_val r1) = MAX_STRING_SIZE \<and>
      take (Suc n) (s_val r1) = take n (drop (p_offset p) (dbytes (data b))) @ [0]"
proof -
  let ?bs = "dbytes (data b)" and ?k = "p_offset p"
  have law: "evbuffer_lawful api" "dbuffer_ok (data b)" using assms(2) by (simp_all add: dbuffer_lawful_def)
  have sz: "dbuffer_size api (data b) = length ?bs" by (rule dbuffer_size_eq [OF law(1)])
  have len: "(if 40 \<le> length ?bs then 40 - 1 else length ?bs) = min (length ?bs) 39" by simp
  have step: "read_si api mk (Some p) r s = CATCH (
      if min (length ?bs) 39 < ?k then finish_read api mk p s (r\<lparr>s_val := splice_at 0 [0] (s_val r)\<rparr>)
      else case copyout_shape api (data b) ?k n 0 1 of
          Ok (m, raw) \<Rightarrow> finish_read api mk p s (r\<lparr>s_val := splice_at n [0] (splice_at 0 raw (s_val r))\<rparr>)
        | Throw e \<Rightarrow> (r, s, Throw e) | Crash c \<Rightarrow> (r, s, Crash c))"
    unfolding read_si_def with_priv_def assms(1) option.case Let_def sz len n_def using assms(3) by simp
  have fin: "finish_read api mk p s (r\<lparr>s_val := v\<rparr>) = (r\<lparr>s_val := v\<rparr>, s, Ok DevOk)" for v
    using assms(4) by (simp add: finish_read_ok)
  have short: "splice_at m raw (s_val r) = take m (s_val r) @ raw @ drop (m + length raw) (s_val r)" for m raw
    by (simp add: splice_at_def)
  consider "min (length ?bs) 39 < ?k" | "?k = 39" "39 < length ?bs" | "?k = length ?bs" "?k \<le> 39"
    | "?k < min (length ?bs) 39" by linarith
  then show ?thesis
  proof cases
    case 1
    then have "n = 0" by (simp add: n_def)
    then show ?thesis using 1 assms(5) unfolding step by (auto simp: fin CATCH_def splice_at_def)
  next
    case 2
    then have "copyout_shape api (data b) ?k n 0 1 = Crash DivByZero"
      using sz by (simp add: copyout_shape_def n_def)
    then show ?thesis using 2 unfolding step by (simp add: CATCH_def)
  next
    case 3
    then have "n = 0" by (simp add: n_def)
    moreover have "copyout_shape api (data b) ?k n 0 1 = Ok (0, [])"
      using 3 copyout_shape_none [OF law(1)] by simp
    ultimately show ?thesis using 3 assms(5) unfolding step by (simp add: fin CATCH_def splice_at_def)
  next
    case 4
    let ?raw = "take n (drop ?k ?bs)"
    have n: "0 < n" "n + ?k \<le> 39" "n + ?k \<le> length ?bs" using 4 by (simp_all add: n_def)
    then have "copyout_shape api (data b) ?k n 0 1 = Ok (1, ?raw)"
      using copyout_one [OF law n(1), of ?k] assms(6) by (simp add: add.commute)
    moreover have "take (Suc n) (splice_at n [0] (splice_at 0 ?raw (s_val r))) = ?raw @ [0]"
      using n by (simp add: splice_at_def)
    moreover have "length (splice_at n [0] (splice_at 0 ?raw (s_val r))) = 40"
      using n assms(5) by (simp add: splice_at_def)
    moreover have "\<not> min (length ?bs) 39 < ?k" "?k \<noteq> 39" using 4 by linarith+
    ultimately show ?thesis unfolding step by (simp add: fin CATCH_def)
  qed
qed

definition demo_str :: str_rec where
  "demo_str = \<lparr>tse_device = False, rec_time = (0, 0), alarms = [], s_val = replicate 40 0\<rparr>"

theorem string_read_witness:
  "\<exists>r1. read_si chunk_api Ok (Some (demo_priv 2)) demo_str demo_base = (r1, demo_base, Ok DevOk) \<and>
     take 5 (s_val r1) = [3, 4, 5, 6, 0]"
proof -
  have d: "connected demo_base" "\<not> tse_device demo_str" "length (s_val demo_str) = 40"
    "p_offset (demo_priv 2) = 2" by (simp_all add: demo_base_def demo_str_def demo_priv_def)
  have five: "Suc (Suc (Suc (Suc (Suc 0)))) = 5" by simp
  obtain r1 where "read_si chunk_api Ok (Some (demo_priv 2)) demo_str demo_base = (r1, demo_base, Ok DevOk)"
    "take (Suc (Suc (Suc (Suc (Suc 0))))) (s_val r1) = [3, 4, 5, 6, 0]"
    using string_read [OF demo_blk_ok(1,3) d(1-3), where n1 = 2 and mk = Ok]
    by (auto simp: d demo_blk_ok(2))
  then show ?thesis unfolding five by blast
qed

text \<open>
  a byte waveform copies its bytes only when the body holds NELM bytes from the offset
  on, and shows then one element (NORD is 1), else none: the number of elements is the truth
  value that \<open>copyout\<close> returns.
\<close>

theorem wf_bytes_nord:
  assumes "deref (p_block p) s = Some b" and "dbuffer_lawful api (data b)" and "connected s"
    and "\<not> tse_device r" and "0 < w_nelm r" and "length (w_buf r) = w_nelm r"
    and "length (dbytes (data b)) + w_nelm r < 2 ^ 64"
  shows "\<exists>r1. read_wf_bytes api mk (Some p) r s = (r1, s, Ok DevOk) \<and>
    (if p_offset p + w_nelm r \<le> length (dbytes (data b))
     then w_nord r1 = 1 \<and> w_buf r1 = take (w_nelm r) (drop (p_offset p) (dbytes (data b)))
     else w_nord r1 = 0 \<and> w_buf r1 = w_buf r)"
proof -
  have "dbuffer_copyout api (data b) (p_offset p) (w_nelm r) =
      Ok (p_offset p + w_nelm r \<le> length (dbytes (data b)),
          if p_offset p + w_nelm r \<le> length (dbytes (data b))
          then take (w_nelm r) (drop (p_offset p) (dbytes (data b))) else [])"
    using assms(2,5,7) by (intro copyout_eq) (simp_all add: dbuffer_lawful_def)
  then show ?thesis
    using assms(1,3,4,6)
    by (simp add: read_wf_bytes_def with_priv_def finish_read_ok CATCH_def splice_at_def)
qed

theorem wf_bytes_nord_witness:
  "\<exists>r1. read_wf_bytes chunk_api Ok (Some (demo_priv 2)) (demo_wf\<lparr>w_nelm := 3, w_buf := [0, 0, 0]\<rparr>) demo_base =
       (r1, demo_base, Ok DevOk) \<and> w_nord r1 = 1 \<and> w_buf r1 = [3, 4, 5]"
proof -
  let ?r = "demo_wf\<lparr>w_nelm := 3, w_buf := [0, 0, 0]\<rparr>"
  have d: "connected demo_base" "\<not> tse_device ?r" "w_nelm ?r = 3" "length (w_buf ?r) = 3" "0 < w_nelm ?r"
    "p_offset (demo_priv 2) = 2" by (simp_all add: demo_base_def demo_wf_def demo_priv_def)
  show ?thesis
    using wf_bytes_nord [OF demo_blk_ok(1,3) d(1,2), where n1 = 2 and mk = Ok]
    by (auto simp: d demo_blk_ok(2))
qed

end
