(* ===== verification/Dev_Sets.thy ===== *)
theory Dev_Sets
  imports Dev_Reg Dev_Block
begin

text \<open>
  How records meet their device support: the table of the register device support
  (the \<open>MAKEDSET\<close> lines of coreApp/src/devPSCReg.cpp), by the names under which it is exported, and the choice of the scan
  list of a record with I/O interrupt scanning (the functions \<open>get_iointr_info\<close> of the device supports).

  A record is one of the three shapes that the register device support knows. The functions of a table fit the
  type of its record; a call with another record does not exist (\<open>None\<close>).
\<close>

section \<open>Scan lists\<close>

text \<open>The scan lists of a driver: one for each block, one for changes of its state, one for connections.\<close>

datatype scan_list = BlockScan blkptr | DriverScan | ConnectScan

definition get_iointr_reg :: "priv option \<Rightarrow> scan_list option" where
  "get_iointr_reg dpvt = (case dpvt of None \<Rightarrow> None | Some p \<Rightarrow> Some (BlockScan (p_block p)))"

definition get_iointr_wf :: "priv option \<Rightarrow> scan_list option" where
  "get_iointr_wf dpvt = (case dpvt of None \<Rightarrow> None | Some p \<Rightarrow> Some (BlockScan (p_block p)))"

definition get_iointr_string :: "priv option \<Rightarrow> scan_list option" where
  "get_iointr_string dpvt = (case dpvt of None \<Rightarrow> None | Some p \<Rightarrow> Some (BlockScan (p_block p)))"

text \<open>Of the control device support, whose private data is the driver itself.\<close>

definition get_iointr_ctrl :: "'d option \<Rightarrow> scan_list option" where
  "get_iointr_ctrl dpvt = (case dpvt of None \<Rightarrow> None | Some d \<Rightarrow> Some DriverScan)"

definition get_iointr_onConn :: "'d option \<Rightarrow> scan_list option" where
  "get_iointr_onConn dpvt = (case dpvt of None \<Rightarrow> None | Some d \<Rightarrow> Some ConnectScan)"

section \<open>The table\<close>

datatype any_rec = BinRec bin_rec | ValRec val_rec | AnaRec "real ana_rec"

text \<open>The number is the size of the value in bytes.\<close>

datatype reg_op =
    ReadBinary | ReadVal nat | ReadAi | ReadAiFloat nat
  | WriteBinary | WriteVal nat | WriteAo | WriteAoFloat nat

text \<open>
  An entry: whether \<open>extra_init\<close> of the record type shifts the mask, the direction of the
  function for initialization, whether there is a function for the scan list, and the function for processing.
\<close>

record reg_dset =
  ds_shift :: bool
  ds_dir :: nat
  ds_iointr :: bool
  ds_op :: reg_op

definition dset_in :: "bool \<Rightarrow> reg_op \<Rightarrow> reg_dset" where
  "dset_in sh f = \<lparr>ds_shift = sh, ds_dir = 0, ds_iointr = True, ds_op = f\<rparr>"

definition dset_rb :: "bool \<Rightarrow> reg_op \<Rightarrow> reg_dset" where
  "dset_rb sh f = \<lparr>ds_shift = sh, ds_dir = 1, ds_iointr = False, ds_op = f\<rparr>"

definition dset_out :: "bool \<Rightarrow> reg_op \<Rightarrow> reg_dset" where
  "dset_out sh f = \<lparr>ds_shift = sh, ds_dir = 1, ds_iointr = False, ds_op = f\<rparr>"

definition reg_inputs :: "(string \<times> reg_dset) list" where
  "reg_inputs =
     [(''devPSCRegBi'', dset_in False ReadBinary), (''devPSCRegMbbi'', dset_in True ReadBinary),
      (''devPSCRegMbbiDirect'', dset_in True ReadBinary), (''devPSCRegLi'', dset_in False (ReadVal 4)),
      (''devPSCRegI64i'', dset_in False (ReadVal 8)), (''devPSCRegAi'', dset_in False ReadAi),
      (''devPSCRegF32Ai'', dset_in False (ReadAiFloat 4)), (''devPSCRegF64Ai'', dset_in False (ReadAiFloat 8))]"

definition reg_readbacks :: "(string \<times> reg_dset) list" where
  "reg_readbacks =
     [(''devPSCRegRBBi'', dset_rb False ReadBinary), (''devPSCRegRBMbbi'', dset_rb True ReadBinary),
      (''devPSCRegRBMbbiDirect'', dset_rb True ReadBinary), (''devPSCRegRBLi'', dset_rb False (ReadVal 4)),
      (''devPSCRegRBI64i'', dset_rb False (ReadVal 8)), (''devPSCRegRBAi'', dset_rb False ReadAi),
      (''devPSCRegRBF32Ai'', dset_rb False (ReadAiFloat 4)), (''devPSCRegRBF64Ai'', dset_rb False (ReadAiFloat 8))]"

definition reg_outputs :: "(string \<times> reg_dset) list" where
  "reg_outputs =
     [(''devPSCRegBo'', dset_out False WriteBinary), (''devPSCRegMbbo'', dset_out True WriteBinary),
      (''devPSCRegMbboDirect'', dset_out True WriteBinary), (''devPSCRegLo'', dset_out False (WriteVal 4)),
      (''devPSCRegI64o'', dset_out False (WriteVal 8)), (''devPSCRegAo'', dset_out False WriteAo),
      (''devPSCRegF32Ao'', dset_out False (WriteAoFloat 4)), (''devPSCRegF64Ao'', dset_out False (WriteAoFloat 8))]"

definition reg_dsets :: "(string \<times> reg_dset) list" where
  "reg_dsets = reg_inputs @ reg_readbacks @ reg_outputs"

section \<open>Calls through the table\<close>

text \<open>The host: its byte order, its time, and its floating point numbers of 4 and 8 bytes.\<close>

record host_env =
  h_api :: evbuffer_api
  h_le :: bool
  h_time :: "epics_time \<Rightarrow> epics_time outcome"
  h_dbl :: "nat \<Rightarrow> byte list \<Rightarrow> real"
  h_img :: "nat \<Rightarrow> real \<Rightarrow> byte list"
  h_isnan :: "real \<Rightarrow> bool"

definition in_rec :: "('r \<Rightarrow> any_rec) \<Rightarrow> 'r \<times> 's \<times> 'o \<Rightarrow> (any_rec \<times> 's \<times> 'o) option" where
  "in_rec c x = (case x of (r, s, y) \<Rightarrow> Some (c r, s, y))"

fun reg_init ::
  "reg_dset \<Rightarrow> (string \<Rightarrow> bool) \<Rightarrow> nat option \<Rightarrow> bool \<Rightarrow> rec_ptr \<Rightarrow> string \<Rightarrow> any_rec \<Rightarrow> 'a psc_base_scheme \<Rightarrow>
   (any_rec \<times> ('a psc_base_scheme \<times> priv option) \<times> dev_ret outcome) option" where
  "reg_init d found ts onconn rp link (BinRec r) s =
     in_rec BinRec (init_reg (if ds_shift d then extra_init else (\<lambda>r. r)) found ts onconn rp link (ds_dir d) r s)"
| "reg_init d found ts onconn rp link (ValRec r) s =
     in_rec ValRec (init_reg (\<lambda>r. r) found ts onconn rp link (ds_dir d) r s)"
| "reg_init d found ts onconn rp link (AnaRec r) s =
     in_rec AnaRec (init_reg (\<lambda>r. r) found ts onconn rp link (ds_dir d) r s)"

definition reg_scan :: "reg_dset \<Rightarrow> priv option \<Rightarrow> scan_list option" where
  "reg_scan d dpvt = (if ds_iointr d then get_iointr_reg dpvt else None)"

fun reg_process ::
  "host_env \<Rightarrow> reg_op \<Rightarrow> priv option \<Rightarrow> any_rec \<Rightarrow> 'a psc_base_scheme \<Rightarrow>
   (any_rec \<times> 'a psc_base_scheme \<times> dev_ret outcome) option" where
  "reg_process h ReadBinary dpvt (BinRec r) s = in_rec BinRec (read_binary (h_api h) (h_le h) (h_time h) dpvt r s)"
| "reg_process h (ReadVal n) dpvt (ValRec r) s = in_rec ValRec (read_to_val (h_api h) (h_le h) (h_time h) n dpvt r s)"
| "reg_process h ReadAi dpvt (AnaRec r) s = in_rec AnaRec (read_ai (h_api h) (h_le h) (h_time h) dpvt r s)"
| "reg_process h (ReadAiFloat n) dpvt (AnaRec r) s =
     in_rec AnaRec (read_ai_float (h_api h) (h_le h) (h_time h) (h_dbl h n) (h_isnan h) n dpvt r s)"
| "reg_process h WriteBinary dpvt (BinRec r) s = in_rec BinRec (write_binary (h_api h) (h_le h) dpvt r s)"
| "reg_process h (WriteVal n) dpvt (ValRec r) s = in_rec ValRec (write_from_val (h_api h) (h_le h) dpvt r s)"
| "reg_process h WriteAo dpvt (AnaRec r) s = in_rec AnaRec (write_ao (h_api h) (h_le h) dpvt r s)"
| "reg_process h (WriteAoFloat n) dpvt (AnaRec r) s =
     in_rec AnaRec (write_ao_float (h_api h) (h_le h) (h_img h n) dpvt r s)"
| "reg_process h f dpvt r s = None"

section \<open>What the readers show\<close>

fun op_size :: "reg_op \<Rightarrow> nat" where
  "op_size (ReadVal n) = n"
| "op_size (ReadAiFloat n) = n"
| "op_size (WriteVal n) = n"
| "op_size (WriteAoFloat n) = n"
| "op_size f = 4"

fun rec_fits :: "reg_op \<Rightarrow> any_rec \<Rightarrow> bool" where
  "rec_fits ReadBinary (BinRec r) \<longleftrightarrow> True"
| "rec_fits (ReadVal n) (ValRec r) \<longleftrightarrow> True"
| "rec_fits ReadAi (AnaRec r) \<longleftrightarrow> True"
| "rec_fits (ReadAiFloat n) (AnaRec r) \<longleftrightarrow> True"
| "rec_fits f r \<longleftrightarrow> False"

text \<open>The value of a record that stands for \<open>bs\<close>, the bytes of the field as they came over the network.\<close>

fun reg_shows :: "host_env \<Rightarrow> reg_op \<Rightarrow> byte list \<Rightarrow> any_rec \<Rightarrow> bool" where
  "reg_shows h ReadBinary bs (BinRec r) \<longleftrightarrow> r_rval r = masked (r_mask r) (unbe32 bs)"
| "reg_shows h (ReadVal n) bs (ValRec r) \<longleftrightarrow> r_val r = host_order (h_le h) bs"
| "reg_shows h ReadAi bs (AnaRec r) \<longleftrightarrow> a_rval r = unbe32 bs"
| "reg_shows h (ReadAiFloat n) bs (AnaRec r) \<longleftrightarrow>
     a_val r = analogRaw2EGU (a_conv r) (h_dbl h n (host_order (h_le h) bs))"
| "reg_shows h f bs r \<longleftrightarrow> False"

fun rec_alarms :: "any_rec \<Rightarrow> (nat \<times> nat) list" where
  "rec_alarms (BinRec r) = alarms r"
| "rec_alarms (ValRec r) = alarms r"
| "rec_alarms (AnaRec r) = alarms r"

definition stamped :: "block \<Rightarrow> 'r dev_rec_scheme \<Rightarrow> 'r dev_rec_scheme" where
  "stamped b r = (if tse_device r then r\<lparr>rec_time := rxtime b\<rparr> else r)"

lemma setRecTimestamp_rx:
  "\<not> p_timeFromBlock p \<Longrightarrow> deref (p_block p) s = Some b \<Longrightarrow> setRecTimestamp ap mk p s r = (stamped b r, Ok ())"
  by (simp add: setRecTimestamp_def stamped_def)

lemma read_then_eq:
  assumes "deref (p_block p) s = Some b" and "dbuffer_lawful ap (data b)" and "\<not> p_timeFromBlock p" and "connected s"
    and "n \<in> {1, 2, 4} \<or> n = 8 \<and> le"
  shows "with_priv (Some p) (read_then ap le mk n f ret s r) r s =
    (if p_offset p + n \<le> length (dbytes (data b))
     then (stamped b (f (host_order le (take n (drop (p_offset p) (dbytes (data b))))) r), s, Ok ret)
     else (recGblSetSevr SOFT_ALARM INVALID_ALARM r, s, Ok DevBadRequest))"
proof -
  let ?img = "take n (drop (p_offset p) (dbytes (data b)))"
  have n: "0 < n" "n \<le> 8" using assms(5) by auto
  have "ntoh le ?img = host_order le ?img" if "p_offset p + n \<le> length (dbytes (data b))"
    using hton_net [of ?img le] that assms(5) by (simp add: ntoh_def)
  then show ?thesis
    using read_to_field_eq [OF assms(1,2) n, of le r] assms(4)
    by (simp add: with_priv_def read_then_def CATCH_def offline_def setRecTimestamp_rx [OF assms(3,1)])
qed

lemma unhost_host_order [simp]: "unhost32 le (host_order le bs) = unbe32 bs"
  by (simp add: unhost32_def)

lemma stamped_sel [simp]:
  "alarms (stamped b r) = alarms r" "r_rval (stamped b r') = r_rval r'" "r_mask (stamped b r') = r_mask r'"
  "r_val (stamped b q) = r_val q" "a_rval (stamped b x) = a_rval x" "a_val (stamped b x) = a_val x"
  "a_conv (stamped b x) = a_conv x"
  by (simp_all add: stamped_def)

lemma reg_sizes: "(nm, d) \<in> set reg_inputs \<Longrightarrow> op_size (ds_op d) = 4 \<or> op_size (ds_op d) = 8"
  by (auto simp: reg_inputs_def dset_in_def)

lemma reg_inputs_dir: "(nm, d) \<in> set reg_inputs \<Longrightarrow> ds_dir d = 0 \<and> ds_iointr d"
  by (auto simp: reg_inputs_def dset_in_def)

lemma reg_read_shows:
  assumes "rec_fits f r" and "op_size f = 4 \<or> op_size f = 8 \<and> h_le h"
    and "deref (p_block p) s = Some b" and "dbuffer_lawful (h_api h) (data b)" and "\<not> p_timeFromBlock p" and "connected s"
  shows "\<exists>r1 ret. reg_process h f (Some p) r s = Some (r1, s, Ok ret) \<and>
    (if p_offset p + op_size f \<le> length (dbytes (data b))
     then reg_shows h f (take (op_size f) (drop (p_offset p) (dbytes (data b)))) r1 \<and> rec_alarms r1 = rec_alarms r
     else ret = DevBadRequest \<and> rec_alarms r1 = rec_alarms r @ [(SOFT_ALARM, INVALID_ALARM)])"
proof -
  note eq = read_then_eq [OF assms(3-6)]
  show ?thesis
    using assms(1,2)
    by (cases "(f, r)" rule: rec_fits.cases)
      (auto simp: in_rec_def read_binary_def read_to_val_def read_ai_def read_ai_float_def eq Let_def recGblSetSevr_def)
qed

text \<open>What initialization of an input gives.\<close>

lemma reg_init_input:
  assumes "reg_init d found None onconn rp link r s = Some (r1, (t, Some p), y)" and "ds_dir d = 0"
  shows "p_block p = PRecv (p_bid p) \<and> \<not> p_timeFromBlock p \<and> known t (p_bid p) \<and> rec_alarms r1 = rec_alarms r"
proof -
  have *: "p_block p = PRecv (p_bid p) \<and> \<not> p_timeFromBlock p \<and> known t (p_bid p) \<and> x = extra q"
    if "init_reg extra found None onconn rp link 0 q s = (x, (t, Some p), y)" for extra q x
    using that unfolding init_reg_def parse_link_def known_def
    by (auto simp: Let_def CATCH_def getRecv_def split: outcome.splits if_splits option.splits exn.splits)
  show ?thesis
    using assms by (cases r) (auto simp: in_rec_def extra_init_def split: prod.splits if_splits dest!: *)
qed

text \<open>A host and a record.\<close>

definition demo_host :: host_env where
  "demo_host = \<lparr>h_api = chunk_api, h_le = True, h_time = Ok, h_dbl = (\<lambda>n bs. 0), h_img = (\<lambda>n v. replicate n 0),
     h_isnan = (\<lambda>v. False)\<rparr>"

definition demo_val :: val_rec where
  "demo_val = \<lparr>tse_device = False, rec_time = (0, 0), alarms = [], r_val = [0, 0, 0, 0]\<rparr>"

definition demo_bound :: priv where
  "demo_bound = \<lparr>p_bid = 7, p_block = PRecv 7, p_offset = 2, p_step = 0, p_timeFromBlock = False, p_tsoffset = 0\<rparr>"

lemma demo_link: "link_fields ''dev 7 2'' = Ok (''dev'', 7, 2, 0)"
  by code_simp

lemma demo_bound_init:
  "recv_blocks s 7 = Some b \<Longrightarrow>
   reg_init (dset_in False (ReadVal 4)) (\<lambda>n. n = ''dev'') None False 0 ''dev 7 2'' (ValRec demo_val) s =
     Some (ValRec demo_val, (s, Some demo_bound), Ok DevOk)"
  by (simp add: init_reg_def parse_link_def demo_link dset_in_def in_rec_def demo_bound_def getRecv_def Let_def)

end
