(* ===== verification/Dev_Single.thy ===== *)
theory Dev_Single
  imports Dev_Reg Psc_Transport
begin

text \<open>
  Single-register device support (coreApp/src/devPSCSingle.cpp): an output record that sends
  one message per write, made of the register's address (the offset of the link) and the
  value, and that follows messages of the device for the same address when SYNC is SAME.

  \<open>al\<close> is the alignment of the value's type, which decides where the compiler places the
  value behind the 32 bit address; \<open>mem0\<close> is the content of the message variable on the stack
  before it is filled. \<open>queueSend\<close> is the driver's.
\<close>

section \<open>Private data\<close>

record single_priv = priv +
  syncData :: "byte list"
  syncNow :: bool

record sval_rec = val_rec +
  v_udf :: bool

definition single_new :: "priv \<Rightarrow> single_priv" where
  "single_new p = priv.extend p \<lparr>syncData = [], syncNow = False\<rparr>"

text \<open>
  \<open>init_output\<close>: a record with SYNC set to SAME attaches to the received block and listens to it
  (\<open>fn\<close> stands for \<open>received_block\<close>, \<open>user\<close> for its private data), any other one has no block.
\<close>

definition init_single ::
  "('r dev_rec_scheme \<Rightarrow> 'r dev_rec_scheme) \<Rightarrow> (string \<Rightarrow> bool) \<Rightarrow> nat option \<Rightarrow> bool \<Rightarrow> rec_ptr \<Rightarrow> bool \<Rightarrow> nat \<Rightarrow>
   nat \<Rightarrow> string \<Rightarrow> 'r dev_rec_scheme \<Rightarrow>
   'a psc_base_scheme \<Rightarrow> 'r dev_rec_scheme \<times> ('a psc_base_scheme \<times> single_priv option) \<times> dev_ret outcome" where
  "init_single extra found ts onconn rp same fn user link r0 s =
     (let r = extra r0 in case parse_link found ts onconn rp link (if same then 0 else 2) s of
        (s1, Ok p) \<Rightarrow>
          let s2 = (if p_block p \<noteq> PNull
                    then upd_block (p_block p) (\<lambda>b. b\<lparr>listeners := cblist_add (listeners b) fn user\<rparr>) s1
                    else s1)
          in (r, (s2, Some (single_new p)), Ok DevOk)
      | (s1, Throw e) \<Rightarrow> CATCH (r, (s1, None), Throw e)
      | (s1, Crash c) \<Rightarrow> (r, (s1, None), Crash c))"

section \<open>Messages from the device\<close>

text \<open>
  The listener. \<open>stack\<close> is the content of the local variable that \<open>copyout\<close> may leave
  unwritten. The boolean of the result is whether the callback is requested.
\<close>

definition received_block ::
  "evbuffer_api \<Rightarrow> byte list \<Rightarrow> single_priv \<Rightarrow> 'a psc_base_scheme \<Rightarrow> (single_priv \<times> bool) outcome" where
  "received_block api stack p s =
     (case deref (p_block p) s of
        None \<Rightarrow> Crash NullPointer
      | Some b \<Rightarrow>
          (case dbuffer_copyout api (data b) 0 4 of
             Ok (True, _) \<Rightarrow> Ok (p, False)
           | Ok (False, raw) \<Rightarrow>
               let addr = unbe32 (splice_at 0 raw stack)
               in if p_offset p \<noteq> unat addr then Ok (p, False)
                  else
                    let alreadyQueued = (syncData p \<noteq> []);
                        n = dbuffer_size api (data b);
                        buf = vec_resize (syncData p) n
                    in (case dbuffer_copyout api (data b) 0 n of
                          Ok (ok, raw) \<Rightarrow>
                            let actual = (if ok then 1 else 0)
                            in Ok (p\<lparr>syncData := vec_resize (splice_at 0 raw buf) actual\<rparr>, \<not> alreadyQueued)
                        | Throw e \<Rightarrow> Throw e
                        | Crash c \<Rightarrow> Crash c)
           | Throw e \<Rightarrow> Throw e
           | Crash c \<Rightarrow> Crash c))"

text \<open>The callback processes the record (\<open>dbProcess\<close>) with the flag set.\<close>

definition sync_callback ::
  "(single_priv \<Rightarrow> 'r \<Rightarrow> 's \<Rightarrow> 'r \<times> (single_priv \<times> 's) \<times> dev_ret outcome) \<Rightarrow>
   single_priv \<Rightarrow> 'r \<Rightarrow> 's \<Rightarrow> 'r \<times> (single_priv \<times> 's) \<times> dev_ret outcome" where
  "sync_callback dbProcess p r s =
     (case dbProcess (p\<lparr>syncNow := True\<rparr>) r s of
        (r1, (p1, s1), y) \<Rightarrow> (r1, (p1\<lparr>syncNow := False\<rparr>, s1), y))"

section \<open>The message\<close>

text \<open>The layout of \<open>union msg\<close>: an address of 4 bytes, and a value of \<open>n\<close> bytes.\<close>

definition round_up :: "nat \<Rightarrow> nat \<Rightarrow> nat" where
  "round_up al n = (n + al - 1) div al * al"

definition val_off :: "nat \<Rightarrow> nat" where
  "val_off al = round_up al 4"

definition msg_size :: "nat \<Rightarrow> nat \<Rightarrow> nat" where
  "msg_size al n = round_up (max 4 al) (val_off al + n)"

definition write_msg ::
  "(u16 \<Rightarrow> byte list \<Rightarrow> 'a psc_base_scheme \<Rightarrow> 'a psc_base_scheme \<times> unit outcome) \<Rightarrow> bool \<Rightarrow> nat \<Rightarrow> byte list \<Rightarrow>
   single_priv \<Rightarrow> byte list \<Rightarrow> 'a psc_base_scheme \<Rightarrow> 'a psc_base_scheme \<times> unit outcome" where
  "write_msg queueSend le al mem0 p img s =
     (let tosend = take (msg_size al (length img)) mem0;
          tosend = splice_at 0 (hton le (host32 le (of_nat (p_offset p)))) tosend;
          tosend = splice_at (val_off al) (hton le img) tosend
      in if \<not> connected s then (s, Throw (RecAlarm WRITE_ALARM INVALID_ALARM))
         else queueSend (p_bid p) tosend s)"

text \<open>The alarm that a sequence of calls of recGblSetSevr leaves: the first of the highest severity.\<close>

definition nalarm :: "(nat \<times> nat) list \<Rightarrow> nat \<times> nat" where
  "nalarm cs = foldl (\<lambda>(sts, sevr) (sts', sevr'). if sevr < sevr' then (sts', sevr') else (sts, sevr)) (0, 0) cs"

text \<open>\<open>read_msg\<close> leaves the value alone (\<open>None\<close>) when the block is too short.\<close>

definition read_msg ::
  "evbuffer_api \<Rightarrow> bool \<Rightarrow> nat \<Rightarrow> nat \<Rightarrow> single_priv \<Rightarrow> 'r dev_rec_scheme \<Rightarrow> 'a psc_base_scheme \<Rightarrow>
   'r dev_rec_scheme \<times> single_priv \<times> byte list option outcome" where
  "read_msg api le al n p r s =
     (case deref (p_block p) s of
        None \<Rightarrow> (r, p, Crash NullPointer)
      | Some b \<Rightarrow>
          if dbuffer_size api (data b) < msg_size al n then (r, p, Ok None)
          else if length (syncData p) < msg_size al n then (r, p, Crash OutOfBounds)
          else
            let torecv = take (msg_size al n) (syncData p);
                p1 = p\<lparr>syncData := []\<rparr>
            in if p_offset p \<noteq> unat (unbe32 (take 4 torecv)) then (r, p1, Crash AssertFailed)
               else
                 let img = ntoh le (take n (drop (val_off al) torecv));
                     r1 = (if nalarm (alarms r) = (UDF_ALARM, INVALID_ALARM) then r\<lparr>alarms := []\<rparr> else r)
                 in (r1, p1, Ok (Some img)))"

section \<open>Entry points\<close>

definition with_single ::
  "single_priv option \<Rightarrow> (single_priv \<Rightarrow> 'r dev_rec_scheme \<times> (single_priv \<times> 's) \<times> dev_ret outcome) \<Rightarrow>
   'r dev_rec_scheme \<Rightarrow> 's \<Rightarrow> 'r dev_rec_scheme \<times> (single_priv option \<times> 's) \<times> dev_ret outcome" where
  "with_single dpvt body r s =
     (case dpvt of
        None \<Rightarrow> (r, (None, s), Ok DevErr)
      | Some p \<Rightarrow> (case CATCH (body p) of (r1, (p1, s1), y) \<Rightarrow> (r1, (Some p1, s1), y)))"

text \<open>The two directions that every entry point has: send the value, or take it from the device.\<close>

definition sending ::
  "(u16 \<Rightarrow> byte list \<Rightarrow> 'a psc_base_scheme \<Rightarrow> 'a psc_base_scheme \<times> unit outcome) \<Rightarrow> bool \<Rightarrow> nat \<Rightarrow> byte list \<Rightarrow>
   byte list \<Rightarrow> ('r dev_rec_scheme \<Rightarrow> 'r dev_rec_scheme) \<Rightarrow> single_priv \<Rightarrow> 'r dev_rec_scheme \<Rightarrow> 'a psc_base_scheme \<Rightarrow>
   'r dev_rec_scheme \<times> (single_priv \<times> 'a psc_base_scheme) \<times> dev_ret outcome" where
  "sending queueSend le al mem0 img f p r s =
     (case write_msg queueSend le al mem0 p img s of
        (s1, Ok _) \<Rightarrow> (f r, (p, s1), Ok DevOk)
      | (s1, Throw e) \<Rightarrow> (r, (p, s1), Throw e)
      | (s1, Crash c) \<Rightarrow> (r, (p, s1), Crash c))"

definition receiving ::
  "evbuffer_api \<Rightarrow> bool \<Rightarrow> nat \<Rightarrow> nat \<Rightarrow> (byte list option \<Rightarrow> 'r dev_rec_scheme \<Rightarrow> 'r dev_rec_scheme) \<Rightarrow>
   single_priv \<Rightarrow> 'r dev_rec_scheme \<Rightarrow> 'a psc_base_scheme \<Rightarrow>
   'r dev_rec_scheme \<times> (single_priv \<times> 'a psc_base_scheme) \<times> dev_ret outcome" where
  "receiving api le al n f p r s =
     (case read_msg api le al n p r s of
        (r1, p1, Ok v) \<Rightarrow> (f v r1, (p1, s), Ok DevOk)
      | (r1, p1, Throw e) \<Rightarrow> (r1, (p1, s), Throw e)
      | (r1, p1, Crash c) \<Rightarrow> (r1, (p1, s), Crash c))"

definition write_msg_val ::
  "evbuffer_api \<Rightarrow> (u16 \<Rightarrow> byte list \<Rightarrow> 'a psc_base_scheme \<Rightarrow> 'a psc_base_scheme \<times> unit outcome) \<Rightarrow> bool \<Rightarrow> nat \<Rightarrow>
   byte list \<Rightarrow> single_priv option \<Rightarrow> sval_rec \<Rightarrow> 'a psc_base_scheme \<Rightarrow>
   sval_rec \<times> (single_priv option \<times> 'a psc_base_scheme) \<times> dev_ret outcome" where
  "write_msg_val api queueSend le al mem0 dpvt r s =
     with_single dpvt (\<lambda>p.
       if \<not> syncNow p then sending queueSend le al mem0 (r_val r) (\<lambda>r. r\<lparr>v_udf := False\<rparr>) p r s
       else receiving api le al (length (r_val r))
              (\<lambda>v r. r\<lparr>r_val := (case v of Some img \<Rightarrow> img | None \<Rightarrow> r_val r), v_udf := False\<rparr>) p r s) r s"

text \<open>The analog value that follows from a raw one, with the alarm of an undefined value.\<close>

definition set_analog :: "('f \<Rightarrow> bool) \<Rightarrow> 'f::field \<Rightarrow> 'f ana_rec \<Rightarrow> 'f ana_rec" where
  "set_analog isnan raw r =
     (let v = analogRaw2EGU (a_conv r) raw; r1 = r\<lparr>a_val := v, a_udf := isnan v\<rparr>
      in if isnan v then recGblSetSevr UDF_ALARM INVALID_ALARM r1 else r1)"

definition write_msg_rval ::
  "evbuffer_api \<Rightarrow> (u16 \<Rightarrow> byte list \<Rightarrow> 'a psc_base_scheme \<Rightarrow> 'a psc_base_scheme \<times> unit outcome) \<Rightarrow> bool \<Rightarrow>
   byte list \<Rightarrow> ('f \<Rightarrow> bool) \<Rightarrow> single_priv option \<Rightarrow> 'f::field ana_rec \<Rightarrow> 'a psc_base_scheme \<Rightarrow>
   'f ana_rec \<times> (single_priv option \<times> 'a psc_base_scheme) \<times> dev_ret outcome" where
  "write_msg_rval api queueSend le mem0 isnan dpvt r s =
     with_single dpvt (\<lambda>p.
       if \<not> syncNow p then sending queueSend le 4 mem0 (host32 le (a_rval r)) (\<lambda>r. r) p r s
       else receiving api le 4 4
              (\<lambda>v r. let r1 = (case v of Some img \<Rightarrow> r\<lparr>a_rval := unhost32 le img\<rparr> | None \<Rightarrow> r)
                     in set_analog isnan (of_int (sint (a_rval r1))) r1) p r s) r s"

definition write_msg_binary_rval ::
  "evbuffer_api \<Rightarrow> (u16 \<Rightarrow> byte list \<Rightarrow> 'a psc_base_scheme \<Rightarrow> 'a psc_base_scheme \<times> unit outcome) \<Rightarrow> bool \<Rightarrow>
   byte list \<Rightarrow> single_priv option \<Rightarrow> bin_rec \<Rightarrow> 'a psc_base_scheme \<Rightarrow>
   bin_rec \<times> (single_priv option \<times> 'a psc_base_scheme) \<times> dev_ret outcome" where
  "write_msg_binary_rval api queueSend le mem0 dpvt r s =
     with_single dpvt (\<lambda>p.
       if \<not> syncNow p
       then sending queueSend le 4 mem0 (host32 le (masked (r_mask r) (r_rval r))) (\<lambda>r. r) p r s
       else receiving api le 4 4
              (\<lambda>v r. r\<lparr>r_rval := (case v of Some img \<Rightarrow> unhost32 le img | None \<Rightarrow> 0)\<rparr>) p r s) r s"

text \<open>
  \<open>write_msg_val_ao\<close> for a floating point type of \<open>n\<close> bytes; \<open>img\<close> and \<open>dbl\<close> convert between
  numbers and memory images of that type.
\<close>

definition write_msg_val_ao ::
  "evbuffer_api \<Rightarrow> (u16 \<Rightarrow> byte list \<Rightarrow> 'a psc_base_scheme \<Rightarrow> 'a psc_base_scheme \<times> unit outcome) \<Rightarrow> bool \<Rightarrow> nat \<Rightarrow>
   byte list \<Rightarrow> ('f::field \<Rightarrow> byte list) \<Rightarrow> (byte list \<Rightarrow> 'f) \<Rightarrow> ('f \<Rightarrow> bool) \<Rightarrow> nat \<Rightarrow> single_priv option \<Rightarrow>
   'f ana_rec \<Rightarrow> 'a psc_base_scheme \<Rightarrow> 'f ana_rec \<times> (single_priv option \<times> 'a psc_base_scheme) \<times> dev_ret outcome" where
  "write_msg_val_ao api queueSend le al mem0 img dbl isnan n dpvt r s =
     with_single dpvt (\<lambda>p.
       if \<not> syncNow p
       then sending queueSend le al mem0 (img (analogEGU2Raw (a_conv r) (a_val r))) (\<lambda>r. r) p r s
       else receiving api le al n
              (\<lambda>v r. set_analog isnan (case v of Some i \<Rightarrow> dbl i | None \<Rightarrow> 0) r) p r s) r s"

section \<open>The body of a message\<close>

definition single_body :: "bool \<Rightarrow> nat \<Rightarrow> byte list \<Rightarrow> u32 \<Rightarrow> byte list \<Rightarrow> byte list" where
  "single_body le al mem0 addr img = be32 addr @ take (val_off al - 4) (drop 4 mem0) @ hton le img"

lemma msg_layout:
  assumes "al \<in> {4, 8}" and "n \<in> {4, 8}" and "al \<le> n"
  shows "val_off al = al" "msg_size al n = al + n"
  using assms by (auto simp: val_off_def msg_size_def round_up_def)

lemma write_msg_eq:
  assumes "al \<in> {4, 8}" and "length img \<in> {4, 8}" and "al \<le> length img"
    and "length mem0 = msg_size al (length img)" and "connected s"
  shows "write_msg queueSend le al mem0 p img s =
    queueSend (p_bid p) (single_body le al mem0 (of_nat (p_offset p)) img) s"
proof -
  have l: "val_off al = al" "length mem0 = al + length img"
    using msg_layout [OF assms(1-3)] assms(4) by simp_all
  have a: "hton le (host32 le w) = be32 w" for w
    using hton_net [of "host32 le w" le] by (simp add: host32_def)
  have "splice_at al (hton le img) (splice_at 0 (be32 w) mem0) = single_body le al mem0 w img" for w
    using assms(1) l by (auto simp: splice_at_def single_body_def)
  then show ?thesis
    using assms(4,5) l(1) by (simp add: write_msg_def Let_def a)
qed

lemma single_body_simps [simp]:
  "length img = 4 \<Longrightarrow> single_body le 4 mem0 w img = be32 w @ host_order le img"
  "length mem0 = 16 \<Longrightarrow> length img = 8 \<Longrightarrow> length (single_body le 8 mem0 w img) = 16"
  by (simp_all add: single_body_def val_off_def round_up_def hton_net)

context psc_driver
begin

lemma sending_sends:
  assumes "valid s" and "al \<in> {4, 8}" and "length img \<in> {4, 8}" and "al \<le> length img"
    and "length mem0 = msg_size al (length img)"
    and body_def: "body = single_body le al mem0 (of_nat (p_offset p)) img"
  shows "\<exists>r1 t x. CATCH (sending queue le al mem0 img f p r s) = (r1, (p, t), Ok x) \<and>
    valid t \<and> wire t = wire s \<and>
    (x = DevOk \<and> r1 = f r \<and> pending t = pending s @ frame (p_bid p) body \<or>
     x = DevBadRequest \<and> alarms r1 \<noteq> alarms r \<and> pending t = pending s)"
proof -
  have "length body = al + length img"
    using msg_layout [OF assms(2-4)] assms(2,5) by (auto simp: body_def single_body_def)
  then have fits: "msg_fits body" using assms(2,3) by (auto simp: msg_fits_def)
  have w: "write_msg queue le al mem0 p img s = queue (p_bid p) body s"
    unfolding body_def by (rule write_msg_eq [OF assms(2-5) valid_connected [OF assms(1)]])
  obtain t y where q: "queue (p_bid p) body s = (t, y)" by (cases "queue (p_bid p) body s")
  show ?thesis
  proof (cases y)
    case (Ok u)
    then show ?thesis
      using queue_ok [OF assms(1) fits, of "p_bid p" t] q w by (simp add: sending_def CATCH_def)
  next
    case (Throw e)
    then show ?thesis
      using queue_refused [OF assms(1) fits, of "p_bid p" t e] q w
      by (cases e) (simp_all add: sending_def CATCH_def recGblSetSevr_def)
  next
    case (Crash c)
    then show ?thesis using queue_safe [OF assms(1) fits, of "p_bid p"] q by simp
  qed
qed

text \<open>A binary output: the address and the masked value, in network byte order.\<close>

lemma single_binary_sends:
  assumes "valid s" and "length mem0 = 8" and "\<not> syncNow p"
    and body_def: "body = be32 (of_nat (p_offset p)) @ be32 (masked (r_mask r) (r_rval r))"
  shows "\<exists>r1 t x. write_msg_binary_rval api queue le mem0 (Some p) r s = (r1, (Some p, t), Ok x) \<and>
    valid t \<and> wire t = wire s \<and>
    (x = DevOk \<and> r1 = r \<and> pending t = pending s @ frame (p_bid p) body \<or>
     x = DevBadRequest \<and> alarms r1 \<noteq> alarms r \<and> pending t = pending s)"
proof -
  let ?img = "host32 le (masked (r_mask r) (r_rval r))"
  have "single_body le 4 mem0 (of_nat (p_offset p)) ?img = body"
    by (simp add: body_def host32_def)
  moreover have "length mem0 = msg_size 4 (length ?img)"
    using assms(2) msg_layout [of 4 4] by simp
  ultimately show ?thesis
    using sending_sends [OF assms(1), of 4 ?img mem0 body le p "\<lambda>r. r" r] assms(3)
    by (auto simp: write_msg_binary_rval_def with_single_def)
qed

end

section \<open>Properties\<close>

lemma short_sync_no_value:
  assumes "length (syncData p) \<le> 1" and "al \<in> {4, 8}" and "n \<in> {4, 8}" and "al \<le> n"
  shows "read_msg api le al n p r s \<noteq> (r1, p1, Ok (Some v))"
proof -
  have "1 < msg_size al n" using msg_layout [OF assms(2-4)] assms(2) by auto
  then show ?thesis
    using assms(1) by (auto simp: read_msg_def Let_def split: option.splits)
qed

text \<open>
  C36: a record with SYNC set to SAME never follows the device. A message that has an address
  is ignored, since the test on the result of \<open>copyout\<close> is inverted; a message too short to
  have one leaves at most one byte, because the result of \<open>copyout\<close> is taken for a length.
  So whatever is received, no value is ever taken over into the record.
\<close>

theorem single_never_syncs:
  assumes "deref (p_block p) s = Some b" and "dbuffer_lawful api (data b)"
    and "length (dbytes (data b)) < 2 ^ 63" and "length (syncData p) \<le> 1"
    and "al \<in> {4, 8}" and "n \<in> {4, 8}" and "al \<le> n"
  shows "\<exists>p1 q. received_block api stack p s = Ok (p1, q) \<and>
    (4 \<le> length (dbytes (data b)) \<longrightarrow> p1 = p \<and> \<not> q) \<and> length (syncData p1) \<le> 1 \<and>
    (\<forall>r t r1 p2 v. read_msg api le al n p1 r t \<noteq> (r1, p2, Ok (Some v)))"
proof -
  let ?bs = "dbytes (data b)"
  have law: "evbuffer_lawful api" "dbuffer_ok (data b)" using assms(2) by (simp_all add: dbuffer_lawful_def)
  have sz: "dbuffer_size api (data b) = length ?bs" by (rule dbuffer_size_eq [OF law(1)])
  have four: "dbuffer_copyout api (data b) 0 4 = Ok (4 \<le> length ?bs, if 4 \<le> length ?bs then take 4 ?bs else [])"
    using copyout_eq [OF law, of 4 0] assms(3) by simp
  obtain ok raw where all: "dbuffer_copyout api (data b) 0 (length ?bs) = Ok (ok, raw)"
  proof (cases "?bs = []")
    case True
    then show ?thesis
      using that [of False "[]"] copyout_shape_none [OF law(1), of 1 "data b" 0] by (simp add: dbuffer_copyout_def)
  next
    case False
    then show ?thesis using that copyout_eq [OF law, of "length ?bs" 0] assms(3) by simp
  qed
  have "\<exists>p1 q. received_block api stack p s = Ok (p1, q) \<and>
      (4 \<le> length ?bs \<longrightarrow> p1 = p \<and> \<not> q) \<and> length (syncData p1) \<le> 1"
    using assms(1,4) four all by (auto simp: received_block_def sz vec_resize_def Let_def)
  then show ?thesis using short_sync_no_value [OF _ assms(5-7)] by blast
qed

definition demo_single :: single_priv where
  "demo_single = single_new (demo_priv 1)"

theorem single_never_syncs_witness:
  "\<exists>p1 q. received_block chunk_api [0, 0, 0, 0] demo_single demo_base = Ok (p1, q) \<and> p1 = demo_single \<and> \<not> q"
proof -
  have d: "deref (p_block demo_single) demo_base = Some demo_blk" "syncData demo_single = []"
    using demo_blk_ok(1) [of 1] by (simp_all add: demo_single_def single_new_def priv.defs demo_priv_def)
  show ?thesis
    using single_never_syncs [OF d(1) demo_blk_ok(3), of 4 4 "[0, 0, 0, 0]" True] d(2) demo_blk_ok(2) by auto
qed

end
