(* ===== verification/Dev_Ctrl.thy ===== *)
theory Dev_Ctrl
  imports Dev_Block Psc_Registry
begin

text \<open>
  Control device support (coreApp/src/devPSCCtrl.cpp): records that show the state of a
  driver, and that tell it to send or to connect again. The virtual operations of the driver
  are parameters of the writers.
\<close>

section \<open>Initialization\<close>

text \<open>A record without a driver has no private data.\<close>

definition init_common :: "string \<Rightarrow> 'w registry \<Rightarrow> nat option \<times> dev_ret outcome" where
  "init_common link g = (getPSCBase link g, Ok DevOk)"

text \<open>
  \<open>init_count\<close> for the driver that the name in the link stands for (\<open>found\<close>, if there is one).
\<close>

definition init_count ::
  "(string \<Rightarrow> bool) \<Rightarrow> string \<Rightarrow> 'r dev_rec_scheme \<Rightarrow> 'a psc_base_scheme \<Rightarrow>
   'r dev_rec_scheme \<times> ('a psc_base_scheme \<times> blkptr option) \<times> dev_ret outcome" where
  "init_count found link r s =
     CATCH
       (let (st1, pscname) = extract_word (istream_new link);
            (st2, blocknum) = extract_unsigned 64 st1;
            (st3, direction) = extract_word st2;
            k = of_nat blocknum :: u16
        in if failbit st3 then (r, (s, None), Throw (RuntimeError ''Failed to parse INP''))
           else if \<not> found pscname then (r, (s, None), Throw (RuntimeError ''Can't find PSC''))
           else if direction = ''rx'' then (r, (getRecv k s, Some (PRecv k)), Ok DevOk)
           else if direction = ''tx'' then (r, (getSend k s, Some (PSend k)), Ok DevOk)
           else (r, (s, None), Throw (RuntimeError ''Invalid direction'')))"

section \<open>Entry points\<close>

record long_rec = dev_rec +
  l_val :: u32

definition with_psc ::
  "bool \<Rightarrow> ('r dev_rec_scheme \<times> 's \<times> dev_ret outcome) \<Rightarrow> 'r dev_rec_scheme \<Rightarrow> 's \<Rightarrow>
   'r dev_rec_scheme \<times> 's \<times> dev_ret outcome" where
  "with_psc dpvt body r s = (if \<not> dpvt then (r, s, Ok DevErr) else CATCH body)"

definition read_bi_connected ::
  "bool \<Rightarrow> bin_rec \<Rightarrow> 'a psc_base_scheme \<Rightarrow> bin_rec \<times> 'a psc_base_scheme \<times> dev_ret outcome" where
  "read_bi_connected dpvt r s =
     with_psc dpvt (r\<lparr>r_rval := (if connected s then 1 else 0)\<rparr>, s, Ok DevOk) r s"

definition c_str :: "string \<Rightarrow> byte list" where
  "c_str cs = map of_char cs"

text \<open>strncpy writes exactly \<open>n\<close> bytes: the text up to its first zero, and zeros.\<close>

definition strncpy :: "byte list \<Rightarrow> nat \<Rightarrow> byte list" where
  "strncpy src n = take n (takeWhile (\<lambda>b. b \<noteq> 0) src @ replicate n 0)"

definition read_si_message ::
  "bool \<Rightarrow> str_rec \<Rightarrow> 'a psc_base_scheme \<Rightarrow> str_rec \<times> 'a psc_base_scheme \<times> dev_ret outcome" where
  "read_si_message dpvt r s =
     with_psc dpvt
       (let len = max (length (message s)) MAX_STRING_SIZE
        in if len > length (s_val r) then (r, s, Crash OutOfBounds)
           else (r\<lparr>s_val := splice_at (MAX_STRING_SIZE - 1) [0] (splice_at 0 (strncpy (c_str (message s)) len) (s_val r))\<rparr>,
                 s, Ok DevOk)) r s"

definition read_unknown_count ::
  "bool \<Rightarrow> long_rec \<Rightarrow> 'a psc_base_scheme \<Rightarrow> long_rec \<times> 'a psc_base_scheme \<times> dev_ret outcome" where
  "read_unknown_count dpvt r s = with_psc dpvt (r\<lparr>l_val := ukncount s\<rparr>, s, Ok DevOk) r s"

definition read_connection_count ::
  "bool \<Rightarrow> long_rec \<Rightarrow> 'a psc_base_scheme \<Rightarrow> long_rec \<times> 'a psc_base_scheme \<times> dev_ret outcome" where
  "read_connection_count dpvt r s = with_psc dpvt (r\<lparr>l_val := conncount s\<rparr>, s, Ok DevOk) r s"

definition read_block_count ::
  "blkptr option \<Rightarrow> long_rec \<Rightarrow> 'a psc_base_scheme \<Rightarrow> long_rec \<times> 'a psc_base_scheme \<times> dev_ret outcome" where
  "read_block_count dpvt r s =
     (case dpvt of
        None \<Rightarrow> (r, s, Ok DevErr)
      | Some ptr \<Rightarrow>
          CATCH (case deref ptr s of
                   None \<Rightarrow> (r, s, Crash NullPointer)
                 | Some b \<Rightarrow> (r\<lparr>l_val := blk_count b\<rparr>, s, Ok DevOk)))"

definition returned :: "'r \<Rightarrow> 's \<times> unit outcome \<Rightarrow> 'r \<times> 's \<times> dev_ret outcome" where
  "returned r x =
     (case x of (s, Ok _) \<Rightarrow> (r, s, Ok DevOk) | (s, Throw e) \<Rightarrow> (r, s, Throw e) | (s, Crash c) \<Rightarrow> (r, s, Crash c))"

definition write_force_reconnect ::
  "('a psc_base_scheme \<Rightarrow> 'a psc_base_scheme \<times> unit outcome) \<Rightarrow> bool \<Rightarrow> 'r dev_rec_scheme \<Rightarrow>
   'a psc_base_scheme \<Rightarrow> 'r dev_rec_scheme \<times> 'a psc_base_scheme \<times> dev_ret outcome" where
  "write_force_reconnect force dpvt r s = with_psc dpvt (returned r (force s)) r s"

definition write_bo_send_changed ::
  "('a psc_base_scheme \<Rightarrow> 'a psc_base_scheme \<times> unit outcome) \<Rightarrow> bool \<Rightarrow> 'r dev_rec_scheme \<Rightarrow>
   'a psc_base_scheme \<Rightarrow> 'r dev_rec_scheme \<times> 'a psc_base_scheme \<times> dev_ret outcome" where
  "write_bo_send_changed flsh dpvt r s =
     with_psc dpvt
       (if \<not> connected s then (recGblSetSevr WRITE_ALARM INVALID_ALARM r, s, Ok DevOk)
        else returned r (flsh s)) r s"

definition write_lo_send_block ::
  "(u16 \<Rightarrow> dbuffer \<Rightarrow> 'a psc_base_scheme \<Rightarrow> 'a psc_base_scheme \<times> unit outcome) \<Rightarrow> bool \<Rightarrow> long_rec \<Rightarrow>
   'a psc_base_scheme \<Rightarrow> long_rec \<times> 'a psc_base_scheme \<times> dev_ret outcome" where
  "write_lo_send_block queueSend dpvt r s =
     with_psc dpvt
       (if sint (l_val r) < 0 \<or> sint (l_val r) > 0xffff
        then (recGblSetSevr WRITE_ALARM INVALID_ALARM r, s, Ok DevOk)
        else returned r (psc_send queueSend (ucast (l_val r)) s)) r s"

section \<open>Sending settings through any driver\<close>

lemma CATCH_throw: "\<exists>r1. CATCH (r, s, Throw e) = (r1, s, Ok DevBadRequest) \<and> alarms r1 \<noteq> alarms r"
  by (cases e) (simp_all add: CATCH_def recGblSetSevr_def)

lemma sint_ucast16: "sint (ucast (k :: u16) :: u32) = uint k"
proof -
  have "uint k < 2 ^ 31" using uint_bounded [of k] by simp
  then have "take_bit 31 (uint k) = uint k" by (simp add: take_bit_int_eq_self)
  then show ?thesis
    by (simp add: sint_uint signed_take_bit_eq_if_positive bit_uint_iff bit_ucast_iff uint_up_ucast is_up)
qed

context psc_settings
begin

lemma write_lo_send_block_sends:
  assumes "valid s" and "send_blocks s k = Some b" and "msg_fits (dbytes (data b))" and "l_val r = ucast k"
  shows "\<exists>r1 t x. write_lo_send_block queue_buf True r s = (r1, t, Ok x) \<and> valid t \<and> wire t = wire s \<and>
    (x = DevOk \<and> r1 = r \<and> pending t = pending s @ frame k (dbytes (data b)) \<or>
     x = DevBadRequest \<and> alarms r1 \<noteq> alarms r \<and> t = s)"
proof -
  have "uint k < 2 ^ 16" using uint_bounded [of k] by simp
  then have rng: "\<not> (sint (l_val r) < 0 \<or> sint (l_val r) > 0xffff)"
    using assms(4) by (simp add: sint_ucast16)
  have k: "ucast (l_val r) = k" using assms(4) by (simp add: ucast_up_ucast_id is_up)
  have w: "write_lo_send_block queue_buf True r s = CATCH (returned r (queue_buf k (data b) s))"
    using rng k assms(2) by (simp add: write_lo_send_block_def with_psc_def psc_send_def)
  from queue_buf_cases [OF assms(1-3)] show ?thesis
  proof (elim disjE exE conjE)
    fix t assume "queue_buf k (data b) s = (t, Ok ())" "valid t" "wire t = wire s"
      "pending t = pending s @ frame k (dbytes (data b))"
    then show ?thesis using w by (simp add: returned_def CATCH_def)
  next
    fix e assume "queue_buf k (data b) s = (s, Throw e)"
    then have "write_lo_send_block queue_buf True r s = CATCH (r, s, Throw e)"
      using w by (simp add: returned_def)
    then show ?thesis using CATCH_throw [of r s e] assms(1) by auto
  qed
qed

lemma write_bo_send_changed_flushes:
  assumes "valid s" and "write_bo_send_changed flush True r s = (r1, t, Ok DevOk)"
  shows "valid t \<and> pending t = [] \<and> wire t = wire s @ pending s"
proof -
  obtain u y where f: "flush s = (u, y)" by (cases "flush s")
  have w: "CATCH (returned r (u, y)) = (r1, t, Ok DevOk)"
    using assms f valid_connected by (simp add: write_bo_send_changed_def with_psc_def)
  then have "y = Ok ()"
  proof (cases y)
    case (Throw e)
    then show ?thesis using w CATCH_throw [of r u e] by (simp add: returned_def)
  qed (simp_all add: returned_def CATCH_def)
  then show ?thesis using w f flush_ok [OF assms(1), of u] by (simp add: returned_def CATCH_def)
qed

text \<open>A register write changes the cache of its block and nothing else that matters for sending.\<close>

lemma write_from_val_cached:
  assumes "valid s" and "p_block p = PSend k" and "send_blocks s k = Some b" and "evbuffer_lawful ap"
    and "r_val r \<noteq> []" and "p_offset p + length (r_val r) \<le> length (dbytes (data b))"
    and "msg_fits (dbytes (data b))"
  shows "\<exists>r1 t b'. write_from_val ap le (Some p) r s = (r1, t, Ok DevOk) \<and> valid t \<and> pending t = pending s \<and>
    wire t = wire s \<and> send_blocks t k = Some b' \<and>
    dbytes (data b') = splice_at (p_offset p) (hton le (r_val r)) (dbytes (data b))"
proof -
  let ?d = "fst (dbuffer_copyin (data b) (hton le (r_val r)) (p_offset p))"
  let ?t = "upd_send k (\<lambda>b'. b'\<lparr>data := ?d\<rparr>) s"
  have "block_ok k b"
    using valid_base [OF assms(1)] assms(3) blocks_okD [of "send_blocks s" k b]
    by (simp add: base_ok_def block_ok_def)
  then have law: "dbuffer_lawful ap (data b)" using assms(4,7) by (simp add: dbuffer_lawful_def block_ok_def msg_fits_def)
  have at: "deref (p_block p) s = Some b" using assms(2,3) by (simp add: deref_def)
  have d: "dbytes ?d = splice_at (p_offset p) (hton le (r_val r)) (dbytes (data b))" "dbuffer_lawful ap ?d"
    using law assms(6) dbuf.put_splice(1) [OF law, of "p_offset p" "hton le (r_val r)"] dbuf.put_ok [OF law] by auto
  have "write_from_val ap le (Some p) r s = (offline WRITE_ALARM s r, ?t, Ok DevOk)"
    using write_from_field_eq [OF at law assms(5), of le r] assms(2,6)
    by (simp add: write_from_val_def with_priv_def write_then_def CATCH_def upd_block_def)
  moreover have "valid ?t \<and> pending ?t = pending s \<and> wire ?t = wire s"
    using d(2) by (intro cache_kept [OF assms(1)]) (simp add: block_ok_def dbuffer_lawful_def)
  ultimately show ?thesis using d(1) assms(3) by (simp add: upd_send_def)
qed

lemma settings_sent:
  assumes "valid s" and "pending s = []" and "p_block p = PSend k" and "send_blocks s k = Some b"
    and "evbuffer_lawful ap" and "r_val r \<noteq> []"
    and "p_offset p + length (r_val r) \<le> length (dbytes (data b))" and "msg_fits (dbytes (data b))"
    and "l_val l = ucast k"
  shows "\<exists>r1 t l1 u x. write_from_val ap le (Some p) r s = (r1, t, Ok DevOk) \<and>
    write_lo_send_block queue_buf True l t = (l1, u, Ok x) \<and> (x = DevOk \<or> x = DevBadRequest) \<and>
    (\<forall>q1 v. x = DevOk \<and> write_bo_send_changed flush True q u = (q1, v, Ok DevOk) \<longrightarrow>
       wire v = wire s @ frame k (splice_at (p_offset p) (hton le (r_val r)) (dbytes (data b))) \<and> pending v = [])"
proof -
  obtain r1 t b' where t: "write_from_val ap le (Some p) r s = (r1, t, Ok DevOk)" "valid t" "pending t = pending s"
    "wire t = wire s" "send_blocks t k = Some b'"
    "dbytes (data b') = splice_at (p_offset p) (hton le (r_val r)) (dbytes (data b))"
    using write_from_val_cached [OF assms(1,3-8)] by blast
  have "length (dbytes (data b')) = length (dbytes (data b))" using t(6) assms(7) by simp
  then have "msg_fits (dbytes (data b'))" using assms(8) by (simp add: msg_fits_def)
  from write_lo_send_block_sends [OF t(2,5) this assms(9)]
  obtain l1 u x where u: "write_lo_send_block queue_buf True l t = (l1, u, Ok x)" "valid u" "wire u = wire t"
    "x = DevOk \<and> pending u = pending t @ frame k (dbytes (data b')) \<or> x = DevBadRequest"
    by blast
  have "wire v = wire s @ frame k (splice_at (p_offset p) (hton le (r_val r)) (dbytes (data b))) \<and> pending v = []"
    if "x = DevOk" "write_bo_send_changed flush True q u = (q1, v, Ok DevOk)" for q1 v
    using write_bo_send_changed_flushes [OF u(2) that(2)] u(3,4) that(1) t(3,4,6) assms(2) by simp
  then show ?thesis using t(1) u(1,4) by blast
qed

end

section \<open>Properties\<close>

text \<open>
  a message record shows the first 39 characters of the driver's last message, as a
  terminated string, when the message has at most 40 characters; for a longer message, such
  as a long socket error, more than the 40 bytes of the field are written.
\<close>

theorem ctrl_message:
  assumes "length (s_val r) = MAX_STRING_SIZE" and "\<forall>c \<in> set (message s). (of_char c :: byte) \<noteq> 0"
  shows "if length (message s) \<le> MAX_STRING_SIZE
    then \<exists>r1. read_si_message True r s = (r1, s, Ok DevOk) \<and> length (s_val r1) = MAX_STRING_SIZE \<and>
      takeWhile (\<lambda>b. b \<noteq> 0) (s_val r1) = c_str (take 39 (message s))
    else read_si_message True r s = (r, s, Crash OutOfBounds)"
proof (cases "length (message s) \<le> 40")
  case True
  let ?m = "c_str (message s)"
  have nz: "\<forall>b \<in> set ?m. b \<noteq> 0" using assms(2) by (simp add: c_str_def)
  then have tw: "takeWhile (\<lambda>b. b \<noteq> 0) ?m = ?m" by (simp add: takeWhile_eq_all_conv)
  have "length ?m \<le> 40" using True by (simp add: c_str_def)
  then have cpy: "strncpy ?m 40 = ?m @ replicate (40 - length ?m) 0"
    unfolding strncpy_def tw by simp
  let ?v = "splice_at 39 [0] (splice_at 0 (strncpy ?m 40) (s_val r))"
  have len: "length ?m = length (message s)" by (simp add: c_str_def)
  have v: "?v = take 39 ?m @ replicate (39 - length ?m) 0 @ [0]"
    using True assms(1) len unfolding cpy by (simp add: splice_at_def min_def)
  have "takeWhile (\<lambda>b. b \<noteq> 0) ?v = take 39 ?m"
  proof -
    have "\<forall>b \<in> set (take 39 ?m). b \<noteq> 0" using nz by (auto dest: in_set_takeD)
    moreover have "takeWhile (\<lambda>b. b \<noteq> (0 :: byte)) (replicate n 0 @ [0]) = []" for n
      by (cases n) simp_all
    ultimately show ?thesis unfolding v by (simp add: takeWhile_append2)
  qed
  moreover have "length ?v = 40" unfolding v using True len by auto
  moreover have "read_si_message True r s = (r\<lparr>s_val := ?v\<rparr>, s, Ok DevOk)"
    using True assms(1) by (simp add: read_si_message_def with_psc_def CATCH_def max_def Let_def)
  ultimately show ?thesis using True by (simp add: c_str_def take_map)
next
  case False
  then show ?thesis using assms(1) by (simp add: read_si_message_def with_psc_def CATCH_def Let_def)
qed

theorem ctrl_message_witness:
  "\<exists>r1. read_si_message True demo_str demo_base = (r1, demo_base, Ok DevOk) \<and>
     takeWhile (\<lambda>b. b \<noteq> 0) (s_val r1) = c_str ''Initialize''"
proof -
  have "message demo_base = ''Initialize''" "length (s_val demo_str) = 40"
    by (simp_all add: demo_base_def psc_base_new_def demo_str_def)
  then show ?thesis using ctrl_message [of demo_str demo_base] by auto
qed

end
