(* ===== verification/Dev_Fast.thy ===== *)
theory Dev_Fast
  imports Udp_Fast Dev_Ctrl
begin

text \<open>
  Device support of the fast UDP receiver (udpApp/src/devudp.cpp): the names of the data file,
  recording, statistics, and the packets that are kept in the short buffer.

  \<open>dpvt\<close> tells whether the record found its driver. Numbers of analog records are exact.
\<close>

section \<open>Records\<close>

text \<open>Long strings have a field of SIZV bytes; \<open>x_len\<close> is LEN.\<close>

record lstr_rec = dev_rec +
  x_val :: "byte list"
  x_len :: nat

record bo_rec = dev_rec +
  b_val :: bool

record i64_rec = dev_rec +
  i_val :: u64

text \<open>A record whose link names no driver of this class gets no private data.\<close>

definition getPSC_fast :: "string \<Rightarrow> 'w registry \<Rightarrow> nat option" where
  "getPSC_fast n g =
     (case getPSCBase n g of
        None \<Rightarrow> None
      | Some i \<Rightarrow> (case objs g i of Some (Fast _) \<Rightarrow> Some i | _ \<Rightarrow> None))"

definition devudp_init_record :: "string \<Rightarrow> 'w registry \<Rightarrow> nat option \<times> dev_ret outcome" where
  "devudp_init_record link g = (getPSC_fast link g, Ok DevOk)"

section \<open>The time between two processings\<close>

text \<open>\<open>now\<close> is the current time, if the clock can be read; \<open>diff\<close> is epicsTimeDiffInSeconds.\<close>

definition devudp_init_record_period :: "bool \<Rightarrow> epics_time \<Rightarrow> epics_time option" where
  "devudp_init_record_period alloc now = (if alloc then Some now else None)"

definition devudp_interval ::
  "(epics_time \<Rightarrow> epics_time \<Rightarrow> 'f::field) \<Rightarrow> epics_time option \<Rightarrow> epics_time option \<Rightarrow> 'f ana_rec \<Rightarrow>
   'f ana_rec \<times> epics_time option \<times> dev_ret outcome" where
  "devudp_interval diff now pvt r =
     (case (pvt, now) of
        (Some t0, Some t) \<Rightarrow> (r\<lparr>a_val := diff t t0\<rparr>, Some t, Ok DevNoConvert)
      | _ \<Rightarrow> ((recGblSetSevr READ_ALARM INVALID_ALARM r)\<lparr>a_val := 0\<rparr>, pvt, Ok DevNoConvert))"

section \<open>File and recording\<close>

definition c_string :: "byte list \<Rightarrow> string" where
  "c_string bs = map (\<lambda>b. char_of (unat b)) (takeWhile (\<lambda>b. b \<noteq> 0) bs)"

text \<open>\<open>setter\<close> stores one of the strings of the driver, \<open>getter\<close> reads one.\<close>

definition devudp_set_string ::
  "(string \<Rightarrow> 'w fast \<Rightarrow> 'w fast) \<Rightarrow> bool \<Rightarrow> lstr_rec \<Rightarrow> 'w fast \<Rightarrow> lstr_rec \<times> 'w fast \<times> dev_ret outcome" where
  "devudp_set_string setter dpvt r s =
     with_psc dpvt
       (let r1 = r\<lparr>x_val := (x_val r)[length (x_val r) - 1 := 0]\<rparr>
        in (r1, setter (c_string (x_val r1)) s, Ok DevOk)) r s"

definition devudp_reopen :: "bool \<Rightarrow> 'r dev_rec_scheme \<Rightarrow> 'w fast \<Rightarrow> 'r dev_rec_scheme \<times> 'w fast \<times> dev_ret outcome" where
  "devudp_reopen dpvt r s = with_psc dpvt (r, s\<lparr>reopen := True, pendingReady := True\<rparr>, Ok DevOk) r s"

definition devudp_set_record :: "bool \<Rightarrow> bo_rec \<Rightarrow> 'w fast \<Rightarrow> bo_rec \<times> 'w fast \<times> dev_ret outcome" where
  "devudp_set_record dpvt r s =
     with_psc dpvt
       (r, s\<lparr>recording := b_val r, reopen := b_val r, pendingReady := (pendingReady s \<or> b_val r)\<rparr>, Ok DevOk) r s"

definition devudp_get_record :: "bool \<Rightarrow> bin_rec \<Rightarrow> 'w fast \<Rightarrow> bin_rec \<times> 'w fast \<times> dev_ret outcome" where
  "devudp_get_record dpvt r s = with_psc dpvt (r\<lparr>r_rval := (if recording s then 1 else 0)\<rparr>, s, Ok DevOk) r s"

definition devudp_get_string ::
  "('w fast \<Rightarrow> string) \<Rightarrow> bool \<Rightarrow> lstr_rec \<Rightarrow> 'w fast \<Rightarrow> lstr_rec \<times> 'w fast \<times> dev_ret outcome" where
  "devudp_get_string getter dpvt r s =
     with_psc dpvt
       (let str = c_str (getter s); sizv = length (x_val r); n = length str;
            r1 = (if n \<ge> sizv then recGblSetSevr READ_ALARM INVALID_ALARM r else r);
            n = (if n \<ge> sizv then sizv - 1 else n)
        in (r1\<lparr>x_val := splice_at 0 (take n str @ [0]) (x_val r), x_len := n + 1\<rparr>, s, Ok DevOk)) r s"

section \<open>Statistics\<close>

definition devudp_get_vpool ::
  "bool \<Rightarrow> 'f::field ana_rec \<Rightarrow> 'w fast \<Rightarrow> 'f ana_rec \<times> 'w fast \<times> dev_ret outcome" where
  "devudp_get_vpool dpvt r s =
     with_psc dpvt
       (let v = of_nat (length (vpool s)) / of_nat (vpoolTotal s)
        in (r\<lparr>a_val := analogRaw2EGU (a_conv r) v\<rparr>, s, Ok DevNoConvert)) r s"

definition devudp_get_pending ::
  "bool \<Rightarrow> 'f::field ana_rec \<Rightarrow> 'w fast \<Rightarrow> 'f ana_rec \<times> 'w fast \<times> dev_ret outcome" where
  "devudp_get_pending dpvt r s =
     with_psc dpvt
       (let v = of_nat (length (pend s)) / of_nat (vpoolTotal s)
        in (r\<lparr>a_val := analogRaw2EGU (a_conv r) v\<rparr>, s, Ok DevNoConvert)) r s"

definition devudp_get_inprog ::
  "bool \<Rightarrow> 'f::field ana_rec \<Rightarrow> 'w fast \<Rightarrow> 'f ana_rec \<times> 'w fast \<times> dev_ret outcome" where
  "devudp_get_inprog dpvt r s =
     with_psc dpvt
       (let tot = int (vpoolTotal s); inuse = int (length (vpool s) + length (pend s));
            v = of_int (tot - inuse) / of_int tot
        in (r\<lparr>a_val := analogRaw2EGU (a_conv r) v\<rparr>, s, Ok DevNoConvert)) r s"

definition devudp_get_counter ::
  "('w fast \<Rightarrow> u64) \<Rightarrow> bool \<Rightarrow> i64_rec \<Rightarrow> 'w fast \<Rightarrow> i64_rec \<times> 'w fast \<times> dev_ret outcome" where
  "devudp_get_counter cnt dpvt r s = with_psc dpvt (r\<lparr>i_val := cnt s\<rparr>, s, Ok DevOk) r s"

definition devudp_get_lastsize :: "bool \<Rightarrow> i64_rec \<Rightarrow> 'w fast \<Rightarrow> i64_rec \<times> 'w fast \<times> dev_ret outcome" where
  "devudp_get_lastsize dpvt r s = with_psc dpvt (r\<lparr>i_val := drop_bit 20 (lastsize s)\<rparr>, s, Ok DevOk) r s"

section \<open>The short buffer\<close>

fun give_back :: "pkt list \<Rightarrow> byte list list \<Rightarrow> byte list list outcome" where
  "give_back [] vp = Ok vp"
| "give_back (p # ps) vp = (if k_body p = [] then Crash AssertFailed else give_back ps (k_body p # vp))"

definition devudp_clear_shortbuf :: "bool \<Rightarrow> long_rec \<Rightarrow> 'w fast \<Rightarrow> long_rec \<times> 'w fast \<times> dev_ret outcome" where
  "devudp_clear_shortbuf dpvt r s =
     with_psc dpvt
       (case give_back (shortBuf s) (vpool s) of
          Ok vp \<Rightarrow> (r\<lparr>l_val := l_val r + of_nat (length (shortBuf s))\<rparr>, s\<lparr>shortBuf := [], vpool := vp\<rparr>, Ok DevOk)
        | Throw e \<Rightarrow> (r, s, Throw e)
        | Crash c \<Rightarrow> (r, s, Crash c)) r s"

text \<open>The private data of a reader: whether its driver was found is not checked.\<close>

record short_priv =
  sp_psc :: bool
  sp_block :: u32
  sp_offset :: u64

definition short_link :: "string \<Rightarrow> (string \<times> nat \<times> nat) outcome" where
  "short_link link =
     (let (st1, nm) = extract_word (istream_new link);
          (st2, blk) = extract_unsigned 32 st1;
          (st3, ofs) = (if \<not> eofbit st2 then extract_unsigned 64 st2 else (st2, 0))
      in if failbit st3 then Throw (RuntimeError ''Link parsing error'') else Ok (nm, blk, ofs))"

definition devudp_init_record_shortbuf ::
  "(string \<Rightarrow> bool) \<Rightarrow> string \<Rightarrow> 'r dev_rec_scheme \<Rightarrow> 'r dev_rec_scheme \<times> short_priv option \<times> dev_ret outcome" where
  "devudp_init_record_shortbuf found link r =
     CATCH (case short_link link of
              Ok (nm, blk, ofs) \<Rightarrow>
                (r, Some \<lparr>sp_psc = found nm, sp_block = of_nat blk, sp_offset = of_nat ofs\<rparr>, Ok DevOk)
            | Throw e \<Rightarrow> (r, None, Throw e)
            | Crash c \<Rightarrow> (r, None, Crash c))"

record aai_rec = dev_rec +
  aa_ulong :: bool
  aa_nelm :: nat
  aa_arr :: "u32 list"
  aa_nord :: nat

abbreviation (input) STATE_ALARM :: nat where "STATE_ALARM \<equiv> 7"

text \<open>The loop over the packets from number \<open>i\<close> on. Elements of other messages are not written.\<close>

fun short_loop :: "short_priv \<Rightarrow> nat \<Rightarrow> pkt list \<Rightarrow> aai_rec \<Rightarrow> aai_rec \<times> unit outcome" where
  "short_loop q i [] r = (r, Ok ())"
| "short_loop q i (p # ps) r =
     (if ucast (k_msgid p) \<noteq> sp_block q then short_loop q (Suc i) ps r
      else
        let r1 = (if i = 0 \<and> tse_device r then r\<lparr>rec_time := k_rxtime p\<rparr> else r)
        in if unat (sp_offset q + 4) > length (k_body p)
           then short_loop q (Suc i) ps ((recGblSetSevr READ_ALARM INVALID_ALARM r1)\<lparr>aa_arr := (aa_arr r)[i := 0]\<rparr>)
           else if unat (sp_offset q) + 4 > length (k_body p) then (r1, Crash OutOfBounds)
           else short_loop q (Suc i) ps
                  (r1\<lparr>aa_arr := (aa_arr r)[i := unbe32 (take 4 (drop (unat (sp_offset q)) (k_body p)))]\<rparr>))"

definition devudp_read_shortbuf ::
  "short_priv option \<Rightarrow> aai_rec \<Rightarrow> 'w fast \<Rightarrow> aai_rec \<times> 'w fast \<times> dev_ret outcome" where
  "devudp_read_shortbuf dpvt r s =
     (if \<not> aa_ulong r then (recGblSetSevr STATE_ALARM INVALID_ALARM r, s, Ok DevOk)
      else case dpvt of
          None \<Rightarrow> (r, s, Ok DevErr)
        | Some q \<Rightarrow>
            if \<not> sp_psc q then (r, s, Crash NullPointer)
            else
              let r1 = (if \<not> connected s then recGblSetSevr READ_ALARM INVALID_ALARM r else r);
                  s1 = (if shortLimit s < aa_nelm r then s\<lparr>shortLimit := aa_nelm r\<rparr> else s);
                  n = min (aa_nelm r) (length (shortBuf s))
              in (case short_loop q 0 (take n (shortBuf s)) r1 of
                    (r2, Ok _) \<Rightarrow> (r2\<lparr>aa_nord := n\<rparr>, s1, Ok DevOk)
                  | (r2, Throw e) \<Rightarrow> CATCH (r2, s1, Throw e)
                  | (r2, Crash c) \<Rightarrow> (r2, s1, Crash c)))"

end
