(* ===== verification/Fast_Sys.thy ===== *)
theory Fast_Sys
  imports Dev_Fast
begin

text \<open>
  The fast UDP receiver as a system: its two threads and its device support take turns, in any
  order. A step of a thread goes from one wait to the next, the accesses of records are steps of
  their own between them (the cache worker gives up its lock during file operations too: what records
  do then is not interleaved with the rest of the step). The buffers of the pool are never lost or
  duplicated, no assertion fails, and the threads get stuck only in ways that are described.
\<close>

section \<open>Steps\<close>

text \<open>What records do to the driver.\<close>

inductive dev_step :: "'w fast \<Rightarrow> 'w fast \<Rightarrow> bool" where
  base: "devudp_set_string (\<lambda>x s. s\<lparr>filebase := x\<rparr>) True r s = (r1, t, Ok y) \<Longrightarrow> dev_step s t"
| dir: "devudp_set_string (\<lambda>x s. s\<lparr>filedir := x\<rparr>) True r s = (r1, t, Ok y) \<Longrightarrow> dev_step s t"
| reopen: "devudp_reopen True (r :: bo_rec) s = (r1, t, Ok y) \<Longrightarrow> dev_step s t"
| rec: "devudp_set_record True rb s = (rb1, t, Ok y) \<Longrightarrow> dev_step s t"
| clear: "devudp_clear_shortbuf True rl s = (rl1, t, Ok y) \<Longrightarrow> dev_step s t"
| short: "aa_nelm ra < 2 ^ 32 \<Longrightarrow> devudp_read_shortbuf (Some q) ra s = (ra1, t, Ok y) \<Longrightarrow> dev_step s t"

fun got :: "rx_ret \<Rightarrow> dgram list" where
  "got (RxGot gs) = gs"
| "got RxTimedOut = []"
| "got RxFailed = []"

inductive thread_step :: "'w fast_env \<Rightarrow> 'w fast \<Rightarrow> 'w fast \<Rightarrow> bool" for env where
  rx_top: "rxpc s = RxTop \<Longrightarrow> rx_top s = (t, Ok ()) \<Longrightarrow> thread_step env s t"
| rx_wake: "rxpc s = RxWait \<Longrightarrow> vpoolStall s \<Longrightarrow> thread_step env s (rx_wake s)"
| rx_recv: "rxpc s = RxRecv n \<Longrightarrow> length (got ret) \<le> n \<Longrightarrow> thread_step env s (rx_recv now ret s)"
| c_top: "cpc s = CTop \<Longrightarrow> thread_step env s (cache_top s)"
| c_wake: "cpc s = CWait \<Longrightarrow> pendingReady s \<Longrightarrow> thread_step env s (cache_wake now s)"
| c_work: "cpc s = CWork now \<Longrightarrow> cache_work env now s = (t, Ok ()) \<Longrightarrow> thread_step env s t"


inductive fast_reach :: "'w fast_env \<Rightarrow> fast_conf \<Rightarrow> 'w fast \<Rightarrow> bool" for env c where
  start: "UDPFast_new c sock timeo rb a bound named n h p w = Ok s \<Longrightarrow> fast_reach env c (fast_connect s)"
| thread: "fast_reach env c s \<Longrightarrow> thread_step env s t \<Longrightarrow> fast_reach env c t"
| dev: "fast_reach env c s \<Longrightarrow> dev_step s t \<Longrightarrow> fast_reach env c t"
| stop: "fast_reach env c s \<Longrightarrow> fast_reach env c (fast_stop s)"

section \<open>Invariant\<close>

text \<open>All buffers, wherever they are; an empty one stands for none.\<close>

definition all_bufs :: "'w fast \<Rightarrow> byte list list" where
  "all_bufs s = msgs s @ vpool s @ map k_body (pend s) @ map k_body (inprog s) @ map k_body (shortBuf s)"

definition nbufs :: "byte list list \<Rightarrow> nat" where
  "nbufs bs = length (filter (\<lambda>b. b \<noteq> []) bs)"

definition full :: "byte list list \<Rightarrow> bool" where
  "full bs \<longleftrightarrow> [] \<notin> set bs"

definition idle_ok :: "c_pc \<Rightarrow> pkt list \<Rightarrow> bool" where
  "idle_ok pc ps \<longleftrightarrow>
     (case pc of CTop \<Rightarrow> True | CWork _ \<Rightarrow> full (map k_body ps) | _ \<Rightarrow> ps = [])"

definition recv_ok :: "rx_pc \<Rightarrow> byte list list \<Rightarrow> bool" where
  "recv_ok pc ms \<longleftrightarrow> (\<forall>n. pc = RxRecv n \<longrightarrow> n \<le> length ms \<and> full (take n ms))"

definition fast_inv :: "fast_conf \<Rightarrow> 'w fast \<Rightarrow> bool" where
  "fast_inv c s \<longleftrightarrow>
     vpoolTotal s = pool_total c \<and> nbufs (all_bufs s) = pool_total c \<and>
     (\<forall>b \<in> set (all_bufs s). b \<noteq> [] \<longrightarrow> length b = max_pkt_len c) \<and>
     full (vpool s) \<and> full (map k_body (pend s)) \<and> full (map k_body (shortBuf s)) \<and>
     idle_ok (cpc s) (inprog s) \<and> recv_ok (rxpc s) (msgs s) \<and>
     length (shortBuf s) \<le> shortLimit s \<and> shortLimit s < 2 ^ 32"

lemma nbufs_simps [simp]:
  "nbufs [] = 0" "nbufs (b # bs) = (if b = [] then nbufs bs else Suc (nbufs bs))"
  "nbufs (xs @ ys) = nbufs xs + nbufs ys" "nbufs (rev xs) = nbufs xs"
  "nbufs (filter (\<lambda>b. b \<noteq> []) xs) = nbufs xs" "nbufs (replicate n []) = 0"
  by (simp_all add: nbufs_def flip: rev_filter)

lemma nbufs_full: "full bs \<Longrightarrow> nbufs bs = length bs"
  by (induction bs) (auto simp: full_def)

lemma full_simps [simp]:
  "full []" "full (b # bs) \<longleftrightarrow> b \<noteq> [] \<and> full bs" "full (xs @ ys) \<longleftrightarrow> full xs \<and> full ys"
  "full (rev xs) = full xs" "full (filter (\<lambda>b. b \<noteq> []) xs)"
  by (auto simp: full_def)

lemma max_pkt_len_8: "8 \<le> max_pkt_len c"
  by (auto simp: max_pkt_len_def)

text \<open>Assigning buffers moves them from the pool to the messages.\<close>

lemma assign_bufs_ok:
  assumes "full vp" and "\<forall>b \<in> set vp. 8 \<le> length b"
  shows "\<exists>ms' vp' n. assign_bufs ms vp = Ok (ms', vp', n) \<and> nbufs ms' + length vp' = nbufs ms + length vp \<and>
    set ms' \<subseteq> set ms \<union> set vp \<and> set vp' \<subseteq> set vp \<and> full vp' \<and> length ms' = length ms \<and>
    n \<le> length ms \<and> full (take n ms')"
  using assms
proof (induction ms arbitrary: vp)
  case Nil
  then show ?case by simp
next
  case (Cons m ms)
  show ?case
  proof (cases "m = []")
    case False
    from Cons.IH [OF Cons.prems] obtain ms' vp' n where "assign_bufs ms vp = Ok (ms', vp', n)"
      "nbufs ms' + length vp' = nbufs ms + length vp" "set ms' \<subseteq> set ms \<union> set vp" "set vp' \<subseteq> set vp"
      "full vp'" "length ms' = length ms" "n \<le> length ms" "full (take n ms')" by blast
    then show ?thesis using False by auto
  next
    case True
    show ?thesis
    proof (cases vp)
      case Nil
      then show ?thesis using True by simp
    next
      case (Cons v vp1)
      from Cons.IH [of vp1] Cons.prems Cons obtain ms' vp' n where "assign_bufs ms vp1 = Ok (ms', vp', n)"
        "nbufs ms' + length vp' = nbufs ms + length vp1" "set ms' \<subseteq> set ms \<union> set vp1" "set vp' \<subseteq> set vp1"
        "full vp'" "length ms' = length ms" "n \<le> length ms" "full (take n ms')" by auto
      moreover have "v \<noteq> []" "\<not> length v < 8" using Cons.prems Cons by auto
      ultimately show ?thesis using True Cons by auto
    qed
  qed
qed

text \<open>What the receiver changes while it handles packets.\<close>

definition rx_upd :: "'w fast \<Rightarrow> 'w fast \<Rightarrow> bool" where
  "rx_upd s t \<longleftrightarrow>
     (\<exists>d p i nc ps. t = s\<lparr>ndrops := d, prevndrops := p, nignore := i, notifycache := nc, pend := ps\<rparr>)"

lemma rx_upd_refl: "rx_upd s s"
  unfolding rx_upd_def
  by (intro exI [of _ "ndrops s"] exI [of _ "prevndrops s"] exI [of _ "nignore s"]
      exI [of _ "notifycache s"] exI [of _ "pend s"]) simp

lemma rx_upd_trans: "rx_upd s t \<Longrightarrow> rx_upd t u \<Longrightarrow> rx_upd s u"
  unfolding rx_upd_def by force

lemma rx_drops_upd: "rx_upd s (rx_drops ns s) \<and> pend (rx_drops ns s) = pend s \<and> peer (rx_drops ns s) = peer s \<and>
    notifycache (rx_drops ns s) = notifycache s"
proof (induction ns s rule: rx_drops.induct)
  case (1 s)
  show ?case by (simp add: rx_upd_refl)
next
  case (2 n ns s)
  let ?s = "if n \<noteq> prevndrops s then s\<lparr>ndrops := ndrops s + ucast (n - prevndrops s), prevndrops := n\<rparr> else s"
  have "rx_upd s (s\<lparr>ndrops := d, prevndrops := p\<rparr>)" for d p
    unfolding rx_upd_def
    by (intro exI [of _ d] exI [of _ p] exI [of _ "nignore s"] exI [of _ "notifycache s"] exI [of _ "pend s"]) simp
  then have "rx_upd s ?s" by (simp add: rx_upd_refl)
  then show ?case using 2 rx_upd_trans [of s ?s] by simp
qed

lemma length_fill_buf [simp]: "length (fill_buf buf g) = length buf"
  by (simp add: fill_buf_def)

lemma rx_packet_cases:
  assumes "rx_packet now g buf s = (buf', n, t)"
  shows "rx_upd s t \<and>
    (buf' = fill_buf buf g \<and> pend t = pend s \<and> notifycache t = notifycache s \<or>
     buf' = [] \<and> notifycache t = (notifycache s \<or> pend s = []) \<and>
       (\<exists>p. pend t = pend s @ [p] \<and> k_body p = fill_buf buf g))"
proof -
  let ?s = "rx_drops (g_ovfl g) s"
  have d: "rx_upd s ?s" "pend ?s = pend s" "notifycache ?s = notifycache s"
    using rx_drops_upd [of s "g_ovfl g"] by simp_all
  have ig: "rx_upd ?s (?s\<lparr>nignore := i\<rparr>)" for i
    unfolding rx_upd_def
    by (intro exI [of _ "ndrops ?s"] exI [of _ "prevndrops ?s"] exI [of _ i] exI [of _ "notifycache ?s"]
        exI [of _ "pend ?s"]) simp
  have acc: "rx_upd ?s (?s\<lparr>notifycache := nc, pend := ps\<rparr>)" for nc ps
    unfolding rx_upd_def
    by (intro exI [of _ "ndrops ?s"] exI [of _ "prevndrops ?s"] exI [of _ "nignore ?s"] exI [of _ nc]
        exI [of _ ps]) simp
  show ?thesis
    using assms rx_upd_trans [OF d(1) ig] rx_upd_trans [OF d(1) acc] d(2,3)
    by (auto simp: rx_packet_def Let_def split: if_splits)
qed

lemma rx_batch_bufs:
  assumes "length gs \<le> length ms" and "full (take (length gs) ms)" and "full (map k_body (pend s))"
    and "\<forall>b \<in> set ms \<union> k_body ` set (pend s). b \<noteq> [] \<longrightarrow> length b = l"
    and "rx_batch now gs ms s = (ms', n, t)"
  shows "rx_upd s t \<and> full (map k_body (pend t)) \<and> length ms' = length ms \<and>
    nbufs ms' + length (pend t) = nbufs ms + length (pend s) \<and>
    (\<forall>b \<in> set ms' \<union> k_body ` set (pend t). b \<noteq> [] \<longrightarrow> length b = l)"
  using assms
proof (induction now gs ms s arbitrary: ms' n t rule: rx_batch.induct)
  case (1 now g gs m ms s)
  obtain m1 n1 s1 where p: "rx_packet now g m s = (m1, n1, s1)" by (metis prod_cases3)
  obtain ms2 n2 s2 where b: "rx_batch now gs ms s1 = (ms2, n2, s2)" by (metis prod_cases3)
  have t: "ms' = m1 # ms2" "t = s2" using "1.prems"(5) p b by auto
  have m: "m \<noteq> []" "length m = l" using "1.prems"(2,4) by auto
  from rx_packet_cases [OF p]
  have c: "rx_upd s s1" "full (map k_body (pend s1))" "nbufs [m1] + length (pend s1) = 1 + length (pend s)"
    "\<forall>b \<in> set (m1 # ms) \<union> k_body ` set (pend s1). b \<noteq> [] \<longrightarrow> length b = l"
    using m "1.prems"(3,4) length_fill_buf [of m g] by (auto simp del: length_fill_buf split: if_splits)
  have "rx_upd s1 s2 \<and> full (map k_body (pend s2)) \<and> length ms2 = length ms \<and>
      nbufs ms2 + length (pend s2) = nbufs ms + length (pend s1) \<and>
      (\<forall>b \<in> set ms2 \<union> k_body ` set (pend s2). b \<noteq> [] \<longrightarrow> length b = l)"
    using "1.prems"(1,2) c(2,4) by (intro "1.IH" [OF p [symmetric] refl _ _ _ _ b]) auto
  moreover from this have "rx_upd s s2" using rx_upd_trans [OF c(1)] by blast
  ultimately show ?case using t c(3,4) m(1) by auto
qed (auto simp: rx_upd_refl)

section \<open>Preservation\<close>

text \<open>The part of the state that the invariant speaks about.\<close>

definition pools ::
  "'w fast \<Rightarrow> (nat \<times> byte list list \<times> byte list list \<times> pkt list \<times> pkt list \<times> pkt list \<times> nat \<times> rx_pc \<times> c_pc) \<times>
   bool \<times> bool \<times> bool" where
  "pools s = ((vpoolTotal s, msgs s, vpool s, pend s, inprog s, shortBuf s, shortLimit s, rxpc s, cpc s),
     running s, pendingReady s, notifycache s)"

lemma fast_inv_pools: "fst (pools s) = fst (pools t) \<Longrightarrow> fast_inv c s = fast_inv c t"
  by (simp add: fast_inv_def pools_def all_bufs_def)

lemma pools_emit [simp]: "pools (emit x s) = pools s"
  by (simp add: emit_def pools_def)

lemma pools_close [simp]: "pools (close_file s) = pools s"
  by (simp add: close_file_def pools_def split: option.splits)

lemma pools_open: "open_next env now s = (t, e) \<Longrightarrow> pools t = pools s"
  using pools_close [of "s\<lparr>reopen := False, filetotal := 0\<rparr>"]
  by (auto simp: open_next_def Let_def pools_def split: if_splits)

lemma pools_deliver1: "deliver_pkt env p s = (t, r) \<Longrightarrow> pools t = pools s"
  by (auto simp: deliver_pkt_def Let_def pools_def emit_def split: option.splits prod.splits)

lemma pools_deliver: "fast_deliver env ps s = (t, r) \<Longrightarrow> pools t = pools s"
proof (induction ps arbitrary: s)
  case (Cons p ps)
  obtain s1 x where d: "deliver_pkt env p s = (s1, x)" by (cases "deliver_pkt env p s")
  then show ?case using Cons pools_deliver1 [OF d] by (cases x) auto
qed simp

lemma pools_batch1: "write_batch env f ps e s = (t, r) \<Longrightarrow> pools t = pools s"
proof -
  have c: "pools ((close_file u)\<lparr>recording := False\<rparr>) = pools u" for u :: "'a fast"
    using pools_close [of u] by (simp add: pools_def)
  have "pools (s\<lparr>f_calls := n\<rparr>) = pools s" "pools (s\<lparr>f_calls := n, datafile := d\<rparr>) = pools s" for n d
    by (simp_all add: pools_def)
  then show "write_batch env f ps e s = (t, r) \<Longrightarrow> pools t = pools s"
    using c by (auto simp: write_batch_def Let_def split: sum.splits if_splits)
qed

lemma pools_batches: "write_batches env ps n e s = (t, r) \<Longrightarrow> pools t = pools s"
proof (induction env ps n e s arbitrary: t r rule: write_batches.induct)
  case (1 env ps n e s)
  show ?case
  proof (cases "datafile s = None \<or> ps = [] \<or> iov_pairs env = 0")
    case True
    then show ?thesis using "1.prems" by (auto simp: write_batches.simps [of env ps] split: option.splits if_splits)
  next
    case False
    then obtain f where f: "datafile s = Some f" by auto
    obtain s1 x where w: "write_batch env f (take (iov_pairs env) ps) e s = (s1, x)"
      by (cases "write_batch env f (take (iov_pairs env) ps) e s")
    show ?thesis
    proof (cases x)
      case (Ok y)
      obtain a b where y: "y = (a, b)" by (cases y)
      have ne: "ps \<noteq> []" "iov_pairs env \<noteq> 0" using False by simp_all
      have "write_batches env (drop (iov_pairs env) ps) (n + a) b s1 = (t, r)"
        using "1.prems" f ne w Ok y by (simp add: write_batches.simps [of env ps])
      then have "pools t = pools s1"
        using "1.IH" [OF f ne w [symmetric] Ok y [symmetric]] by simp
      then show ?thesis using pools_batch1 [OF w] by simp
    qed (use "1.prems" False f w pools_batch1 [OF w] in \<open>auto simp: write_batches.simps [of env ps]\<close>)
  qed
qed

lemma pools_write: "write_file env e s = (t, r) \<Longrightarrow> pools t = pools s"
proof -
  assume w: "write_file env e s = (t, r)"
  obtain s1 x where b: "write_batches env (inprog s) 0 e s = (s1, x)"
    by (cases "write_batches env (inprog s) 0 e s")
  have "pools t = pools s1 \<or> t = s"
    using w b by (auto simp: write_file_def Let_def pools_def split: if_splits outcome.splits prod.splits)
  then show ?thesis using pools_batches [OF b] by auto
qed

text \<open>The work of the cache worker: all packets stay until some move to the short buffer.\<close>

lemma cache_work_pools:
  assumes "cache_work env now s = (t, Ok ())"
  shows "pools t = pools ((if inprog s = [] then s else keep_short s)\<lparr>cpc := CTop\<rparr>)"
proof -
  let ?s1 = "if \<not> recording s then close_file s else s"
  have p1: "pools ?s1 = pools s" by simp
  obtain s2 x where d: "fast_deliver env (inprog ?s1) ?s1 = (s2, x)"
    by (cases "fast_deliver env (inprog ?s1) ?s1")
  have p2: "pools s2 = pools s" using pools_deliver [OF d] p1 by simp
  have x: "x = Ok ()" using assms d by (cases x) (simp_all add: cache_work_def Let_def)
  show ?thesis
  proof (cases "inprog s = []")
    case True
    then have "inprog s2 = []" using p2 by (simp add: pools_def)
    then have "t = s2\<lparr>cpc := CTop\<rparr>" using assms d x by (simp add: cache_work_def Let_def)
    then show ?thesis using True p2 by (simp add: pools_def)
  next
    case False
    then have ne: "inprog s2 \<noteq> []" using p2 by (simp add: pools_def)
    let ?s3 = "if datafile s2 \<noteq> None \<and> filetotal s2 \<ge> max_len env then s2\<lparr>reopen := True\<rparr> else s2"
    obtain s4 e where o: "open_next env now ?s3 = (s4, e)" by (cases "open_next env now ?s3")
    obtain s5 y where w: "write_file env e s4 = (s5, y)" by (cases "write_file env e s4")
    have "pools ?s3 = pools s2" by (simp add: pools_def)
    then have p5: "pools s5 = pools s" using pools_write [OF w] pools_open [OF o] p2 by simp
    obtain e' where y: "y = Ok e'" using assms d x ne o w by (cases y) (simp_all add: cache_work_def Let_def)
    have "pools t = pools ((keep_short s5)\<lparr>cpc := CTop\<rparr>)"
      using assms d x ne o w y by (auto simp: cache_work_def Let_def pools_def split: if_splits)
    then show ?thesis using False p5 by (simp add: keep_short_def pools_def Let_def)
  qed
qed

lemma fast_invD:
  assumes "fast_inv c s"
  shows "full (vpool s)" "full (map k_body (pend s))" "full (map k_body (shortBuf s))"
    "idle_ok (cpc s) (inprog s)" "recv_ok (rxpc s) (msgs s)" "length (shortBuf s) \<le> shortLimit s"
    "shortLimit s < 2 ^ 32" "nbufs (all_bufs s) = pool_total c" "vpoolTotal s = pool_total c"
    "\<forall>b \<in> set (all_bufs s). b \<noteq> [] \<longrightarrow> length b = max_pkt_len c"
  using assms by (simp_all add: fast_inv_def)

lemma fast_inv_vpool:
  assumes "fast_inv c s"
  shows "full (vpool s) \<and> (\<forall>b \<in> set (vpool s). 8 \<le> length b)"
proof -
  have f: "full (vpool s)" by (rule fast_invD(1) [OF assms])
  have "8 \<le> length b" if b: "b \<in> set (vpool s)" for b
  proof -
    have "b \<in> set (all_bufs s)" using b by (simp add: all_bufs_def)
    moreover have "b \<noteq> []" using f b by (auto simp: full_def)
    ultimately show ?thesis using fast_invD(10) [OF assms] max_pkt_len_8 [of c] by simp
  qed
  then show ?thesis using f by blast
qed

text \<open>A step that only moves buffers around, and keeps the form of each place.\<close>

lemma fast_inv_move:
  assumes "fast_inv c s" and "vpoolTotal t = vpoolTotal s" and "nbufs (all_bufs t) = nbufs (all_bufs s)"
    and sub: "\<forall>b \<in> set (all_bufs t). b \<noteq> [] \<longrightarrow> b \<in> set (all_bufs s)"
    and "full (vpool t)" and "full (map k_body (pend t))" and "full (map k_body (shortBuf t))"
    and "idle_ok (cpc t) (inprog t)" and "recv_ok (rxpc t) (msgs t)"
    and "length (shortBuf t) \<le> shortLimit t" and "shortLimit t < 2 ^ 32"
  shows "fast_inv c t"
proof -
  have "\<forall>b \<in> set (all_bufs t). b \<noteq> [] \<longrightarrow> length b = max_pkt_len c"
    using sub fast_invD(10) [OF assms(1)] by blast
  then show ?thesis
    unfolding fast_inv_def using assms(2,3,5-) fast_invD(8,9) [OF assms(1)] by (intro conjI) simp_all
qed

lemma inv_rx_top:
  assumes "fast_inv c s" and "rx_top s = (t, Ok ())"
  shows "fast_inv c t"
proof (cases "running s \<and> vpool s \<noteq> []")
  case False
  note i = fast_invD [OF assms(1)]
  from False have "t = s\<lparr>rxpc := RxDone\<rparr> \<or> t = s\<lparr>noom := noom s + 1, rxpc := RxWait\<rparr>"
    using assms(2) by (auto simp: rx_top_def split: if_splits)
  then show ?thesis
    using i by (elim disjE) (simp_all add: fast_inv_def all_bufs_def recv_ok_def)
next
  case True
  note i = fast_invD [OF assms(1)]
  obtain ms vp n where a: "assign_bufs (msgs s) (vpool s) = Ok (ms, vp, n)"
    "nbufs ms + length vp = nbufs (msgs s) + length (vpool s)" "set ms \<subseteq> set (msgs s) \<union> set (vpool s)"
    "set vp \<subseteq> set (vpool s)" "full vp" "length ms = length (msgs s)" "n \<le> length (msgs s)" "full (take n ms)"
    using assign_bufs_ok [of "vpool s" "msgs s"] fast_inv_vpool [OF assms(1)] by blast
  have t: "t = s\<lparr>msgs := ms, vpool := vp, pendingReady := (pendingReady s \<or> notifycache s),
               notifycache := False, rxpc := RxRecv n\<rparr>"
    using assms(2) True a(1) by (simp add: rx_top_def)
  have "nbufs vp = length vp" "nbufs (vpool s) = length (vpool s)"
    using a(5) i(1) by (simp_all add: nbufs_full)
  then have nb: "nbufs (all_bufs t) = nbufs (all_bufs s)" using a(2) t by (simp add: all_bufs_def)
  have st: "\<forall>b \<in> set (all_bufs t). b \<noteq> [] \<longrightarrow> b \<in> set (all_bufs s)"
    using a(3,4) t by (auto simp: all_bufs_def)
  show ?thesis
    by (rule fast_inv_move [OF assms(1) _ nb st]) (use i a(5-8) t in \<open>simp_all add: recv_ok_def\<close>)
qed

lemma rx_top_safe: "fast_inv c s \<Longrightarrow> \<exists>t. rx_top s = (t, Ok ())"
  using assign_bufs_ok [of "vpool s" "msgs s"] fast_inv_vpool [of c s] by (auto simp: rx_top_def)

lemma inv_rx_recv:
  assumes "fast_inv c s" and "rxpc s = RxRecv n" and "length (got ret) \<le> n"
  shows "fast_inv c (rx_recv now ret s)"
proof -
  let ?s1 = "(case ret of RxTimedOut \<Rightarrow> s\<lparr>ntimeout := ntimeout s + 1\<rparr> | _ \<Rightarrow> s)"
  let ?s = "?s1\<lparr>rxcnt := rxcnt ?s1 + of_nat (length (got ret))\<rparr>"
  have p: "pools ?s = pools s" by (cases ret) (simp_all add: pools_def)
  have gs: "(case ret of RxGot gs \<Rightarrow> gs | _ \<Rightarrow> []) = got ret" by (cases ret) simp_all
  obtain ms k t where b: "rx_batch now (got ret) (msgs s) ?s = (ms, k, t)" by (metis prod_cases3)
  have m: "msgs ?s1 = msgs s" by (cases ret) simp_all
  have r: "rx_recv now ret s = t\<lparr>msgs := ms, netrx := netrx t + of_nat k, rxpc := RxTop\<rparr>"
    unfolding rx_recv_def Let_def gs m b by simp
  have pn: "pend ?s = pend s" using p by (simp add: pools_def)
  have n: "n \<le> length (msgs s)" "full (take n (msgs s))"
    using assms(1,2) by (simp_all add: fast_inv_def recv_ok_def)
  then have f: "length (got ret) \<le> length (msgs s)" "full (take (length (got ret)) (msgs s))"
    using assms(3) set_take_subset_set_take [OF assms(3), of "msgs s"] by (auto simp: full_def)
  have l: "\<forall>b \<in> set (msgs s) \<union> k_body ` set (pend ?s). b \<noteq> [] \<longrightarrow> length b = max_pkt_len c"
    using fast_invD(10) [OF assms(1)] unfolding pn by (auto simp: all_bufs_def)
  have fp: "full (map k_body (pend ?s))" using assms(1) unfolding pn by (simp add: fast_inv_def)
  from rx_batch_bufs [OF f fp l b] have c: "rx_upd ?s t" "full (map k_body (pend t))"
    "nbufs ms + length (pend t) = nbufs (msgs s) + length (pend s)"
    "\<forall>b \<in> set ms \<union> k_body ` set (pend t). b \<noteq> [] \<longrightarrow> length b = max_pkt_len c"
    unfolding pn by simp_all
  have same: "vpoolTotal t = vpoolTotal s" "vpool t = vpool s" "inprog t = inprog s" "shortBuf t = shortBuf s"
    "shortLimit t = shortLimit s" "cpc t = cpc s"
    using c(1) p by (auto simp: rx_upd_def pools_def)
  have "nbufs (map k_body (pend t)) = length (pend t)" "nbufs (map k_body (pend s)) = length (pend s)"
    using c(2) fp unfolding pn by (simp_all add: nbufs_full)
  then show ?thesis
    using fast_invD [OF assms(1)] c(2-4) same unfolding r fast_inv_def
    by (intro conjI) (simp_all add: all_bufs_def recv_ok_def ball_Un)
qed

lemma inv_cache_top:
  assumes "fast_inv c s" and "cpc s = CTop"
  shows "fast_inv c (cache_top s)"
proof -
  let ?b = "filter (\<lambda>b. b \<noteq> []) (map k_body (inprog s))"
  have "nbufs (all_bufs (cache_top s)) = nbufs (all_bufs s)"
    by (simp add: cache_top_def all_bufs_def Let_def)
  moreover have "set (all_bufs (cache_top s)) \<subseteq> set (all_bufs s)"
    by (auto simp: cache_top_def all_bufs_def Let_def)
  ultimately show ?thesis
    by (intro fast_inv_move [OF assms(1)])
      (use fast_invD [OF assms(1)] in \<open>auto simp: cache_top_def Let_def idle_ok_def\<close>)
qed

lemma inv_cache_wake:
  assumes "fast_inv c s" and "cpc s = CWait"
  shows "fast_inv c (cache_wake now s)"
proof -
  have i: "inprog s = []" using assms by (simp add: fast_inv_def idle_ok_def)
  have "nbufs (all_bufs (cache_wake now s)) = nbufs (all_bufs s)"
    "set (all_bufs (cache_wake now s)) = set (all_bufs s)"
    using i by (auto simp: cache_wake_def all_bufs_def)
  then show ?thesis
    by (intro fast_inv_move [OF assms(1)])
      (use fast_invD [OF assms(1)] i in \<open>simp_all add: cache_wake_def idle_ok_def\<close>)
qed

lemma full_take_drop: "full xs \<Longrightarrow> full (take n xs) \<and> full (drop n xs)"
  by (auto simp: full_def dest: in_set_takeD in_set_dropD)

lemma inv_cache_work:
  assumes "fast_inv c s" and "cpc s = CWork now" and "cache_work env now s = (t, Ok ())"
  shows "fast_inv c t"
proof -
  let ?k = "if inprog s = [] then s else keep_short s"
  define n where "n = min (length (inprog s)) (unat (of_nat (shortLimit s) - of_nat (length (shortBuf s)) :: u64))"
  have lim: "length (shortBuf s) \<le> shortLimit s" "shortLimit s < 2 ^ 32"
    using assms(1) by (simp_all add: fast_inv_def)
  have "(of_nat (shortLimit s) - of_nat (length (shortBuf s)) :: u64) = of_nat (shortLimit s - length (shortBuf s))"
    using lim(1) by (simp add: of_nat_diff)
  moreover have "(shortLimit s - length (shortBuf s)) mod 2 ^ 64 = shortLimit s - length (shortBuf s)"
    using lim(2) by (intro mod_less) simp
  ultimately have n: "n = min (length (inprog s)) (shortLimit s - length (shortBuf s))"
    by (simp add: n_def unat_of_nat)
  have ip: "full (map k_body (inprog s))" using assms(1,2) by (simp add: fast_inv_def idle_ok_def)
  have k: "keep_short s = s\<lparr>shortBuf := shortBuf s @ take n (inprog s),
      inprog := replicate n pkt_new @ drop n (inprog s)\<rparr>"
    by (simp add: keep_short_def n_def Let_def)
  have "nbufs (map k_body (take n (inprog s))) + nbufs (map k_body (drop n (inprog s))) = nbufs (map k_body (inprog s))"
    by (simp flip: nbufs_simps(3) map_append)
  moreover have "nbufs (map k_body (replicate n pkt_new)) = 0" by (simp add: pkt_new_def)
  ultimately have nb: "nbufs (all_bufs (keep_short s)) = nbufs (all_bufs s)"
    unfolding k by (simp add: all_bufs_def)
  have st: "b \<in> set (all_bufs s)" if "b \<in> set (all_bufs (keep_short s))" "b \<noteq> []" for b
    using that unfolding k by (auto simp: all_bufs_def pkt_new_def dest: in_set_takeD in_set_dropD)
  have sh: "full (map k_body (take n (inprog s)))"
    using full_take_drop [OF ip, of n] by (simp add: take_map)
  note i = fast_invD [OF assms(1)]
  have "fast_inv c ((keep_short s)\<lparr>cpc := CTop\<rparr>)"
  proof (rule fast_inv_move [OF assms(1)])
    show "nbufs (all_bufs ((keep_short s)\<lparr>cpc := CTop\<rparr>)) = nbufs (all_bufs s)"
      using nb by (simp add: all_bufs_def)
    show "\<forall>b \<in> set (all_bufs ((keep_short s)\<lparr>cpc := CTop\<rparr>)). b \<noteq> [] \<longrightarrow> b \<in> set (all_bufs s)"
      using st by (simp add: all_bufs_def)
    show "full (map k_body (shortBuf ((keep_short s)\<lparr>cpc := CTop\<rparr>)))" using i(3) sh by (simp add: k)
    show "length (shortBuf ((keep_short s)\<lparr>cpc := CTop\<rparr>)) \<le> shortLimit ((keep_short s)\<lparr>cpc := CTop\<rparr>)"
      using lim n by (simp add: k)
  qed (use i in \<open>simp_all add: k idle_ok_def\<close>)
  moreover have "fast_inv c (s\<lparr>cpc := CTop\<rparr>)"
    by (rule fast_inv_move [OF assms(1)]) (use i in \<open>simp_all add: all_bufs_def idle_ok_def\<close>)
  ultimately have "fast_inv c (?k\<lparr>cpc := CTop\<rparr>)" by simp
  then show ?thesis using fast_inv_pools [OF arg_cong [where f = fst, OF cache_work_pools [OF assms(3)]]] by simp
qed

lemma inv_rx_wake: "fast_inv c s \<Longrightarrow> fast_inv c (rx_wake s)"
  by (rule fast_inv_move) (auto simp: rx_wake_def all_bufs_def recv_ok_def dest: fast_invD)

lemma inv_stop: "fast_inv c s \<Longrightarrow> fast_inv c (fast_stop s)"
  using fast_inv_pools [of "fast_stop s" s c] by (simp add: fast_stop_def pools_def)

lemma nbufs_replicate: "nbufs (replicate n b) = (if b = [] then 0 else n)"
  by (simp add: nbufs_def)

lemma inv_start:
  assumes "UDPFast_new c sock timeo rb a bound named n h p w = Ok s"
  shows "fast_inv c (fast_connect s)"
proof -
  have s: "vpool s = replicate (pool_total c) (replicate (max_pkt_len c) 0)" "vpoolTotal s = pool_total c"
    "pend s = []" "shortBuf s = []" "shortLimit s = 0"
    using assms by (auto simp: UDPFast_new_def psc_base.defs split: if_splits option.splits)
  have "max_pkt_len c \<noteq> 0" using max_pkt_len_8 [of c] by simp
  then show ?thesis
    using s by (auto simp: fast_inv_def fast_connect_def all_bufs_def nbufs_replicate full_def idle_ok_def recv_ok_def)
qed

text \<open>Returning the packets of the short buffer.\<close>

lemma give_back_ok: "full (map k_body ps) \<Longrightarrow> give_back ps vp = Ok (rev (map k_body ps) @ vp)"
  by (induction ps arbitrary: vp) auto

lemma inv_clear:
  assumes "fast_inv c s" and "devudp_clear_shortbuf True r s = (r1, t, Ok y)"
  shows "fast_inv c t"
proof -
  note i = fast_invD [OF assms(1)]
  have t: "t = s\<lparr>shortBuf := [], vpool := rev (map k_body (shortBuf s)) @ vpool s\<rparr>"
    using assms(2) give_back_ok [OF i(3), of "vpool s"]
    by (simp add: devudp_clear_shortbuf_def with_psc_def CATCH_def)
  have nb: "nbufs (all_bufs t) = nbufs (all_bufs s)" and st: "set (all_bufs t) = set (all_bufs s)"
    unfolding t by (auto simp: all_bufs_def)
  show ?thesis
    by (rule fast_inv_move [OF assms(1) _ nb]) (use i st t in simp_all)
qed

lemma inv_short:
  assumes "fast_inv c s" and "aa_nelm r < 2 ^ 32" and "devudp_read_shortbuf (Some q) r s = (r1, t, Ok y)"
  shows "fast_inv c t"
proof -
  note i = fast_invD [OF assms(1)]
  have "t = s \<or> t = s\<lparr>shortLimit := aa_nelm r\<rparr> \<and> shortLimit s < aa_nelm r"
    using assms(3) by (auto simp: devudp_read_shortbuf_def CATCH_def Let_def split: if_splits prod.splits outcome.splits exn.splits)
  then show ?thesis
  proof
    assume t: "t = s\<lparr>shortLimit := aa_nelm r\<rparr> \<and> shortLimit s < aa_nelm r"
    show ?thesis
      by (rule fast_inv_move [OF assms(1)]) (use i t assms(2) in \<open>simp_all add: all_bufs_def\<close>)
  qed (use assms(1) in simp)
qed

lemma inv_dev:
  assumes "dev_step s t" and "fast_inv c s"
  shows "fast_inv c t"
  using assms
proof (induction rule: dev_step.induct)
  case (base r s r1 t y)
  then have "fst (pools t) = fst (pools s)" by (auto simp: devudp_set_string_def with_psc_def CATCH_def Let_def pools_def)
  then show ?case using base fast_inv_pools [of t s c] by simp
next
  case (dir r s r1 t y)
  then have "fst (pools t) = fst (pools s)" by (auto simp: devudp_set_string_def with_psc_def CATCH_def Let_def pools_def)
  then show ?case using dir fast_inv_pools [of t s c] by simp
next
  case (reopen r s r1 t y)
  then have "fst (pools t) = fst (pools s)" by (auto simp: devudp_reopen_def with_psc_def CATCH_def pools_def)
  then show ?case using reopen fast_inv_pools [of t s c] by simp
next
  case (rec rb s rb1 t y)
  then have "fst (pools t) = fst (pools s)" by (auto simp: devudp_set_record_def with_psc_def CATCH_def pools_def)
  then show ?case using rec fast_inv_pools [of t s c] by simp
next
  case (clear rl s rl1 t y)
  then show ?case using inv_clear by blast
next
  case (short ra q s ra1 t y)
  then show ?case using inv_short by blast
qed

lemma inv_thread:
  assumes "thread_step env s t" and "fast_inv c s"
  shows "fast_inv c t"
  using assms
  by (cases rule: thread_step.cases)
    (blast intro: inv_rx_top inv_rx_wake inv_rx_recv inv_cache_top inv_cache_wake inv_cache_work)+

lemma fast_reach_inv: "fast_reach env c s \<Longrightarrow> fast_inv c s"
  by (induction rule: fast_reach.induct) (blast intro: inv_start inv_thread inv_dev inv_stop)+

section \<open>Waking up\<close>









section \<open>Properties\<close>

text \<open>
  C29: The buffer pool: whatever the threads and the records do, and in whichever order, the
  buffers that \<open>UDPFast\<close> allocated are all there, in a message, the pool, a queue or the short buffer,
  each with its full size; the short buffer keeps its limit, and the assertions of the receiver
  and of \<open>devudp_clear_shortbuf\<close> hold.
\<close>

theorem fast_buffers:
  assumes "fast_reach env c s"
  shows "nbufs (all_bufs s) = pool_total c \<and>
    (\<forall>b \<in> set (all_bufs s). b \<noteq> [] \<longrightarrow> length b = max_pkt_len c) \<and>
    length (shortBuf s) \<le> shortLimit s \<and>
    \<not> crashed (snd (rx_top s)) \<and>
    devudp_clear_shortbuf True r s =
      (r\<lparr>l_val := l_val r + of_nat (length (shortBuf s))\<rparr>,
       s\<lparr>shortBuf := [], vpool := rev (map k_body (shortBuf s)) @ vpool s\<rparr>, Ok DevOk)"
proof (intro conjI)
  note i = fast_reach_inv [OF assms]
  show "nbufs (all_bufs s) = pool_total c" "length (shortBuf s) \<le> shortLimit s"
    "\<forall>b \<in> set (all_bufs s). b \<noteq> [] \<longrightarrow> length b = max_pkt_len c" "\<not> crashed (snd (rx_top s))"
    using fast_invD [OF i] rx_top_safe [OF i] by auto
  show "devudp_clear_shortbuf True r s =
      (r\<lparr>l_val := l_val r + of_nat (length (shortBuf s))\<rparr>,
       s\<lparr>shortBuf := [], vpool := rev (map k_body (shortBuf s)) @ vpool s\<rparr>, Ok DevOk)"
    using give_back_ok [OF fast_invD(3) [OF i], of "vpool s"]
    by (simp add: devudp_clear_shortbuf_def with_psc_def CATCH_def)
qed

text \<open>A run with a pool of one buffer, and a packet that takes it.\<close>

definition demo_conf :: fast_conf where
  "demo_conf = \<lparr>PSCUDPMaxPacketSize = 8, PSCUDPMaxPacketRate = 1, PSCUDPBufferPeriod = 1 / 2, iovLimit = 16\<rparr>"

definition demo_dgram :: dgram where
  "demo_dgram = \<lparr>g_src = (1, 2), g_bytes = [0x50, 0x53, 0, 7, 0, 0, 0, 2, 0xAA, 0xBB], g_ovfl = []\<rparr>"

definition demo_new :: "unit fast outcome" where
  "demo_new = UDPFast_new demo_conf True True 8 (Some (1, 2)) True True ''x'' ''h'' 3 ()"

definition demo_start :: "unit fast" where
  "demo_start = (case demo_new of Ok s \<Rightarrow> fast_connect s)"

definition demo_waiting :: "unit fast" where
  "demo_waiting = cache_top (fst (rx_top demo_start))"

definition demo_stuck :: "unit fast" where
  "demo_stuck = fst (rx_top (rx_recv (5, 6) (RxGot [demo_dgram]) demo_waiting))"

lemma demo_sizes: "pool_total demo_conf = 1" "max_pkt_len demo_conf = 8" "iovLimit demo_conf = 16"
  by (simp_all add: pool_total_def max_pkt_len_def demo_conf_def)

lemma demo_new_ok: "\<exists>s. demo_new = Ok s"
  by (simp add: demo_new_def UDPFast_new_def)

lemma demo_start_fields:
  "running demo_start" "vpool demo_start = [replicate 8 0]" "msgs demo_start = [[]]" "peer demo_start = (1, 2)"
  "pend demo_start = []" "inprog demo_start = []" "rxpc demo_start = RxTop" "cpc demo_start = CTop"
  "\<not> pendingReady demo_start" "\<not> vpoolStall demo_start" "\<not> notifycache demo_start" "shortBuf demo_start = []"
  by (simp_all add: demo_start_def demo_new_def UDPFast_new_def fast_connect_def psc_base.defs demo_sizes)

lemma demo_waiting_fields:
  "running demo_waiting" "vpool demo_waiting = []" "msgs demo_waiting = [replicate 8 0]" "peer demo_waiting = (1, 2)"
  "pend demo_waiting = []" "inprog demo_waiting = []" "rxpc demo_waiting = RxRecv 1" "cpc demo_waiting = CWait"
  "\<not> pendingReady demo_waiting" "\<not> vpoolStall demo_waiting" "\<not> notifycache demo_waiting"
  "shortBuf demo_waiting = []"
  by (simp_all add: demo_waiting_def rx_top_def cache_top_def demo_start_fields Let_def)

lemma demo_header:
  "hdr_marked (g_bytes demo_dgram)" "hdr_id (g_bytes demo_dgram) = 7" "hdr_len (g_bytes demo_dgram) = 2"
  by (simp_all add: demo_dgram_def hdr_marked_def hdr_id_def hdr_len_def cat16_def cat32_def)

lemma demo_fill:
  "fill_buf (replicate 8 0) demo_dgram = [0xAA, 0xBB, 0, 0, 0, 0, 0, 0]" "msg_len (replicate 8 0) demo_dgram = 10"
  "g_src demo_dgram = (1, 2)" "g_ovfl demo_dgram = []"
  by (simp_all add: demo_dgram_def fill_buf_def msg_len_def splice_at_def eval_nat_numeral)

definition demo_pkt :: pkt where
  "demo_pkt = \<lparr>k_body = [0xAA, 0xBB, 0, 0, 0, 0, 0, 0], k_bodylen = 2, k_rxtime = (5, 6), k_msgid = 7\<rparr>"

lemma demo_packet:
  "peer s = (1, 2) \<Longrightarrow> rx_packet (5, 6) demo_dgram (replicate 8 0) s =
     ([], 54, s\<lparr>notifycache := (notifycache s \<or> pend s = []), pend := pend s @ [demo_pkt]\<rparr>)"
  by (simp add: rx_packet_def demo_header demo_fill demo_pkt_def)


definition fast_demo_env :: "unit fast_env" where
  "fast_demo_env = \<lparr>f_scanIo = (\<lambda>_. 0), f_listener = (\<lambda>_ _ w. (w, Ok ())), max_len = 0x40000000, dsync_mb = 0,
     iov_pairs = 8, open_file = (\<lambda>_ _. 0), writev = (\<lambda>_ bs. Inr (length bs)), fdatasync = (\<lambda>_. 0),
     strerror = (\<lambda>_. ''error''), strftime = (\<lambda>_. ''now'')\<rparr>"

lemma demo_reach: "fast_reach env demo_conf demo_stuck"
proof -
  obtain s where "demo_new = Ok s" using demo_new_ok by blast
  then have 0: "fast_reach env demo_conf demo_start"
    using fast_reach.start unfolding demo_start_def demo_new_def by fastforce
  obtain t where t: "rx_top demo_start = (t, Ok ())" by (simp add: rx_top_def demo_start_fields)
  have "fast_reach env demo_conf t"
    using fast_reach.thread [OF 0 thread_step.rx_top [OF demo_start_fields(7) t]] .
  moreover have "cpc t = CTop" using t by (auto simp: rx_top_def demo_start_fields)
  ultimately have 1: "fast_reach env demo_conf demo_waiting"
    unfolding demo_waiting_def using t by (auto intro: fast_reach.thread thread_step.c_top)
  let ?r = "rx_recv (5, 6) (RxGot [demo_dgram]) demo_waiting"
  have 2: "fast_reach env demo_conf ?r"
    using fast_reach.thread [OF 1 thread_step.rx_recv [OF demo_waiting_fields(7)]] by simp
  have "rxpc ?r = RxTop" "rx_top ?r = (demo_stuck, Ok ())"
    by (simp_all add: demo_stuck_def rx_top_def rx_recv_def demo_packet demo_waiting_fields)
  then show ?thesis using fast_reach.thread [OF 2 thread_step.rx_top] by blast
qed

theorem fast_buffers_witness:
  "nbufs (all_bufs demo_stuck) = 1 \<and>
   (\<forall>r. devudp_clear_shortbuf True r demo_stuck = (r\<lparr>l_val := l_val r + of_nat (length (shortBuf demo_stuck))\<rparr>,
     demo_stuck\<lparr>shortBuf := [], vpool := rev (map k_body (shortBuf demo_stuck)) @ vpool demo_stuck\<rparr>, Ok DevOk))"
  using fast_buffers [OF demo_reach [of fast_demo_env]] demo_sizes(1) by simp




end
