(* ===== verification/Fast_Data.thy ===== *)
theory Fast_Data
  imports Fast_Sys
begin

text \<open>
  The data path of the fast UDP receiver: which datagrams it takes, what reaches the blocks, the
  data file and the arrays that are read from the short buffer.
\<close>

section \<open>From the datagram to the packet\<close>

text \<open>What the receiver takes: not longer than announced, as far as it fits the buffer.\<close>

definition fast_accepts :: "addr \<Rightarrow> nat \<Rightarrow> dgram \<Rightarrow> bool" where
  "fast_accepts a l g \<longleftrightarrow>
     g_src g = a \<and> 8 \<le> length (g_bytes g) \<and> hdr_marked (g_bytes g) \<and>
     min (length (g_bytes g) - 8) l \<le> unat (hdr_len (g_bytes g))"

lemma fill_buf_eq:
  "fill_buf buf g = take (length buf) (drop 8 (g_bytes g)) @ drop (length (g_bytes g) - 8) buf"
  by (cases "length buf \<le> length (g_bytes g) - 8") (simp_all add: fill_buf_def splice_at_def min_def)

lemma rx_drops_ignore: "nignore (rx_drops ns s) = nignore s"
  by (induction ns arbitrary: s) simp_all

lemma rx_packet_eq:
  "rx_packet now g buf s =
     (if fast_accepts (peer s) (length buf) g
      then ([], msg_len buf g + 44, (rx_drops (g_ovfl g) s)
        \<lparr>notifycache := (notifycache s \<or> pend s = []),
         pend := pend s @ [\<lparr>k_body = fill_buf buf g, k_bodylen = unat (hdr_len (g_bytes g)), k_rxtime = now,
                           k_msgid = hdr_id (g_bytes g)\<rparr>]\<rparr>)
      else (fill_buf buf g, 0, (rx_drops (g_ovfl g) s)\<lparr>nignore := nignore s + 1\<rparr>))"
proof -
  have "msg_len buf g - 8 = min (length (g_bytes g) - 8) (length buf)" "msg_len buf g < 8 \<longleftrightarrow> length (g_bytes g) < 8"
    by (auto simp: msg_len_def)
  moreover have "peer (rx_drops (g_ovfl g) s) = peer s" "pend (rx_drops (g_ovfl g) s) = pend s"
    "notifycache (rx_drops (g_ovfl g) s) = notifycache s"
    using rx_drops_upd [of s "g_ovfl g"] by simp_all
  ultimately show ?thesis
    by (auto simp: rx_packet_def Let_def fast_accepts_def rx_drops_ignore min_le_iff_disj)
qed

text \<open>
  C32: Receiving a datagram. It becomes a packet exactly if it comes from the peer, has a
  complete and marked header, and announces at least as many bytes as have arrived in the
  buffer: so one that is longer than it says is dropped and one that is cut short is kept. A
  packet has the number and the length of the header, and the buffer with the bytes of the body at
  its front and what it held before behind them. Any other datagram only counts as ignored.
\<close>

theorem fast_rx_accept:
  "case rx_packet now g buf s of (buf', n, t) \<Rightarrow>
     if fast_accepts (peer s) (length buf) g
     then buf' = [] \<and> n = msg_len buf g + 44 \<and> nignore t = nignore s \<and>
       pend t = pend s @
         [\<lparr>k_body = take (length buf) (drop 8 (g_bytes g)) @ drop (length (g_bytes g) - 8) buf,
           k_bodylen = unat (hdr_len (g_bytes g)), k_rxtime = now, k_msgid = hdr_id (g_bytes g)\<rparr>]
     else length buf' = length buf \<and> n = 0 \<and> nignore t = nignore s + 1 \<and> pend t = pend s"
  using rx_drops_upd [of s "g_ovfl g"] by (auto simp: rx_packet_eq rx_drops_ignore fill_buf_eq min_def)

text \<open>A message as a PSC sends it, whose body fits the buffer.\<close>

lemma rx_frame:
  assumes "length bs \<le> length buf" and "length bs < 2 ^ 32"
  shows "snd (snd (rx_packet now \<lparr>g_src = peer s, g_bytes = frame k bs, g_ovfl = []\<rparr> buf s)) =
    s\<lparr>notifycache := (notifycache s \<or> pend s = []),
      pend := pend s @ [\<lparr>k_body = bs @ drop (length bs) buf, k_bodylen = length bs, k_rxtime = now, k_msgid = k\<rparr>]\<rparr>"
proof -
  have "unat (of_nat (length bs) :: u32) = length bs" using assms(2) by (simp add: unat_of_nat)
  then show ?thesis
    using assms(1) by (simp add: rx_packet_eq fast_accepts_def frame_def fill_buf_eq)
qed

section \<open>From the packet to the block\<close>

text \<open>
  A message of a PSC on its way to a block. It is received as a packet, and delivering the packet
  gives the block the time of reception and the bytes of the whole buffer: the body of the
  message, followed by what the buffer held behind it. The record in a data file has the
  body only.
\<close>

theorem fast_delivery:
  assumes "length bs \<le> length buf" and "length bs < 2 ^ 32" and "pend s = []" and "recv_blocks s k = Some b"
    and "snd (snd (rx_packet now \<lparr>g_src = peer s, g_bytes = frame k bs, g_ovfl = []\<rparr> buf s)) = s1"
    and "pend s1 = [p]" and "deliver_pkt env p s1 = (s2, r)"
  shows "\<exists>b2. recv_blocks s2 = (recv_blocks s)(k \<mapsto> b2) \<and> blk_count b2 = blk_count b + 1 \<and> rxtime b2 = now \<and>
    dbytes (data b2) = bs @ drop (length bs) buf \<and>
    file_record p = [0x50, 0x53] @ be16 k @ be32 (of_nat (length bs)) @
      be32 (fst now + POSIX_TIME_AT_EPICS_EPOCH) @ be32 (snd now) @ bs"
proof -
  have s1: "s1 = s\<lparr>notifycache := True,
      pend := [\<lparr>k_body = bs @ drop (length bs) buf, k_bodylen = length bs, k_rxtime = now, k_msgid = k\<rparr>]\<rparr>"
    using rx_frame [OF assms(1,2), where now = now and k = k and s = s] assms(3,5) by simp
  then have p: "p = \<lparr>k_body = bs @ drop (length bs) buf, k_bodylen = length bs, k_rxtime = now, k_msgid = k\<rparr>"
    using assms(6) by simp
  let ?b = "requestScan (f_scanIo env)
    (b\<lparr>blk_count := blk_count b + 1, rxtime := now, data := dbuffer_assign (data b) (bs @ drop (length bs) buf)\<rparr>)"
  have "recv_blocks s2 = (recv_blocks s)(k \<mapsto> ?b)"
    using assms(4,7) s1 p
    by (auto simp: deliver_pkt_def Let_def emit_def split: prod.splits)
  then show ?thesis
    by (intro exI [of _ ?b]) (simp add: p file_record_def file_header_def)
qed

text \<open>The first packet of the sample run, for a record of block 7.\<close>

theorem fast_delivery_witness:
  "\<exists>s1 p s2 r b2. snd (snd (rx_packet (5, 6) \<lparr>g_src = peer demo_start, g_bytes = frame 7 [0xAA, 0xBB], g_ovfl = []\<rparr>
       [1, 2, 3] (demo_start\<lparr>recv_blocks := [7 \<mapsto> block_new 7]\<rparr>))) = s1 \<and>
     pend s1 = [p] \<and> deliver_pkt fast_demo_env p s1 = (s2, r) \<and>
     recv_blocks s2 = [7 \<mapsto> b2] \<and> dbytes (data b2) = [0xAA, 0xBB, 3]"
proof -
  let ?s = "demo_start\<lparr>recv_blocks := [7 \<mapsto> block_new 7]\<rparr>"
  define s1 where "s1 = snd (snd (rx_packet (5, 6) \<lparr>g_src = peer ?s, g_bytes = frame 7 [0xAA, 0xBB], g_ovfl = []\<rparr> [1, 2, 3] ?s))"
  have "\<exists>p. pend s1 = [p]"
    unfolding s1_def by (subst rx_frame) (simp_all add: demo_start_fields)
  then obtain p where p: "pend s1 = [p]" by blast
  obtain s2 r where d: "deliver_pkt fast_demo_env p s1 = (s2, r)" by (cases "deliver_pkt fast_demo_env p s1")
  have "\<exists>b2. recv_blocks s2 = (recv_blocks ?s)(7 \<mapsto> b2) \<and> blk_count b2 = blk_count (block_new 7) + 1 \<and>
    rxtime b2 = (5, 6) \<and> dbytes (data b2) = [0xAA, 0xBB] @ drop (length [0xAA, 0xBB :: byte]) [1, 2, 3] \<and>
    file_record p = [0x50, 0x53] @ be16 7 @ be32 (of_nat (length [0xAA, 0xBB :: byte])) @
      be32 (fst (5, 6 :: u32) + POSIX_TIME_AT_EPICS_EPOCH) @ be32 (snd (5 :: u32, 6)) @ [0xAA, 0xBB]"
    by (rule fast_delivery [OF _ _ _ _ s1_def [symmetric] p d]) (simp_all add: demo_start_fields)
  then show ?thesis using p d unfolding s1_def by auto
qed

section \<open>The data file\<close>

text \<open>What was written is a prefix of the records of the packets; all of them, if the file is still open.\<close>

lemma length_file_record: "k_bodylen p \<le> length (k_body p) \<Longrightarrow> length (file_record p) = 16 + k_bodylen p"
  by (simp add: file_record_def file_header_def)

lemma length_records:
  "\<forall>p \<in> set ps. k_bodylen p \<le> length (k_body p) \<Longrightarrow>
   length (concat (map file_record ps)) = sum_list (map (\<lambda>p. 16 + k_bodylen p) ps)"
  by (induction ps) (simp_all add: length_file_record)

lemma write_batch_file:
  assumes "write_batch env (fn, old) ps e s = (t, Ok (n, e1))" and "datafile s = Some (fn, old)"
  shows "n = sum_list (map (\<lambda>p. 16 + k_bodylen p) ps) \<and> (\<forall>p \<in> set ps. k_bodylen p \<le> length (k_body p)) \<and>
    (datafile t = Some (fn, old @ concat (map file_record ps)) \<and> recording t = recording s \<and> e1 = e \<and>
       done_files t = done_files s \<and>
       writev env (f_calls s) (concat (map file_record ps)) = Inr n \<or>
     datafile t = None \<and> \<not> recording t \<and>
       (\<exists>k. done_files t = done_files s @ [(fn, old @ take k (concat (map file_record ps)))]) \<and>
       writev env (f_calls s) (concat (map file_record ps)) \<noteq> Inr n)"
proof -
  have le: "\<forall>p \<in> set ps. k_bodylen p \<le> length (k_body p)"
    using assms(1) by (auto simp: write_batch_def Let_def not_less split: if_splits)
  note l = length_records [OF le]
  show ?thesis
  proof (cases "writev env (f_calls s) (concat (map file_record ps))")
    case (Inl e')
    then show ?thesis
      using assms le by (auto simp: write_batch_def Let_def close_file_def not_less split: if_splits
          intro: exI [of _ 0])
  next
    case (Inr k)
    then show ?thesis
      using assms le l by (auto simp: write_batch_def Let_def close_file_def not_less split: if_splits)
  qed
qed

definition total_len :: "pkt list \<Rightarrow> nat" where
  "total_len ps = sum_list (map (\<lambda>p. 16 + k_bodylen p) ps)"

lemma write_batches_unfold:
  assumes "datafile s = Some f"
  shows "write_batches env ps n e s =
    (if ps = [] then (s, Ok (n, e))
     else if iov_pairs env = 0 then (s, Crash NoProgress)
     else (case write_batch env f (take (iov_pairs env) ps) e s of
             (s1, Ok (k, e1)) \<Rightarrow> write_batches env (drop (iov_pairs env) ps) (n + k) e1 s1
           | (s1, Throw x) \<Rightarrow> (s1, Throw x)
           | (s1, Crash x) \<Rightarrow> (s1, Crash x)))"
  by (subst write_batches.simps) (simp add: assms)

lemma write_batches_closed: "datafile s = None \<Longrightarrow> write_batches env ps n e s = (s, Ok (n, e))"
  by (subst write_batches.simps) simp

lemma records_split: "concat (map file_record ps) =
  concat (map file_record (take m ps)) @ concat (map file_record (drop m ps))"
  by (simp flip: concat_append map_append)

lemma take_prefix: "\<exists>k'. take k xs = take k' (xs @ ys)"
  by (rule exI [of _ "min k (length xs)"]) (simp add: min_def)

lemma write_batches_file:
  assumes "write_batches env ps n e s = (t, Ok (n1, e1))" and "datafile s = Some (fn, old)"
  shows "(datafile t = Some (fn, old @ concat (map file_record ps)) \<and> done_files t = done_files s \<and>
      recording t = recording s \<and> e1 = e \<and> n1 = n + total_len ps) \<or>
    (datafile t = None \<and> \<not> recording t \<and>
      (\<exists>k. done_files t = done_files s @ [(fn, old @ take k (concat (map file_record ps)))]))"
  using assms
proof (induction "length ps" arbitrary: ps n e s old rule: less_induct)
  case less
  note u = write_batches_unfold [OF less.prems(2), of env ps n e]
  show ?case
  proof (cases "ps = []")
    case True
    then show ?thesis using less.prems u by (simp add: total_len_def)
  next
    case False
    let ?m = "iov_pairs env"
    let ?f = "concat (map file_record (take ?m ps))"
    let ?r = "concat (map file_record (drop ?m ps))"
    have m: "?m \<noteq> 0" using less.prems(1) u False by (auto split: if_splits)
    obtain s1 k e2 where w: "write_batch env (fn, old) (take ?m ps) e s = (s1, Ok (k, e2))"
      "write_batches env (drop ?m ps) (n + k) e2 s1 = (t, Ok (n1, e1))"
      using less.prems(1) u False m by (auto split: prod.splits outcome.splits)
    note c = write_batch_file [OF w(1) less.prems(2)]
    have tl: "total_len ps = k + total_len (drop ?m ps)"
      using c by (simp add: total_len_def flip: sum_list_append map_append)
    show ?thesis
    proof (cases "datafile s1")
      case None
      then obtain j where "done_files s1 = done_files s @ [(fn, old @ take j ?f)]" "\<not> recording s1" using c by auto
      moreover obtain j' where "take j ?f = take j' (?f @ ?r)" using take_prefix by metis
      ultimately show ?thesis
        using w(2) None write_batches_closed [OF None] records_split [of ps ?m] by auto
    next
      case (Some f1)
      then have s1: "datafile s1 = Some (fn, old @ ?f)" "done_files s1 = done_files s" "recording s1 = recording s" "e2 = e"
        using c by auto
      have "length (drop ?m ps) < length ps" using False m by simp
      from less.hyps [OF this w(2) s1(1)] show ?thesis
      proof (elim disjE conjE exE)
        fix j
        assume j: "datafile t = None" "\<not> recording t"
          "done_files t = done_files s1 @ [(fn, (old @ ?f) @ take j ?r)]"
        have "?f @ take j ?r = take (length ?f + j) (concat (map file_record ps))"
          unfolding records_split [of ps ?m] by simp
        then have "done_files t = done_files s @ [(fn, old @ take (length ?f + j) (concat (map file_record ps)))]"
          using j(3) s1(2) by simp
        then show ?thesis using j(1,2) by blast
      qed (use s1 tl records_split [of ps ?m] in simp)
    qed
  qed
qed

lemma write_batch_all:
  assumes "\<forall>i bs. writev env i bs = Inr (length bs)" and "\<forall>p \<in> set ps. k_bodylen p \<le> length (k_body p)"
  shows "write_batch env f ps e s =
    (s\<lparr>f_calls := Suc (f_calls s), datafile := Some (fst f, snd f @ concat (map file_record ps))\<rparr>,
     Ok (total_len ps, e))"
proof -
  have "\<not> (\<exists>p \<in> set ps. length (k_body p) < k_bodylen p)" using assms(2) by (auto simp: not_less)
  then show ?thesis
    using assms(1) length_records [OF assms(2)] by (simp add: write_batch_def Let_def total_len_def)
qed

lemma write_batches_all:
  assumes "\<forall>i bs. writev env i bs = Inr (length bs)" and "iov_pairs env \<noteq> 0"
    and "\<forall>p \<in> set ps. k_bodylen p \<le> length (k_body p)" and "datafile s = Some f"
  shows "\<exists>t. write_batches env ps n e s = (t, Ok (n + total_len ps, e)) \<and>
    datafile t = Some (fst f, snd f @ concat (map file_record ps)) \<and> storewrote t = storewrote s"
  using assms(3,4)
proof (induction "length ps" arbitrary: ps n s f rule: less_induct)
  case less
  note u = write_batches_unfold [OF less.prems(2), of env ps n e]
  show ?case
  proof (cases "ps = []")
    case True
    then show ?thesis using less.prems(2) u by (simp add: total_len_def)
  next
    case False
    let ?m = "iov_pairs env"
    let ?f = "concat (map file_record (take ?m ps))"
    have le: "\<forall>p \<in> set (take ?m ps). k_bodylen p \<le> length (k_body p)"
      "\<forall>p \<in> set (drop ?m ps). k_bodylen p \<le> length (k_body p)"
      using less.prems(1) by (auto dest: in_set_takeD in_set_dropD)
    let ?s = "s\<lparr>f_calls := Suc (f_calls s), datafile := Some (fst f, snd f @ ?f)\<rparr>"
    have w1: "write_batch env f (take ?m ps) e s = (?s, Ok (total_len (take ?m ps), e))"
      by (rule write_batch_all [OF assms(1) le(1)])
    have w2: "datafile ?s = Some (fst f, snd f @ ?f)" by simp
    have "length (drop ?m ps) < length ps" using False assms(2) by simp
    from less.hyps [OF this le(2) w2, of "n + total_len (take ?m ps)"] obtain t where
      t: "write_batches env (drop ?m ps) (n + total_len (take ?m ps)) e ?s =
          (t, Ok (n + total_len (take ?m ps) + total_len (drop ?m ps), e))"
      "datafile t = Some (fst f, (snd f @ ?f) @ concat (map file_record (drop ?m ps)))"
      "storewrote t = storewrote s" by auto
    have "total_len (take ?m ps) + total_len (drop ?m ps) = total_len ps"
      by (simp add: total_len_def flip: sum_list_append map_append)
    then show ?thesis
      using t u w1 False assms(2) records_split [of ps ?m] by (simp add: add.assoc)
  qed
qed

lemma write_batches_oob:
  assumes "\<forall>i bs. writev env i bs = Inr (length bs)" and "iov_pairs env \<noteq> 0" and "datafile s = Some f"
    and "\<not> (\<forall>p \<in> set ps. k_bodylen p \<le> length (k_body p))"
  shows "snd (write_batches env ps n e s) = Crash OutOfBounds"
  using assms(3,4)
proof (induction "length ps" arbitrary: ps n s f rule: less_induct)
  case less
  note u = write_batches_unfold [OF less.prems(1), of env ps n e]
  let ?m = "iov_pairs env"
  have ne: "ps \<noteq> []" using less.prems(2) by auto
  show ?case
  proof (cases "\<forall>p \<in> set (take ?m ps). k_bodylen p \<le> length (k_body p)")
    case True
    moreover have "set ps = set (take ?m ps) \<union> set (drop ?m ps)" by (simp flip: set_append)
    ultimately have "\<not> (\<forall>p \<in> set (drop ?m ps). k_bodylen p \<le> length (k_body p))" using less.prems(2) by blast
    moreover have "length (drop ?m ps) < length ps" using ne assms(2) by simp
    ultimately show ?thesis
      using u ne assms(2) write_batch_all [OF assms(1) True] less.hyps by simp
  next
    case False
    then have "\<exists>p \<in> set (take ?m ps). length (k_body p) < k_bodylen p" by (auto simp: not_le)
    then have "write_batch env f (take ?m ps) e s = (s, Crash OutOfBounds)"
      by (simp add: write_batch_def Let_def)
    then show ?thesis using u ne assms(2) by simp
  qed
qed

text \<open>
  A reader of data files, after the format in documentation/udpfast.rst: the packets up to the
  first one that is not complete.
\<close>

function file_packets :: "byte list \<Rightarrow> (u16 \<times> u32 \<times> u32 \<times> byte list) list" where
  "file_packets bs =
     (let len = unat (hdr_len bs)
      in if length bs < 16 \<or> \<not> hdr_marked bs \<or> length bs < 16 + len then []
         else (hdr_id bs, unbe32 (take 4 (drop 8 bs)), unbe32 (take 4 (drop 12 bs)), take len (drop 16 bs))
              # file_packets (drop (16 + len) bs))"
  by pat_completeness auto
termination
  by (relation "measure length") auto

declare file_packets.simps [simp del]

definition pkt_view :: "pkt \<Rightarrow> u16 \<times> u32 \<times> u32 \<times> byte list" where
  "pkt_view p = (k_msgid p, fst (k_rxtime p) + POSIX_TIME_AT_EPICS_EPOCH, snd (k_rxtime p),
                 take (k_bodylen p) (k_body p))"

definition pkt_fits :: "pkt \<Rightarrow> bool" where
  "pkt_fits p \<longleftrightarrow> k_bodylen p \<le> length (k_body p) \<and> k_bodylen p < 2 ^ 32"

lemma file_record_enc:
  "file_record p = enc_header (k_msgid p) (of_nat (k_bodylen p)) @
     be32 (fst (k_rxtime p) + POSIX_TIME_AT_EPICS_EPOCH) @ be32 (snd (k_rxtime p)) @ take (k_bodylen p) (k_body p)"
  by (simp add: file_record_def file_header_def enc_header_def)

lemma file_packets_cons:
  assumes "pkt_fits p"
  shows "file_packets (file_record p @ bs) = pkt_view p # file_packets bs"
proof -
  have n: "unat (of_nat (k_bodylen p) :: u32) = k_bodylen p"
    using assms by (simp add: pkt_fits_def unat_of_nat)
  show ?thesis
    using assms n
    by (subst file_packets.simps) (simp add: file_record_enc pkt_view_def pkt_fits_def Let_def)
qed

lemma file_packets_cut:
  assumes "pkt_fits p" and "k < length (file_record p)"
  shows "file_packets (take k (file_record p)) = []"
proof (cases "k < 16")
  case True
  then show ?thesis by (subst file_packets.simps) (simp add: Let_def min_less_iff_disj)
next
  case False
  let ?x = "take k (file_record p)"
  have "take 8 ?x = enc_header (k_msgid p) (of_nat (k_bodylen p))"
    using False by (simp add: file_record_enc min_def)
  then have "hdr_len ?x = of_nat (k_bodylen p)"
    using hdr_take(3) [of ?x] hdr_enc_header(3) [of _ _ "[]"] by simp
  then have "unat (hdr_len ?x) = k_bodylen p"
    using assms(1) by (simp add: pkt_fits_def unat_of_nat)
  moreover have "length ?x < 16 + k_bodylen p"
    using assms by (simp add: length_file_record pkt_fits_def)
  ultimately show ?thesis by (subst file_packets.simps) (simp add: Let_def)
qed

lemma file_packets_records:
  "\<forall>p \<in> set ps. pkt_fits p \<Longrightarrow> file_packets (concat (map file_record ps) @ bs) = map pkt_view ps @ file_packets bs"
  by (induction ps) (simp_all add: file_packets_cons)

lemma file_packets_nil: "file_packets [] = []"
  by (subst file_packets.simps) simp

lemma file_packets_prefix:
  assumes "\<forall>p \<in> set ps. pkt_fits p"
  shows "\<exists>j. file_packets (take k (concat (map file_record ps))) = map pkt_view (take j ps)"
  using assms
proof (induction ps arbitrary: k)
  case Nil
  then show ?case by (simp add: file_packets_nil)
next
  case (Cons p ps)
  show ?case
  proof (cases "k < length (file_record p)")
    case True
    then have "file_packets (take k (concat (map file_record (p # ps)))) = map pkt_view (take 0 (p # ps))"
      using file_packets_cut [of p k] Cons.prems by simp
    then show ?thesis by blast
  next
    case False
    obtain j where "file_packets (take (k - length (file_record p)) (concat (map file_record ps))) = map pkt_view (take j ps)"
      using Cons by auto
    then have "file_packets (take k (concat (map file_record (p # ps)))) = map pkt_view (take (Suc j) (p # ps))"
      using False Cons.prems by (simp add: file_packets_cons)
    then show ?thesis by blast
  qed
qed

lemma write_file_cases:
  assumes "write_file env e s = (t, Ok e1)" and "datafile s = Some f"
  obtains s1 n e2 where "write_batches env (inprog s) 0 e s = (s1, Ok (n, e2))"
    and "datafile t = datafile s1" and "done_files t = done_files s1" and "recording t = recording s1"
    and "storewrote t = storewrote s1 + of_nat n"
  using assms by (auto simp: write_file_def Let_def split: prod.splits outcome.splits if_splits)

text \<open>
  C31: The data file stays readable. A file that holds the records of packets \<open>ps\<close> is
  extended by the packets of a batch. If the file is open afterwards, a reader finds all of them,
  with their numbers, times and bodies; if writing failed or was not complete, whatever the
  kernel did, recording is off and the closed file holds all old packets and the
  first of the new ones.
\<close>

theorem fast_file_readable:
  assumes "write_file env e s = (t, Ok e1)" and "datafile s = Some (fn, concat (map file_record ps))"
    and "\<forall>p \<in> set (ps @ inprog s). pkt_fits p"
  shows "(\<exists>c. datafile t = Some (fn, c) \<and> recording t = recording s \<and>
      file_packets c = map pkt_view (ps @ inprog s)) \<or>
    datafile t = None \<and> \<not> recording t \<and>
      (\<exists>c j. done_files t = done_files s @ [(fn, c)] \<and> file_packets c = map pkt_view (ps @ take j (inprog s)))"
proof -
  obtain s1 n e2 where w: "write_batches env (inprog s) 0 e s = (s1, Ok (n, e2))" "datafile t = datafile s1"
    "done_files t = done_files s1" "recording t = recording s1"
    by (rule write_file_cases [OF assms(1,2)])
  have p: "\<forall>p \<in> set ps. pkt_fits p" "\<forall>p \<in> set (inprog s). pkt_fits p" using assms(3) by simp_all
  from write_batches_file [OF w(1) assms(2)] show ?thesis
  proof (elim disjE conjE exE)
    assume a: "datafile s1 = Some (fn, concat (map file_record ps) @ concat (map file_record (inprog s)))"
      "recording s1 = recording s"
    have "file_packets (concat (map file_record ps) @ concat (map file_record (inprog s))) = map pkt_view (ps @ inprog s)"
      using file_packets_records [OF p(1)] file_packets_records [OF p(2), of "[]"] by (simp add: file_packets_nil)
    then show ?thesis using a w(2,4) by simp
  next
    fix k
    assume k: "datafile s1 = None" "\<not> recording s1"
      "done_files s1 = done_files s @
         [(fn, concat (map file_record ps) @ take k (concat (map file_record (inprog s))))]"
    obtain j where "file_packets (take k (concat (map file_record (inprog s)))) = map pkt_view (take j (inprog s))"
      using file_packets_prefix [OF p(2)] by blast
    then have "file_packets (concat (map file_record ps) @ take k (concat (map file_record (inprog s)))) =
        map pkt_view (ps @ take j (inprog s))"
      using file_packets_records [OF p(1)] by simp
    then show ?thesis using k w(2-4) by auto
  qed
qed

definition demo_open :: "unit fast" where
  "demo_open = demo_start\<lparr>recording := True, inprog := [demo_pkt], datafile := Some (''f'', [])\<rparr>"

lemma demo_fits: "pkt_fits demo_pkt"
  by (simp add: pkt_fits_def demo_pkt_def)

theorem fast_file_readable_witness:
  "\<exists>t e1. write_file fast_demo_env 0 demo_open = (t, Ok e1) \<and>
     ((\<exists>c. datafile t = Some (''f'', c) \<and> recording t = recording demo_open \<and>
         file_packets c = map pkt_view [demo_pkt]) \<or>
      datafile t = None \<and> \<not> recording t \<and>
        (\<exists>c j. done_files t = done_files demo_open @ [(''f'', c)] \<and> file_packets c = map pkt_view (take j [demo_pkt])))"
proof -
  have d: "datafile demo_open = Some (''f'', [])" "inprog demo_open = [demo_pkt]" by (simp_all add: demo_open_def)
  have e: "\<forall>i bs. writev fast_demo_env i bs = Inr (length bs)" "iov_pairs fast_demo_env \<noteq> 0" "dsync_mb fast_demo_env = 0"
    by (simp_all add: fast_demo_env_def)
  have f: "\<forall>p \<in> set [demo_pkt]. k_bodylen p \<le> length (k_body p)" using demo_fits by (simp add: pkt_fits_def)
  obtain s1 where "write_batches fast_demo_env [demo_pkt] 0 0 demo_open = (s1, Ok (0 + total_len [demo_pkt], 0))"
    using write_batches_all [OF e(1,2) f d(1)] by blast
  then obtain t where t: "write_file fast_demo_env 0 demo_open = (t, Ok 0)"
    using d e(3) by (simp add: write_file_def Let_def)
  have "\<forall>p \<in> set ([] @ inprog demo_open). pkt_fits p" using demo_fits d by simp
  from fast_file_readable [OF t _ this] show ?thesis using t d by simp
qed

text \<open>
  Recording works when the disk does: with an open file, complete writes and room for I/O vectors,
  a batch of packets is written to the end and counted, and the file stays open. But a packet that
  announces more bytes than its buffer has makes the driver read beyond the buffer.
\<close>

theorem fast_file_complete:
  assumes "\<forall>i bs. writev env i bs = Inr (length bs)" and "iov_pairs env \<noteq> 0" and "dsync_mb env = 0"
    and "datafile s = Some (fn, old)"
  shows "if \<forall>p \<in> set (inprog s). k_bodylen p \<le> length (k_body p)
    then \<exists>t. write_file env e s = (t, Ok e) \<and>
      datafile t = Some (fn, old @ concat (map file_record (inprog s))) \<and>
      storewrote t = storewrote s + of_nat (length (concat (map file_record (inprog s))))
    else snd (write_file env e s) = Crash OutOfBounds"
proof (cases "\<forall>p \<in> set (inprog s). k_bodylen p \<le> length (k_body p)")
  case True
  from write_batches_all [OF assms(1,2) True assms(4), of 0 e]
  obtain t where "write_batches env (inprog s) 0 e s = (t, Ok (total_len (inprog s), e))"
    "datafile t = Some (fn, old @ concat (map file_record (inprog s)))" "storewrote t = storewrote s" by auto
  then show ?thesis
    using True assms(3,4) length_records [OF True] by (simp add: write_file_def Let_def total_len_def)
next
  case False
  obtain t where "write_batches env (inprog s) 0 e s = (t, Crash OutOfBounds)"
    using write_batches_oob [OF assms(1,2,4) False, of 0 e] by (cases "write_batches env (inprog s) 0 e s") auto
  then show ?thesis using False assms(4) by (simp add: write_file_def)
qed

theorem fast_file_complete_witness:
  "(\<exists>t. write_file fast_demo_env 0 demo_open = (t, Ok 0) \<and> datafile t = Some (''f'', file_record demo_pkt)) \<and>
   snd (write_file fast_demo_env 0 (demo_open\<lparr>inprog := [demo_pkt\<lparr>k_bodylen := 9\<rparr>]\<rparr>)) = Crash OutOfBounds"
proof -
  have e: "\<forall>i bs. writev fast_demo_env i bs = Inr (length bs)" "iov_pairs fast_demo_env \<noteq> 0" "dsync_mb fast_demo_env = 0"
    by (simp_all add: fast_demo_env_def)
  have d: "datafile demo_open = Some (''f'', [])" "datafile (demo_open\<lparr>inprog := ps\<rparr>) = Some (''f'', [])"
    "inprog demo_open = [demo_pkt]" for ps
    by (simp_all add: demo_open_def)
  have "k_bodylen demo_pkt \<le> length (k_body demo_pkt)" "\<not> 9 \<le> length (k_body demo_pkt)"
    by (simp_all add: demo_pkt_def)
  then show ?thesis
    using fast_file_complete [OF e d(1), of 0] fast_file_complete [OF e d(2), of "[demo_pkt\<lparr>k_bodylen := 9\<rparr>]" 0] d(3)
    by auto
qed

section \<open>Arrays from the short buffer\<close>

lemma recGblSetSevr_arr [simp]:
  "aa_arr (recGblSetSevr a b r) = aa_arr r" "aa_nelm (recGblSetSevr a b r) = aa_nelm r"
  by (simp_all add: recGblSetSevr_def)

definition short_elem :: "short_priv \<Rightarrow> pkt \<Rightarrow> u32 \<Rightarrow> u32" where
  "short_elem q p old =
     (if ucast (k_msgid p) \<noteq> sp_block q then old
      else if unat (sp_offset q) + 4 > length (k_body p) then 0
      else unbe32 (take 4 (drop (unat (sp_offset q)) (k_body p))))"

lemma short_loop_arr:
  assumes "unat (sp_offset q) + 4 < 2 ^ 64" and "i + length ps \<le> length (aa_arr r)"
  shows "\<exists>r1. short_loop q i ps r = (r1, Ok ()) \<and> length (aa_arr r1) = length (aa_arr r) \<and>
    (\<forall>j < length (aa_arr r). aa_arr r1 ! j =
       (if i \<le> j \<and> j < i + length ps then short_elem q (ps ! (j - i)) (aa_arr r ! j) else aa_arr r ! j))"
  using assms(2)
proof (induction ps arbitrary: i r)
  case Nil
  then show ?case by auto
next
  case (Cons p ps)
  have w: "unat (sp_offset q + 4) = unat (sp_offset q) + 4"
    using assms(1) by (simp add: unat_word_ariths)
  let ?a = "(aa_arr r)[i := short_elem q p (aa_arr r ! i)]"
  have "\<exists>r2. aa_arr r2 = ?a \<and> short_loop q i (p # ps) r = short_loop q (Suc i) ps r2"
  proof (cases "ucast (k_msgid p) \<noteq> sp_block q")
    case True
    then show ?thesis by (intro exI [of _ r]) (simp add: short_elem_def)
  next
    case False
    define r1 where "r1 = (if i = 0 \<and> tse_device r then r\<lparr>rec_time := k_rxtime p\<rparr> else r)"
    let ?r2 = "(if unat (sp_offset q) + 4 > length (k_body p) then recGblSetSevr READ_ALARM INVALID_ALARM r1 else r1)
         \<lparr>aa_arr := ?a\<rparr>"
    have "short_loop q i (p # ps) r = short_loop q (Suc i) ps ?r2"
      using False by (simp add: w short_elem_def r1_def)
    then show ?thesis by (intro exI [of _ ?r2]) simp
  qed
  then obtain r2 where r2: "aa_arr r2 = ?a" "short_loop q i (p # ps) r = short_loop q (Suc i) ps r2" by blast
  from Cons.IH [of "Suc i" r2] obtain r1 where r1: "short_loop q (Suc i) ps r2 = (r1, Ok ())"
    "length (aa_arr r1) = length (aa_arr r)"
    "\<forall>j < length (aa_arr r). aa_arr r1 ! j =
       (if Suc i \<le> j \<and> j < Suc i + length ps then short_elem q (ps ! (j - Suc i)) (?a ! j) else ?a ! j)"
    using Cons.prems r2(1) by auto
  have "aa_arr r1 ! j = (if i \<le> j \<and> j < i + length (p # ps) then short_elem q ((p # ps) ! (j - i)) (aa_arr r ! j)
       else aa_arr r ! j)" if "j < length (aa_arr r)" for j
    using r1(3) that by (cases "j = i") (auto simp: nth_Cons' not_less_eq_eq)
  then show ?case using r1 r2(2) by auto
qed

text \<open>
  Reading the short buffer. The array gets one element per packet, up to its size: the 32 bit
  number at the offset of the link if the packet is of the message of the record, zero
  if it does not reach that far. The element of a packet of another message keeps the value of an earlier
  reading. The limit of the buffer grows to the size of the array.
\<close>

theorem short_read:
  assumes "unat (sp_offset q) + 4 < 2 ^ 64" and "aa_ulong r" and "sp_psc q" and "length (aa_arr r) = aa_nelm r"
  shows "\<exists>r1. devudp_read_shortbuf (Some q) r s =
      (r1, s\<lparr>shortLimit := max (shortLimit s) (aa_nelm r)\<rparr>, Ok DevOk) \<and>
    aa_nord r1 = min (aa_nelm r) (length (shortBuf s)) \<and>
    (\<forall>j < aa_nelm r. aa_arr r1 ! j =
       (if j < length (shortBuf s) then short_elem q (shortBuf s ! j) (aa_arr r ! j) else aa_arr r ! j))"
proof -
  let ?r = "if \<not> connected s then recGblSetSevr READ_ALARM INVALID_ALARM r else r"
  let ?n = "min (aa_nelm r) (length (shortBuf s))"
  have a: "aa_arr ?r = aa_arr r" by simp
  from short_loop_arr [OF assms(1), of 0 "take ?n (shortBuf s)" ?r]
  obtain r1 where r1: "short_loop q 0 (take ?n (shortBuf s)) ?r = (r1, Ok ())"
    "\<forall>j < aa_nelm r. aa_arr r1 ! j =
       (if j < ?n then short_elem q (take ?n (shortBuf s) ! j) (aa_arr r ! j) else aa_arr r ! j)"
    using assms(4) unfolding a by auto
  have "s\<lparr>shortLimit := max (shortLimit s) (aa_nelm r)\<rparr> =
      (if shortLimit s < aa_nelm r then s\<lparr>shortLimit := aa_nelm r\<rparr> else s)"
    by (simp add: max_def not_less)
  moreover have "aa_arr r1 ! j =
       (if j < length (shortBuf s) then short_elem q (shortBuf s ! j) (aa_arr r ! j) else aa_arr r ! j)"
    if "j < aa_nelm r" for j
    using r1(2) that by auto
  ultimately show ?thesis
    using assms(2,3) r1(1)
    by (intro exI [of _ "r1\<lparr>aa_nord := ?n\<rparr>"]) (simp add: devudp_read_shortbuf_def Let_def)
qed

definition demo_aai :: aai_rec where
  "demo_aai = \<lparr>tse_device = False, rec_time = (0, 0), alarms = [], aa_ulong = True, aa_nelm = 3,
     aa_arr = [9, 9, 9], aa_nord = 0\<rparr>"

definition demo_short :: "unit fast" where
  "demo_short = demo_start\<lparr>shortBuf := [demo_pkt, demo_pkt\<lparr>k_msgid := 8\<rparr>]\<rparr>"

lemma demo_elems:
  "short_elem \<lparr>sp_psc = True, sp_block = 7, sp_offset = 0\<rparr> demo_pkt 9 = 0xAABB0000"
  "short_elem \<lparr>sp_psc = True, sp_block = 7, sp_offset = 0\<rparr> (demo_pkt\<lparr>k_msgid := 8\<rparr>) 9 = 9"
  by (simp_all add: short_elem_def demo_pkt_def cat16_def cat32_def)

theorem short_read_witness:
  "\<exists>r1. devudp_read_shortbuf (Some \<lparr>sp_psc = True, sp_block = 7, sp_offset = 0\<rparr>) demo_aai demo_short =
      (r1, demo_short\<lparr>shortLimit := max (shortLimit demo_short) 3\<rparr>, Ok DevOk) \<and>
    aa_nord r1 = 2 \<and> aa_arr r1 ! 0 = 0xAABB0000 \<and> aa_arr r1 ! 1 = 9 \<and> aa_arr r1 ! 2 = 9"
proof -
  let ?q = "\<lparr>sp_psc = True, sp_block = 7, sp_offset = 0\<rparr>"
  have sb: "shortBuf demo_short = [demo_pkt, demo_pkt\<lparr>k_msgid := 8\<rparr>]" by (simp add: demo_short_def)
  have f: "aa_nelm demo_aai = 3" "aa_arr demo_aai = [9, 9, 9]" by (simp_all add: demo_aai_def)
  have "\<exists>r1. devudp_read_shortbuf (Some ?q) demo_aai demo_short =
      (r1, demo_short\<lparr>shortLimit := max (shortLimit demo_short) (aa_nelm demo_aai)\<rparr>, Ok DevOk) \<and>
    aa_nord r1 = min (aa_nelm demo_aai) (length (shortBuf demo_short)) \<and>
    (\<forall>j < aa_nelm demo_aai. aa_arr r1 ! j =
       (if j < length (shortBuf demo_short) then short_elem ?q (shortBuf demo_short ! j) (aa_arr demo_aai ! j)
        else aa_arr demo_aai ! j))"
    by (rule short_read) (simp_all add: demo_aai_def)
  then obtain r1 where r1: "devudp_read_shortbuf (Some ?q) demo_aai demo_short =
      (r1, demo_short\<lparr>shortLimit := max (shortLimit demo_short) 3\<rparr>, Ok DevOk)" "aa_nord r1 = 2"
    "\<forall>j < 3. aa_arr r1 ! j = (if j < 2 then short_elem ?q ([demo_pkt, demo_pkt\<lparr>k_msgid := 8\<rparr>] ! j) ([9, 9, 9] ! j)
        else [9, 9, 9] ! j)"
    unfolding f sb by auto
  have "aa_arr r1 ! 0 = 0xAABB0000" "aa_arr r1 ! 1 = 9" "aa_arr r1 ! 2 = 9"
    using r1(3) demo_elems by (simp_all add: nth_Cons')
  then show ?thesis using r1(1,2) by blast
qed

end
