(* ===== verification/Target_Msg.thy ===== *)
theory Target_Msg
  imports Psc_Protocol
begin

text \<open>
  Messages on the side of the device (targetApp/pscmsg.c): sending and receiving on a blocking socket.

  The calls send and recv are parameters on a state of the socket: they return an error number, or the
  number of bytes taken and the bytes received; no byte is the end of the stream. A function returns 0 or
  an error number. The flags of the calls are left out.
\<close>

section \<open>Sockets\<close>

record 's sockops =
  sk_send :: "byte list \<Rightarrow> 's \<Rightarrow> (nat + nat) \<times> 's"
  sk_recv :: "nat \<Rightarrow> 's \<Rightarrow> (nat + byte list) \<times> 's"

abbreviation (input) EIO :: nat where "EIO \<equiv> 5"
abbreviation (input) ENOTCONN :: nat where "ENOTCONN \<equiv> 107"

function psc_sendall :: "'s sockops \<Rightarrow> byte list \<Rightarrow> 's \<Rightarrow> nat \<times> 's" where
  "psc_sendall ops buf s =
     (if buf = [] then (0, s)
      else case sk_send ops buf s of
          (Inl e, s1) \<Rightarrow> (e, s1)
        | (Inr n, s1) \<Rightarrow> if n = 0 then (ENOTCONN, s1) else psc_sendall ops (drop n buf) s1)"
  by pat_completeness auto
termination
  by (relation "measure (\<lambda>(ops, buf, s). length buf)") auto

text \<open>The bytes of the result are those that have been stored in the buffer.\<close>

function psc_recvall :: "'s sockops \<Rightarrow> nat \<Rightarrow> 's \<Rightarrow> nat \<times> byte list \<times> 's" where
  "psc_recvall ops buflen s =
     (if buflen = 0 then (0, [], s)
      else case sk_recv ops buflen s of
          (Inl e, s1) \<Rightarrow> (e, [], s1)
        | (Inr bs, s1) \<Rightarrow>
            if bs = [] then (ENOTCONN, [], s1)
            else case psc_recvall ops (buflen - length bs) s1 of (e, cs, s2) \<Rightarrow> (e, bs @ cs, s2))"
  by pat_completeness auto
termination
  by (relation "measure (\<lambda>(ops, n, s). n)") auto

declare psc_sendall.simps [simp del] psc_recvall.simps [simp del]

text \<open>
  The buffer of \<open>psc_recvskip\<close> has 128 bytes. When a part cannot be received the loop ends, and the rest,
  which may be longer than the buffer, is received after all.
\<close>

function psc_recvskip :: "'s sockops \<Rightarrow> nat \<Rightarrow> 's \<Rightarrow> 's \<times> nat outcome" where
  "psc_recvskip ops len s =
     (let last = (\<lambda>s. case psc_recvall ops len s of
                   (e, bs, s1) \<Rightarrow> (s1, if length bs > 128 then Crash OutOfBounds else Ok e))
      in if len > 128
         then case psc_recvall ops 128 s of
                (e, bs, s1) \<Rightarrow> if e = 0 then psc_recvskip ops (len - 128) s1 else last s1
         else last s)"
  by pat_completeness auto
termination
  by (relation "measure (\<lambda>(ops, n, s). n)") auto

declare psc_recvskip.simps [simp del]

section \<open>Messages\<close>

definition psc_sendhead :: "'s sockops \<Rightarrow> u16 \<Rightarrow> u32 \<Rightarrow> 's \<Rightarrow> nat \<times> 's" where
  "psc_sendhead ops msgid msglen s = psc_sendall ops ([chr_P, chr_S] @ be16 msgid @ be32 msglen) s"

definition psc_sendmsg :: "'s sockops \<Rightarrow> u16 \<Rightarrow> byte list \<Rightarrow> 's \<Rightarrow> nat \<times> 's" where
  "psc_sendmsg ops msgid buf s =
     (case psc_sendhead ops msgid (of_nat (length buf)) s of
        (ret, s1) \<Rightarrow> if ret \<noteq> 0 then (ret, s1) else psc_sendall ops buf s1)"

definition psc_sendmsgsingle :: "'s sockops \<Rightarrow> u16 \<Rightarrow> u32 \<Rightarrow> byte list \<Rightarrow> 's \<Rightarrow> nat \<times> 's" where
  "psc_sendmsgsingle ops msgid regid buf s =
     (case psc_sendhead ops msgid (of_nat (length buf) + 4) s of
        (ret, s1) \<Rightarrow>
          if ret \<noteq> 0 then (ret, s1)
          else case psc_sendall ops (be32 regid) s1 of
              (ret, s2) \<Rightarrow> if ret \<noteq> 0 then (ret, s2) else psc_sendall ops buf s2)"

definition psc_recvhead :: "'s sockops \<Rightarrow> 's \<Rightarrow> 's \<times> nat \<times> (u16 \<times> u32) option" where
  "psc_recvhead ops s =
     (case psc_recvall ops 8 s of
        (ret, buf, s1) \<Rightarrow>
          if ret \<noteq> 0 then (s1, ret, None)
          else if \<not> hdr_marked buf then (s1, EIO, None)
          else (s1, 0, Some (hdr_id buf, hdr_len buf)))"

text \<open>
  A received message: its number and the bytes in the buffer, of which \<open>maxlen\<close> fit. It is set as soon as
  the body has been received, whether the rest can be skipped or not.
\<close>

definition psc_recvmsg :: "'s sockops \<Rightarrow> u32 \<Rightarrow> 's \<Rightarrow> ('s \<times> (u16 \<times> byte list) option) \<times> nat outcome" where
  "psc_recvmsg ops maxlen s =
     (case psc_recvhead ops s of
        (s1, ret, Some (mid, mlen)) \<Rightarrow>
          let rlen = (if mlen > maxlen then maxlen else mlen)
          in (case psc_recvall ops (unat rlen) s1 of
                (ret, bs, s2) \<Rightarrow>
                  if ret \<noteq> 0 then ((s2, None), Ok ret)
                  else if rlen < mlen
                  then (case psc_recvskip ops (unat (mlen - rlen)) s2 of (s3, r) \<Rightarrow> ((s3, Some (mid, bs)), r))
                  else ((s2, Some (mid, bs)), Ok 0))
      | (s1, ret, None) \<Rightarrow> ((s1, None), Ok ret))"

section \<open>A working connection\<close>

text \<open>
  What a stream socket does as long as the connection is up: send takes some of the bytes, and recv
  returns some of those that are under way. \<open>out\<close> are the bytes that have been sent, \<open>inp\<close> those that
  will be received.
\<close>

definition sends :: "'s sockops \<Rightarrow> ('s \<Rightarrow> byte list) \<Rightarrow> bool" where
  "sends ops out' \<longleftrightarrow>
     (\<forall>buf s. buf \<noteq> [] \<longrightarrow>
        (\<exists>n s1. sk_send ops buf s = (Inr n, s1) \<and> 0 < n \<and> n \<le> length buf \<and> out' s1 = out' s @ take n buf))"

definition recvs :: "'s sockops \<Rightarrow> ('s \<Rightarrow> byte list) \<Rightarrow> bool" where
  "recvs ops inp \<longleftrightarrow>
     (\<forall>n s. 0 < n \<longrightarrow> inp s \<noteq> [] \<longrightarrow>
        (\<exists>bs s1. sk_recv ops n s = (Inr bs, s1) \<and> bs \<noteq> [] \<and> length bs \<le> n \<and> inp s = bs @ inp s1))"

lemma sendall_ok: "sends ops f \<Longrightarrow> \<exists>s1. psc_sendall ops buf s = (0, s1) \<and> f s1 = f s @ buf"
proof (induction ops buf s rule: psc_sendall.induct)
  case (1 ops buf s)
  show ?case
  proof (cases "buf = []")
    case True
    then show ?thesis by (simp add: psc_sendall.simps)
  next
    case False
    then obtain n s1 where n: "sk_send ops buf s = (Inr n, s1)" "0 < n" "f s1 = f s @ take n buf"
      using "1.prems" unfolding sends_def by blast
    obtain s2 where "psc_sendall ops (drop n buf) s1 = (0, s2)" "f s2 = f s1 @ drop n buf"
      using "1.IH" [OF False n(1) [symmetric] refl] n(2) "1.prems" by auto
    then show ?thesis using False n by (simp add: psc_sendall.simps [of ops buf])
  qed
qed

lemma recvall_ok:
  "recvs ops f \<Longrightarrow> n \<le> length (f s) \<Longrightarrow>
   \<exists>s1. psc_recvall ops n s = (0, take n (f s), s1) \<and> f s1 = drop n (f s)"
proof (induction ops n s rule: psc_recvall.induct)
  case (1 ops n s)
  show ?case
  proof (cases "n = 0")
    case True
    then show ?thesis by (simp add: psc_recvall.simps)
  next
    case False
    then have "f s \<noteq> []" using "1.prems"(2) by auto
    then obtain bs s1 where b: "sk_recv ops n s = (Inr bs, s1)" "bs \<noteq> []" "length bs \<le> n" "f s = bs @ f s1"
      using "1.prems"(1) False unfolding recvs_def by blast
    then have "n - length bs \<le> length (f s1)" using "1.prems"(2) by simp
    then obtain s2 where "psc_recvall ops (n - length bs) s1 = (0, take (n - length bs) (f s1), s2)"
      "f s2 = drop (n - length bs) (f s1)"
      using "1.IH" [OF False b(1) [symmetric] refl b(2) "1.prems"(1)] by auto
    then show ?thesis using False b by (simp add: psc_recvall.simps [of ops n])
  qed
qed

lemma recvskip_ok:
  "recvs ops f \<Longrightarrow> n \<le> length (f s) \<Longrightarrow> \<exists>s1. psc_recvskip ops n s = (s1, Ok 0) \<and> f s1 = drop n (f s)"
proof (induction ops n s rule: psc_recvskip.induct)
  case (1 ops n s)
  show ?case
  proof (cases "n > 128")
    case True
    then obtain s1 where s1: "psc_recvall ops 128 s = (0, take 128 (f s), s1)" "f s1 = drop 128 (f s)"
      using recvall_ok [OF "1.prems"(1), of 128 s] "1.prems"(2) by auto
    then have "n - 128 \<le> length (f s1)" using "1.prems"(2) by simp
    then obtain s2 where "psc_recvskip ops (n - 128) s1 = (s2, Ok 0)" "f s2 = drop (n - 128) (f s1)"
      using "1.IH" [OF refl True s1(1) [symmetric] refl refl "1.prems"(1)] by blast
    then show ?thesis using True s1 by (simp add: psc_recvskip.simps [of ops n])
  next
    case False
    then show ?thesis
      using recvall_ok [OF "1.prems"] by (auto simp: psc_recvskip.simps [of ops n])
  qed
qed

lemma sendmsg_ok: "sends ops f \<Longrightarrow> \<exists>s1. psc_sendmsg ops k bs s = (0, s1) \<and> f s1 = f s @ frame k bs"
  using sendall_ok [of ops f "[chr_P, chr_S] @ be16 k @ be32 (of_nat (length bs))" s] sendall_ok [of ops f bs]
  by (fastforce simp: psc_sendmsg_def psc_sendhead_def frame_def enc_header_def)

lemma recvhead_ok:
  assumes "recvs ops f" and "f s = frame k bs @ cs"
  shows "\<exists>s1. psc_recvhead ops s = (s1, 0, Some (k, of_nat (length bs))) \<and> f s1 = bs @ cs"
proof -
  have s: "f s = enc_header k (of_nat (length bs)) @ bs @ cs" using assms(2) by (simp add: frame_def)
  then obtain s1 where "psc_recvall ops 8 s = (0, enc_header k (of_nat (length bs)), s1)" "f s1 = bs @ cs"
    using recvall_ok [OF assms(1), of 8 s] by auto
  then show ?thesis
    using hdr_enc_header [of k _ "[]"] by (simp add: psc_recvhead_def)
qed

lemma recvmsg_ok:
  assumes "recvs ops f" and "length bs < 2 ^ 32" and "f s = frame k bs @ rest"
  shows "\<exists>s1. psc_recvmsg ops maxlen s = ((s1, Some (k, take (unat maxlen) bs)), Ok 0) \<and> f s1 = rest"
proof -
  let ?m = "of_nat (length bs) :: u32"
  have m: "unat ?m = length bs" using assms(2) by (simp add: unat_of_nat)
  let ?n = "if ?m > maxlen then maxlen else ?m"
  have n: "unat ?n = min (length bs) (unat maxlen)" using m by (auto simp: word_less_nat_alt)
  obtain r1 where r1: "psc_recvhead ops s = (r1, 0, Some (k, ?m))" "f r1 = bs @ rest"
    using recvhead_ok [OF assms(1,3)] by blast
  obtain r2 where r2: "psc_recvall ops (unat ?n) r1 = (0, take (unat maxlen) bs, r2)"
    "f r2 = drop (unat maxlen) bs @ rest"
    using recvall_ok [OF assms(1), of "unat ?n" r1] r1(2) n by (auto simp: min_def split: if_splits)
  show ?thesis
  proof (cases "?n < ?m")
    case True
    then have lt: "?n = maxlen" "unat maxlen < length bs" using m by (auto simp: word_less_nat_alt split: if_splits)
    have "unat (?m - ?n) = length bs - unat maxlen" using True lt m by (simp add: unat_sub word_less_nat_alt word_le_nat_alt)
    moreover obtain r3 where "psc_recvskip ops (length bs - unat maxlen) r2 = (r3, Ok 0)" "f r3 = rest"
      using recvskip_ok [OF assms(1), of "length bs - unat maxlen" r2] r2(2) by auto
    ultimately show ?thesis using r1(1) r2(1) True by (auto simp: psc_recvmsg_def Let_def)
  next
    case False
    then have "drop (unat maxlen) bs = []" using m by (auto simp: word_less_nat_alt split: if_splits)
    then show ?thesis using r1(1) r2 False by (simp add: psc_recvmsg_def Let_def)
  qed
qed

text \<open>Several messages one after the other.\<close>

definition send_msgs :: "'s sockops \<Rightarrow> (u16 \<times> byte list) list \<Rightarrow> 's \<Rightarrow> 's" where
  "send_msgs ops ms s = fold (\<lambda>m s. snd (psc_sendmsg ops (fst m) (snd m) s)) ms s"

fun recv_msgs :: "'s sockops \<Rightarrow> u32 \<Rightarrow> nat \<Rightarrow> 's \<Rightarrow> (u16 \<times> byte list) list \<times> 's" where
  "recv_msgs ops maxlen 0 s = ([], s)"
| "recv_msgs ops maxlen (Suc n) s =
     (case psc_recvmsg ops maxlen s of
        ((s1, Some m), Ok 0) \<Rightarrow> (case recv_msgs ops maxlen n s1 of (ms, s2) \<Rightarrow> (m # ms, s2))
      | ((s1, _), _) \<Rightarrow> ([], s1))"

lemma send_msgs_ok: "sends ops f \<Longrightarrow> f (send_msgs ops ms s) = f s @ frames ms"
proof (induction ms arbitrary: s)
  case (Cons m ms)
  obtain s1 where "psc_sendmsg ops (fst m) (snd m) s = (0, s1)" "f s1 = f s @ frame (fst m) (snd m)"
    using sendmsg_ok [OF Cons.prems] by blast
  then show ?case using Cons.IH [OF Cons.prems, of s1] by (simp add: send_msgs_def)
qed (simp add: send_msgs_def)

lemma recv_msgs_ok:
  "recvs ops f \<Longrightarrow> \<forall>m \<in> set ms. length (snd m) < 2 ^ 32 \<Longrightarrow> f s = frames ms @ rest \<Longrightarrow>
   \<exists>s1. recv_msgs ops maxlen (length ms) s = (map (\<lambda>m. (fst m, take (unat maxlen) (snd m))) ms, s1) \<and> f s1 = rest"
proof (induction ms arbitrary: s)
  case (Cons m ms)
  have "f s = frame (fst m) (snd m) @ frames ms @ rest" using Cons.prems(3) by simp
  then obtain s1 where "psc_recvmsg ops maxlen s = ((s1, Some (fst m, take (unat maxlen) (snd m))), Ok 0)"
    "f s1 = frames ms @ rest"
    using recvmsg_ok [OF Cons.prems(1), where maxlen = maxlen] Cons.prems(2) by fastforce
  then show ?case using Cons.IH [OF Cons.prems(1), of s1] Cons.prems(2) by auto
qed simp

section \<open>Properties\<close>

text \<open>
  Messages between a sender and a receiver of pscmsg.c. However the sockets split the bytes, a sent
  message arrives with its number and its body, or as much of the body as the buffer of the receiver holds;
  and the stream is left at the next message either way.
\<close>

theorem target_roundtrip:
  assumes "sends ops out'" and "recvs ops' inp" and "length bs < 2 ^ 32"
    and "psc_sendmsg ops k bs s = (ret, t)" and "inp r = drop (length (out' s)) (out' t) @ rest"
  shows "ret = 0 \<and>
    (\<exists>r1. psc_recvmsg ops' maxlen r = ((r1, Some (k, take (unat maxlen) bs)), Ok 0) \<and> inp r1 = rest)"
proof -
  have t: "ret = 0" "out' t = out' s @ frame k bs" using sendmsg_ok [OF assms(1), of k bs s] assms(4) by auto
  then have "inp r = frame k bs @ rest" using assms(5) by simp
  from recvmsg_ok [OF assms(2,3) this] show ?thesis using t(1) by blast
qed

text \<open>A socket that transfers one byte per call.\<close>

record byte_sock =
  s_out :: "byte list"
  s_in :: "byte list"

definition byte_ops :: "byte_sock sockops" where
  "byte_ops =
     \<lparr>sk_send = (\<lambda>buf s. (Inr 1, s\<lparr>s_out := s_out s @ take 1 buf\<rparr>)),
      sk_recv = (\<lambda>n s. (Inr (take 1 (s_in s)), s\<lparr>s_in := drop 1 (s_in s)\<rparr>))\<rparr>"

lemma byte_ops_ok: "sends byte_ops s_out" "recvs byte_ops s_in"
  by (auto simp: sends_def recvs_def byte_ops_def Suc_le_eq)

theorem target_roundtrip_witness:
  "\<exists>t r1. psc_sendmsg byte_ops 42 [1, 2, 3] \<lparr>s_out = [], s_in = []\<rparr> = (0, t) \<and>
     psc_recvmsg byte_ops 2 \<lparr>s_out = [], s_in = s_out t @ [9]\<rparr> = ((r1, Some (42, [1, 2])), Ok 0) \<and> s_in r1 = [9]"
proof -
  let ?s = "\<lparr>s_out = [], s_in = []\<rparr>"
  obtain ret t where t: "psc_sendmsg byte_ops 42 [1, 2, 3] ?s = (ret, t)"
    by (cases "psc_sendmsg byte_ops 42 [1, 2, 3] ?s")
  have i: "s_in \<lparr>s_out = [], s_in = s_out t @ [9]\<rparr> = drop (length (s_out ?s)) (s_out t) @ [9]" by simp
  from target_roundtrip [OF byte_ops_ok _ t i, of 2] show ?thesis using t by auto
qed

text \<open>
  A single-register message of the device is one frame whose body is the number of the register, most
  significant byte first, and the data: the message that the single-register device support expects.
\<close>

theorem target_single:
  assumes "sends ops out'" and "length bs < 2 ^ 32 - 4"
    and "psc_sendmsgsingle ops k reg bs s = (ret, t)"
  shows "ret = 0 \<and> out' t = out' s @ frame k (be32 reg @ bs)"
proof -
  have l: "(of_nat (length bs) + 4 :: u32) = of_nat (length (be32 reg @ bs))" by simp
  obtain s1 where 1: "psc_sendhead ops k (of_nat (length bs) + 4) s = (0, s1)"
    "out' s1 = out' s @ enc_header k (of_nat (length (be32 reg @ bs)))"
    using sendall_ok [OF assms(1)] unfolding psc_sendhead_def enc_header_def l by blast
  obtain s2 where 2: "psc_sendall ops (be32 reg) s1 = (0, s2)" "out' s2 = out' s1 @ be32 reg"
    using sendall_ok [OF assms(1)] by blast
  obtain s3 where 3: "psc_sendall ops bs s2 = (0, s3)" "out' s3 = out' s2 @ bs"
    using sendall_ok [OF assms(1)] by blast
  then show ?thesis
    using 1 2 assms(3) by (simp add: psc_sendmsgsingle_def frame_def)
qed

theorem target_single_witness:
  "\<exists>t. psc_sendmsgsingle byte_ops 5 1 [7] \<lparr>s_out = [], s_in = []\<rparr> = (0, t) \<and> s_out t = frame 5 [0, 0, 0, 1, 7]"
proof -
  let ?s = "\<lparr>s_out = [], s_in = []\<rparr>"
  obtain ret t where t: "psc_sendmsgsingle byte_ops 5 1 [7] ?s = (ret, t)"
    by (cases "psc_sendmsgsingle byte_ops 5 1 [7] ?s")
  have "be32 1 = [0, 0, 0, 1]" by (simp add: be32_def)
  then show ?thesis using target_single [OF byte_ops_ok(1) _ t] t by simp
qed

text \<open>
  C38: A timeout while the rest of a long message is skipped. When a part of 128 bytes cannot be received,
  the loop ends as if the rest were short, and all of it is received into the buffer of 128 bytes: if the
  socket works again by then, the device writes beyond its stack buffer.
\<close>

theorem target_skip_overrun:
  assumes "len > 128" and "psc_recvall ops 128 s = (e, part, s1)" and "e \<noteq> 0"
    and "recvs ops inp" and "len \<le> length (inp s1)"
  shows "snd (psc_recvskip ops len s) = Crash OutOfBounds"
proof -
  obtain s2 where "psc_recvall ops len s1 = (0, take len (inp s1), s2)"
    using recvall_ok [OF assms(4,5)] by blast
  then show ?thesis using assms by (simp add: psc_recvskip.simps [of ops len])
qed

text \<open>A socket with one timeout, and bytes that arrive after it.\<close>

definition late_ops :: "(bool \<times> byte list) sockops" where
  "late_ops =
     \<lparr>sk_send = (\<lambda>buf s. (Inr (length buf), s)),
      sk_recv = (\<lambda>n (late, bs). if late then (Inl 11, (False, bs)) else (Inr (take n bs), (False, drop n bs)))\<rparr>"

theorem target_skip_overrun_witness:
  "snd (psc_recvskip late_ops 200 (True, replicate 200 0)) = Crash OutOfBounds"
proof (rule target_skip_overrun)
  show "psc_recvall late_ops 128 (True, replicate 200 0) = (11, [], (False, replicate 200 0))"
    by (subst psc_recvall.simps) (simp add: late_ops_def)
  show "recvs late_ops (\<lambda>s. if fst s then [] else snd s)"
    by (auto simp: recvs_def late_ops_def)
qed simp_all

end
