(* ===== verification/Device_Link.thy ===== *)
theory Device_Link
  imports Psc_Protocol "HOL-Library.Sublist"
begin

text \<open>
  What the servers on devices promise to whoever listens to them, as an interface: sending to all
  succeeds, and the stream of each peer gets the message as one frame, or nothing. The clients of the interface see
  a series of messages: each peer receives some of them, whole and in order.
\<close>

fun bcasts ::
  "(u16 \<Rightarrow> byte list \<Rightarrow> 's \<Rightarrow> ('s \<times> unit outcome) option) \<Rightarrow> (u16 \<times> byte list) list \<Rightarrow> 's \<Rightarrow> ('s \<times> unit outcome) option" where
  "bcasts snd_all [] s = Some (s, Ok ())"
| "bcasts snd_all (m # ms) s =
     (case snd_all (fst m) (snd m) s of
        Some (t, Ok _) \<Rightarrow> bcasts snd_all ms t
      | r \<Rightarrow> r)"

locale broadcaster =
  fixes valid :: "'s \<Rightarrow> bool"
    and snd_all :: "u16 \<Rightarrow> byte list \<Rightarrow> 's \<Rightarrow> ('s \<times> unit outcome) option"
    and peers :: "'s \<Rightarrow> 'c set"
    and stream :: "'s \<Rightarrow> 'c \<Rightarrow> byte list"
  assumes snd_all_ok: "valid s \<Longrightarrow>
      \<exists>t. snd_all k bs s = Some (t, Ok ()) \<and> valid t \<and> peers t = peers s \<and>
        (\<forall>c \<in> peers s. stream t c = stream s c @ frame k bs \<or> stream t c = stream s c)"
begin

lemma bcasts_frames:
  "valid s \<Longrightarrow> \<exists>t. bcasts snd_all ms s = Some (t, Ok ()) \<and> valid t \<and> peers t = peers s \<and>
     (\<forall>c \<in> peers s. \<exists>ns. subseq ns ms \<and> stream t c = stream s c @ frames ns)"
proof (induction ms arbitrary: s)
  case Nil
  then show ?case by auto
next
  case (Cons m ms)
  obtain t where t: "snd_all (fst m) (snd m) s = Some (t, Ok ())" "valid t" "peers t = peers s"
    "\<forall>c \<in> peers s. stream t c = stream s c @ frame (fst m) (snd m) \<or> stream t c = stream s c"
    using snd_all_ok [OF Cons.prems] by blast
  obtain u where u: "bcasts snd_all ms t = Some (u, Ok ())" "valid u" "peers u = peers t"
    "\<forall>c \<in> peers t. \<exists>ns. subseq ns ms \<and> stream u c = stream t c @ frames ns"
    using Cons.IH [OF t(2)] by blast
  have "\<exists>ns. subseq ns (m # ms) \<and> stream u c = stream s c @ frames ns" if c: "c \<in> peers s" for c
  proof -
    obtain ns where n: "subseq ns ms" "stream u c = stream t c @ frames ns" using u(4) t(3) c by blast
    consider "stream t c = stream s c @ frame (fst m) (snd m)" | "stream t c = stream s c" using t(4) c by blast
    then show ?thesis
    proof cases
      case 1
      then have "stream u c = stream s c @ frames (m # ns)" using n(2) by simp
      moreover have "subseq (m # ns) (m # ms)" using n(1) by simp
      ultimately show ?thesis by blast
    next
      case 2
      moreover have "subseq ns (m # ms)" using n(1) by (rule list_emb_Cons)
      ultimately show ?thesis using n(2) by auto
    qed
  qed
  then show ?case using t(1,3) u by auto
qed

text \<open>A receiver of the protocol decodes the stream of a peer as these messages.\<close>

lemma bcasts_decoded:
  assumes "valid s" and "c \<in> peers s" and "stream s c = []" and "\<forall>m \<in> set ms. length (snd m) < 2 ^ 32"
  shows "\<exists>t ns. bcasts snd_all ms s = Some (t, Ok ()) \<and> subseq ns ms \<and>
    rx_run known None (stream t c) = (concat (map (msg_events known) ns), None, [], False)"
proof -
  obtain t ns where t: "bcasts snd_all ms s = Some (t, Ok ())" "subseq ns ms" "stream t c = frames ns"
    using bcasts_frames [OF assms(1), of ms] assms(2,3) by auto
  have "set ns \<subseteq> set ms" using t(2) by (auto elim: list_emb_set)
  then have "\<forall>m \<in> set ns. length (snd m) < 2 ^ 32" using assms(4) by blast
  from rx_run_frames [OF this, of known "[]"] show ?thesis using t by (auto simp: rx_run_short)
qed

end

text \<open>A server that never drops a message: every peer receives all of them.\<close>

locale lossless_broadcaster = broadcaster valid snd_all peers stream
  for valid :: "'s \<Rightarrow> bool" and snd_all :: "u16 \<Rightarrow> byte list \<Rightarrow> 's \<Rightarrow> ('s \<times> unit outcome) option"
    and peers :: "'s \<Rightarrow> 'c set" and stream :: "'s \<Rightarrow> 'c \<Rightarrow> byte list" +
  assumes snd_all_full: "valid s \<Longrightarrow> snd_all k bs s = Some (t, Ok ()) \<Longrightarrow> c \<in> peers s \<Longrightarrow>
      stream t c = stream s c @ frame k bs"
begin

lemma bcasts_all:
  "valid s \<Longrightarrow> \<exists>t. bcasts snd_all ms s = Some (t, Ok ()) \<and> (\<forall>c \<in> peers s. stream t c = stream s c @ frames ms)"
proof (induction ms arbitrary: s)
  case Nil
  then show ?case by simp
next
  case (Cons m ms)
  obtain t where t: "snd_all (fst m) (snd m) s = Some (t, Ok ())" "valid t" "peers t = peers s"
    using snd_all_ok [OF Cons.prems] by blast
  obtain u where u: "bcasts snd_all ms t = Some (u, Ok ())" "\<forall>c \<in> peers t. stream u c = stream t c @ frames ms"
    using Cons.IH [OF t(2)] by blast
  have "stream u c = stream s c @ frames (m # ms)" if "c \<in> peers s" for c
    using snd_all_full [OF Cons.prems t(1) that] u(2) t(3) that by simp
  then show ?case using t(1) u(1) by auto
qed

end

end
