(* ===== verification/Target_Server.thy ===== *)
theory Target_Server
  imports Target_Msg Device_Link
begin

text \<open>
  The server of the device (targetApp/listener.c): the list of connected clients, one thread per client
  that receives messages, and sending to all clients.

  Clients are nodes of a doubly linked list on a heap. Access to a freed node is a crash. The socket of a
  client is a number; \<open>socks\<close> has the state of each socket. The callbacks of the application are
  parameters on the whole state.
\<close>

section \<open>State\<close>

record client =
  c_prev :: "nat option"
  c_next :: "nat option"
  c_active :: bool
  c_sock :: nat

datatype srv_event = SrvConn nat | SrvDis nat | SrvClose nat

record 's server =
  nodes :: "nat \<Rightarrow> client option"
  next_node :: nat
  client_head :: "nat option"
  client_count :: u32
  socks :: "nat \<Rightarrow> 's"
  srv_log :: "srv_event list"

record ('s, 'z) srv_env =
  sock_ops :: "'s sockops"
  conf_conn :: "srv_event \<Rightarrow> ('s, 'z) server_scheme \<Rightarrow> ('s, 'z) server_scheme \<times> unit outcome"
  conf_recv :: "u16 \<Rightarrow> byte list \<Rightarrow> ('s, 'z) server_scheme \<Rightarrow> (('s, 'z) server_scheme \<times> unit outcome) option"

abbreviation (input) PSC_MAX_CLIENTS :: u32 where "PSC_MAX_CLIENTS \<equiv> 4"
abbreviation (input) PSC_MAX_RX_MSG_LEN :: u32 where "PSC_MAX_RX_MSG_LEN \<equiv> 1024"

definition srv_emit :: "srv_event \<Rightarrow> ('s, 'z) server_scheme \<Rightarrow> ('s, 'z) server_scheme" where
  "srv_emit e s = s\<lparr>srv_log := srv_log s @ [e]\<rparr>"

definition upd_node :: "nat \<Rightarrow> (client \<Rightarrow> client) \<Rightarrow> ('s, 'z) server_scheme \<Rightarrow> ('s, 'z) server_scheme" where
  "upd_node i f s = s\<lparr>nodes := (nodes s)(i := map_option f (nodes s i))\<rparr>"

definition server_new :: "(nat \<Rightarrow> 's) \<Rightarrow> 's server" where
  "server_new ss =
     \<lparr>nodes = (\<lambda>_. None), next_node = 0, client_head = None, client_count = 0, socks = ss, srv_log = []\<rparr>"

text \<open>
  The start of \<open>psc_run\<close>: the server of a key that is not set yet, if memory, lock and listening socket
  can be had. It leaves what it got when a later step fails.
\<close>

definition psc_run_start ::
  "bool \<Rightarrow> bool \<Rightarrow> bool \<Rightarrow> bool \<Rightarrow> bool \<Rightarrow> bool \<Rightarrow> (nat \<Rightarrow> 's) \<Rightarrow> 's server option" where
  "psc_run_start key memory mutex sock bound listening ss =
     (if key then None
      else if \<not> memory then None
      else if \<not> mutex then None
      else if \<not> sock then None
      else if \<not> bound then None
      else if \<not> listening then None
      else Some (server_new ss))"

section \<open>Clients come and go\<close>

text \<open>
  A connection: \<open>memory\<close> and \<open>thread\<close> tell whether allocation and the start of the thread succeed. The
  node is linked afterwards, when the thread may already be running.
\<close>

definition accept_client :: "nat \<Rightarrow> bool \<Rightarrow> bool \<Rightarrow> ('s, 'z) server_scheme \<Rightarrow> ('s, 'z) server_scheme \<times> nat option" where
  "accept_client sock memory thread s =
     (if client_count s \<ge> PSC_MAX_CLIENTS \<or> \<not> memory then (srv_emit (SrvClose sock) s, None)
      else if \<not> thread then (srv_emit (SrvClose sock) s, None)
      else (s\<lparr>nodes := (nodes s)(next_node s \<mapsto> \<lparr>c_prev = None, c_next = None, c_active = False, c_sock = sock\<rparr>),
              next_node := Suc (next_node s)\<rparr>, Some (next_node s)))"

definition link_client :: "nat \<Rightarrow> ('s, 'z) server_scheme \<Rightarrow> ('s, 'z) server_scheme \<times> unit outcome" where
  "link_client i s =
     (if nodes s i = None then (s, Crash UseAfterFree)
      else (upd_node i (\<lambda>c. c\<lparr>c_next := client_head s, c_active := True\<rparr>)
              (s\<lparr>client_head := Some i, client_count := client_count s + 1\<rparr>), Ok ()))"

text \<open>The node is taken out of the list: the first part of the end of \<open>handle_client\<close>.\<close>

definition unlink_client :: "nat \<Rightarrow> ('s, 'z) server_scheme \<Rightarrow> ('s, 'z) server_scheme \<times> unit outcome" where
  "unlink_client i s =
     (case nodes s i of
        None \<Rightarrow> (s, Crash UseAfterFree)
      | Some c \<Rightarrow>
          if (\<exists>n. c_next c = Some n \<and> nodes s n = None) \<or> (\<exists>p. c_prev c = Some p \<and> nodes s p = None)
          then (s, Crash UseAfterFree)
          else
            let s1 = (case c_next c of Some n \<Rightarrow> upd_node n (\<lambda>x. x\<lparr>c_prev := c_prev c\<rparr>) s | None \<Rightarrow> s);
                s2 = (case c_prev c of
                        Some p \<Rightarrow> upd_node p (\<lambda>x. x\<lparr>c_next := c_next c\<rparr>) s1
                      | None \<Rightarrow> s1\<lparr>client_head := c_next c\<rparr>)
            in (s2\<lparr>client_count := client_count s2 - 1\<rparr>, Ok ()))"

definition free_client :: "nat \<Rightarrow> ('s, 'z) server_scheme \<Rightarrow> ('s, 'z) server_scheme \<times> unit outcome" where
  "free_client i s =
     (case nodes s i of
        None \<Rightarrow> (s, Crash UseAfterFree)
      | Some c \<Rightarrow> ((srv_emit (SrvClose (c_sock c)) s)\<lparr>nodes := (nodes s)(i := None)\<rparr>, Ok ()))"

definition leave_client :: "('s, 'z) srv_env \<Rightarrow> nat \<Rightarrow> ('s, 'z) server_scheme \<Rightarrow> ('s, 'z) server_scheme \<times> unit outcome" where
  "leave_client env i s =
     (case unlink_client i s of
        (s1, Ok _) \<Rightarrow>
          (case conf_conn env (SrvDis i) (srv_emit (SrvDis i) s1) of
             (s2, Ok _) \<Rightarrow> free_client i s2
           | (s2, r) \<Rightarrow> (s2, r))
      | (s1, r) \<Rightarrow> (s1, r))"

definition start_client :: "('s, 'z) srv_env \<Rightarrow> nat \<Rightarrow> ('s, 'z) server_scheme \<Rightarrow> ('s, 'z) server_scheme \<times> unit outcome" where
  "start_client env i s = conf_conn env (SrvConn i) (srv_emit (SrvConn i) s)"

text \<open>
  One round of the loop of \<open>handle_client\<close>. The callback for messages may send, so its result is like that of sending.
\<close>

definition serve_client ::
  "('s, 'z) srv_env \<Rightarrow> nat \<Rightarrow> ('s, 'z) server_scheme \<Rightarrow> (('s, 'z) server_scheme \<times> unit outcome) option" where
  "serve_client env i s =
     (case nodes s i of
        None \<Rightarrow> Some (s, Crash UseAfterFree)
      | Some c \<Rightarrow>
          (case psc_recvmsg (sock_ops env) PSC_MAX_RX_MSG_LEN (socks s (c_sock c)) of
             ((x, m), r) \<Rightarrow>
               let s1 = s\<lparr>socks := (socks s)(c_sock c := x)\<rparr>
               in (case r of
                     Ok ret \<Rightarrow>
                       (case (ret, m) of
                          (0, Some (k, bs)) \<Rightarrow> conf_recv env k bs s1
                        | _ \<Rightarrow> Some (leave_client env i s1))
                   | Throw e \<Rightarrow> Some (s1, Throw e)
                   | Crash e \<Rightarrow> Some (s1, Crash e))))"

section \<open>Sending\<close>

definition send_to :: "'s sockops \<Rightarrow> u16 \<Rightarrow> byte list \<Rightarrow> nat \<Rightarrow> client \<Rightarrow> ('s, 'z) server_scheme \<Rightarrow> ('s, 'z) server_scheme" where
  "send_to ops k bs i c s =
     (case psc_sendmsg ops k bs (socks s (c_sock c)) of
        (ret, x) \<Rightarrow>
          let s1 = s\<lparr>socks := (socks s)(c_sock c := x)\<rparr>
          in if ret \<noteq> 0 then srv_emit (SrvClose (c_sock c)) (upd_node i (\<lambda>c. c\<lparr>c_active := False\<rparr>) s1) else s1)"

text \<open>The loop along the list; \<open>None\<close> if it does not end.\<close>

partial_function (option) send_list ::
  "'s sockops \<Rightarrow> u16 \<Rightarrow> byte list \<Rightarrow> nat option \<Rightarrow> ('s, 'z) server_scheme \<Rightarrow> (('s, 'z) server_scheme \<times> unit outcome) option" where
  "send_list ops k bs p s =
     (case p of
        None \<Rightarrow> Some (s, Ok ())
      | Some i \<Rightarrow>
          (case nodes s i of
             None \<Rightarrow> Some (s, Crash UseAfterFree)
           | Some c \<Rightarrow> send_list ops k bs (c_next c) (if c_active c then send_to ops k bs i c s else s)))"

declare send_list.simps [code]

definition srv_send :: "'s sockops \<Rightarrow> u16 \<Rightarrow> byte list \<Rightarrow> ('s, 'z) server_scheme \<Rightarrow> (('s, 'z) server_scheme \<times> unit outcome) option" where
  "srv_send ops k bs s = send_list ops k bs (client_head s) s"

definition psc_send_one :: "'s sockops \<Rightarrow> nat \<Rightarrow> u16 \<Rightarrow> byte list \<Rightarrow> ('s, 'z) server_scheme \<Rightarrow> ('s, 'z) server_scheme \<times> unit outcome" where
  "psc_send_one ops i k bs s =
     (case nodes s i of
        None \<Rightarrow> (s, Crash UseAfterFree)
      | Some c \<Rightarrow> (send_to ops k bs i c s, Ok ()))"

section \<open>The list\<close>

text \<open>The nodes that are reached from a pointer.\<close>

fun chain :: "(nat \<Rightarrow> client option) \<Rightarrow> nat option \<Rightarrow> nat list \<Rightarrow> bool" where
  "chain h p [] \<longleftrightarrow> p = None"
| "chain h p (i # xs) \<longleftrightarrow> p = Some i \<and> (\<exists>c. h i = Some c \<and> chain h (c_next c) xs)"

definition unlinked :: "(nat \<Rightarrow> client option) \<Rightarrow> bool" where
  "unlinked h \<longleftrightarrow> (\<forall>i c. h i = Some c \<longrightarrow> c_prev c = None)"

text \<open>What the device does with its list, callbacks apart.\<close>

inductive srv_reach :: "('s, 'z) srv_env \<Rightarrow> ('s, 'z) server_scheme \<Rightarrow> bool" for env where
  new: "server.truncate s = server_new ss \<Longrightarrow> srv_reach env s"
| accept: "srv_reach env s \<Longrightarrow> accept_client sock mem thr s = (t, x) \<Longrightarrow> srv_reach env t"
| link: "srv_reach env s \<Longrightarrow> link_client i s = (t, Ok y) \<Longrightarrow> srv_reach env t"
| unlink: "srv_reach env s \<Longrightarrow> unlink_client i s = (t, Ok y) \<Longrightarrow> srv_reach env t"
| free: "srv_reach env s \<Longrightarrow> free_client i s = (t, Ok y) \<Longrightarrow> srv_reach env t"
| one: "srv_reach env s \<Longrightarrow> psc_send_one (sock_ops env) i k bs s = (t, Ok y) \<Longrightarrow> srv_reach env t"
| all: "srv_reach env s \<Longrightarrow> srv_send (sock_ops env) k bs s = Some (t, Ok y) \<Longrightarrow> srv_reach env t"
| sock: "srv_reach env s \<Longrightarrow> srv_reach env (s\<lparr>socks := ss\<rparr>)"

lemma chain_unique: "chain h p xs \<Longrightarrow> chain h p ys \<Longrightarrow> xs = ys"
proof (induction h p xs arbitrary: ys rule: chain.induct)
  case (1 h p)
  then show ?case by (cases ys) auto
next
  case (2 h p i xs)
  then show ?case by (cases ys) auto
qed

lemma chain_split: "chain h p (xs @ i # ys) \<Longrightarrow> chain h (Some i) (i # ys)"
  by (induction xs arbitrary: p) auto

lemma chain_distinct: "chain h p xs \<Longrightarrow> distinct xs"
proof (induction xs arbitrary: p)
  case (Cons i xs)
  then obtain c where c: "h i = Some c" "chain h (c_next c) xs" by auto
  have "i \<notin> set xs"
  proof
    assume "i \<in> set xs"
    then obtain as bs where "xs = as @ i # bs" using split_list by fast
    then have "chain h (Some i) (i # bs)" using c(2) chain_split by blast
    moreover have "chain h (Some i) (i # xs)" using c by simp
    ultimately have "i # bs = i # xs" by (rule chain_unique)
    then show False using \<open>xs = as @ i # bs\<close> by (metis length_append length_Cons list.inject not_add_less2 lessI)
  qed
  then show ?case using Cons.IH c(2) by simp
qed simp

lemma chain_frame:
  "chain h p xs \<Longrightarrow> \<forall>i \<in> set xs. map_option c_next (h' i) = map_option c_next (h i) \<Longrightarrow> chain h' p xs"
  by (induction h p xs rule: chain.induct) auto

lemma upd_node_sel [simp]:
  "nodes (upd_node i f s) = (nodes s)(i := map_option f (nodes s i))" "socks (upd_node i f s) = socks s"
  "client_head (upd_node i f s) = client_head s" "client_count (upd_node i f s) = client_count s"
  "nodes (srv_emit e s) = nodes s" "socks (srv_emit e s) = socks s" "client_head (srv_emit e s) = client_head s"
  "client_count (srv_emit e s) = client_count s" "next_node (upd_node i f s) = next_node s"
  "next_node (srv_emit e s) = next_node s"
  by (simp_all add: upd_node_def srv_emit_def)

lemma unlinked_upd: "unlinked h \<Longrightarrow> \<forall>c. c_prev c = None \<longrightarrow> c_prev (f c) = None \<Longrightarrow> unlinked (h(i := map_option f (h i)))"
  by (auto simp: unlinked_def)

lemma send_to_unlinked: "unlinked (nodes s) \<Longrightarrow> unlinked (nodes (send_to ops k bs i c s))"
  by (simp add: send_to_def Let_def unlinked_upd split: prod.split)

lemma send_list_unlinked:
  assumes "send_list ops k bs p s = Some y" and "unlinked (nodes s)"
  shows "unlinked (nodes (fst y))"
proof -
  have "unlinked (nodes s) \<longrightarrow> unlinked (nodes (fst y))"
  proof (rule send_list.raw_induct [OF _ assms(1)], goal_cases)
    case (1 f ops k bs p s y)
    show ?case
    proof (cases "\<exists>i c. p = Some i \<and> nodes s i = Some c")
      case True
      then obtain i c where c: "p = Some i" "nodes s i = Some c" by blast
      let ?s = "if c_active c then send_to ops k bs i c s else s"
      have "f ops k bs (c_next c) ?s = Some y" using 1(2) c by simp
      then have "unlinked (nodes ?s) \<longrightarrow> unlinked (nodes (fst y))" by (rule 1(1))
      then show ?thesis using send_to_unlinked [of s ops k bs i c] by (cases "c_active c") auto
    next
      case False
      then show ?thesis using 1(2) by (cases p) (auto split: option.splits)
    qed
  qed
  then show ?thesis using assms(2) by blast
qed

text \<open>No operation ever sets \<open>prev\<close>.\<close>

lemma reach_unlinked: "srv_reach env s \<Longrightarrow> unlinked (nodes s)"
proof (induction rule: srv_reach.induct)
  case (new s ss)
  from arg_cong [OF this, of nodes] show ?case by (simp add: unlinked_def server_new_def server.defs)
next
  case (accept s sock mem thr t x)
  then show ?case by (auto simp: accept_client_def unlinked_def split: if_splits)
next
  case (link s i t y)
  then show ?case by (auto simp: link_client_def unlinked_def split: if_splits)
next
  case (unlink s i t y)
  then show ?case
    by (auto simp: unlink_client_def unlinked_def Let_def split: option.splits if_splits)
next
  case (free s i t y)
  then show ?case by (auto simp: free_client_def unlinked_def split: option.splits if_splits)
next
  case (one s i k bs t y)
  then show ?case using send_to_unlinked by (fastforce simp: psc_send_one_def split: option.splits)
next
  case (all s k bs t y)
  then show ?case using send_list_unlinked unfolding srv_send_def by fastforce
qed simp

section \<open>Properties\<close>

lemma send_to_next: "map_option c_next (nodes (send_to ops k bs i c s) j) = map_option c_next (nodes s j)"
  by (simp add: send_to_def Let_def option.map_comp comp_def split: prod.split)

lemma send_list_step:
  "nodes s i = Some c \<Longrightarrow>
   send_list ops k bs (Some i) s = send_list ops k bs (c_next c) (if c_active c then send_to ops k bs i c s else s)"
  by (subst send_list.simps) simp

lemma send_list_total:
  "chain (nodes s) p xs \<Longrightarrow> \<exists>t. send_list ops k bs p s = Some (t, Ok ())"
proof (induction xs arbitrary: p s)
  case Nil
  then show ?case by (simp add: send_list.simps)
next
  case (Cons i xs)
  then obtain c where c: "p = Some i" "nodes s i = Some c" "chain (nodes s) (c_next c) xs" by auto
  let ?s = "if c_active c then send_to ops k bs i c s else s"
  have "chain (nodes ?s) (c_next c) xs" by (rule chain_frame [OF c(3)]) (simp add: send_to_next)
  then have "\<exists>t. send_list ops k bs (c_next c) ?s = Some (t, Ok ())" by (rule Cons.IH)
  then show ?case using c(1) send_list_step [OF c(2), of ops k bs] by simp
qed

definition wanted :: "(nat \<Rightarrow> client option) \<Rightarrow> u16 \<Rightarrow> byte list \<Rightarrow> nat \<Rightarrow> nat \<Rightarrow> byte list" where
  "wanted h k bs fd i = (case h i of Some c \<Rightarrow> if c_active c \<and> c_sock c = fd then frame k bs else [] | None \<Rightarrow> [])"

lemma send_list_out:
  assumes "sends ops f" and "chain (nodes s) p xs" and "send_list ops k bs p s = Some (t, y)"
  shows "nodes t = nodes s \<and> f (socks t fd) = f (socks s fd) @ concat (map (wanted (nodes s) k bs fd) xs)"
  using assms(2,3)
proof (induction xs arbitrary: p s)
  case Nil
  then show ?case by (simp add: send_list.simps)
next
  case (Cons i xs)
  then obtain c where c: "p = Some i" "nodes s i = Some c" "chain (nodes s) (c_next c) xs" by auto
  let ?s = "if c_active c then send_to ops k bs i c s else s"
  obtain x where "psc_sendmsg ops k bs (socks s (c_sock c)) = (0, x)" "f x = f (socks s (c_sock c)) @ frame k bs"
    using sendmsg_ok [OF assms(1)] by blast
  then have n: "nodes ?s = nodes s" "f (socks ?s fd) = f (socks s fd) @ wanted (nodes s) k bs fd i"
    using c(2) by (auto simp: send_to_def wanted_def)
  have "send_list ops k bs (c_next c) ?s = Some (t, y)"
    using Cons.prems(2) c(1) send_list_step [OF c(2), of ops k bs] by simp
  then show ?case using Cons.IH [of ?s "c_next c"] c(3) n by simp
qed

lemma send_list_head:
  assumes "chain (nodes s) p xs" and "send_list ops k bs p s = Some (t, y)"
  shows "client_head t = client_head s"
  using assms
proof (induction xs arbitrary: p s)
  case Nil
  then show ?case by (simp add: send_list.simps)
next
  case (Cons i xs)
  then obtain c where c: "p = Some i" "nodes s i = Some c" "chain (nodes s) (c_next c) xs" by auto
  let ?s = "if c_active c then send_to ops k bs i c s else s"
  have "chain (nodes ?s) (c_next c) xs" by (rule chain_frame [OF c(3)]) (simp add: send_to_next)
  moreover have "client_head ?s = client_head s" by (simp add: send_to_def Let_def split: prod.split)
  ultimately show ?case using Cons.IH [of ?s "c_next c"] Cons.prems(2) c(1) send_list_step [OF c(2), of ops k bs] by simp
qed

text \<open>
  The server implements the interface of servers while its sockets work. The peers are the active clients of the
  list; each has a socket of its own.
\<close>

definition listed :: "('s, 'z) server_scheme \<Rightarrow> nat set" where
  "listed s = {i. \<exists>xs. chain (nodes s) (client_head s) xs \<and> i \<in> set xs}"

definition srv_peers :: "('s, 'z) server_scheme \<Rightarrow> nat set" where
  "srv_peers s = {fd. \<exists>i \<in> listed s. \<exists>c. nodes s i = Some c \<and> c_active c \<and> c_sock c = fd}"

definition own_socks :: "(nat \<Rightarrow> client option) \<Rightarrow> nat list \<Rightarrow> bool" where
  "own_socks h xs \<longleftrightarrow> distinct (map (\<lambda>i. map_option c_sock (h i)) xs)"

lemma wanted_once:
  assumes "own_socks h xs" and "\<exists>i \<in> set xs. \<exists>c. h i = Some c \<and> c_active c \<and> c_sock c = fd"
  shows "concat (map (wanted h k bs fd) xs) = frame k bs"
  using assms
proof (induction xs)
  case (Cons i xs)
  have none: "concat (map (wanted h k bs fd) xs) = []" if "map_option c_sock (h i) = Some fd"
  proof -
    have "map_option c_sock (h j) \<noteq> Some fd" if "j \<in> set xs" for j
      using Cons.prems(1) that \<open>map_option c_sock (h i) = Some fd\<close> by (force simp: own_socks_def)
    then show ?thesis by (auto simp: wanted_def split: option.splits)
  qed
  have o: "own_socks h xs" using Cons.prems(1) by (simp add: own_socks_def)
  show ?case
  proof (cases "\<exists>c. h i = Some c \<and> c_active c \<and> c_sock c = fd")
    case True
    then show ?thesis using none by (auto simp: wanted_def)
  next
    case False
    then have "\<exists>j \<in> set xs. \<exists>c. h j = Some c \<and> c_active c \<and> c_sock c = fd" using Cons.prems(2) by auto
    moreover have "wanted h k bs fd i = []" using False by (auto simp: wanted_def split: option.splits)
    ultimately show ?thesis using Cons.IH [OF o] by simp
  qed
qed simp

definition srv_valid :: "'s sockops \<Rightarrow> ('s \<Rightarrow> byte list) \<Rightarrow> ('s, 'z) server_scheme \<Rightarrow> bool" where
  "srv_valid ops out' s \<longleftrightarrow>
     sends ops out' \<and> (\<exists>xs. chain (nodes s) (client_head s) xs \<and> own_socks (nodes s) xs)"

interpretation srv: lossless_broadcaster "srv_valid ops out'" "srv_send ops" srv_peers "\<lambda>s fd. out' (socks s fd)"
  for ops :: "'s sockops" and out'
proof unfold_locales
  have ok: "\<exists>t. srv_send ops k bs s = Some (t, Ok ()) \<and> srv_valid ops out' t \<and> srv_peers t = srv_peers s \<and>
      (\<forall>c \<in> srv_peers s. out' (socks t c) = out' (socks s c) @ frame k bs)" if v0: "srv_valid ops out' s" for s k bs
  proof -
    obtain xs where v: "sends ops out'" "chain (nodes s) (client_head s) xs" "own_socks (nodes s) xs"
      using v0 by (auto simp: srv_valid_def)
    obtain t where t: "send_list ops k bs (client_head s) s = Some (t, Ok ())" using send_list_total [OF v(2)] by blast
    have n: "nodes t = nodes s" "out' (socks t fd) = out' (socks s fd) @ concat (map (wanted (nodes s) k bs fd) xs)" for fd
      using send_list_out [OF v(1,2) t] by blast+
    have h: "client_head t = client_head s" by (rule send_list_head [OF v(2) t])
    have l: "listed s = set xs" using v(2) chain_unique unfolding listed_def by blast
    have "out' (socks t fd) = out' (socks s fd) @ frame k bs" if "fd \<in> srv_peers s" for fd
      using that wanted_once [OF v(3)] n(2) by (simp add: srv_peers_def l)
    moreover have "srv_valid ops out' t" "srv_peers t = srv_peers s"
      using v n(1) h by (auto simp: srv_valid_def srv_peers_def listed_def)
    ultimately show ?thesis using t unfolding srv_send_def by blast
  qed
  fix s t :: "('s, 'z) server_scheme" and k bs
  assume v: "srv_valid ops out' s"
  show "\<exists>t. srv_send ops k bs s = Some (t, Ok ()) \<and> srv_valid ops out' t \<and> srv_peers t = srv_peers s \<and>
      (\<forall>c \<in> srv_peers s. out' (socks t c) = out' (socks s c) @ frame k bs \<or> out' (socks t c) = out' (socks s c))"
    using ok [OF v] by blast
  show "out' (socks t c) = out' (socks s c) @ frame k bs"
    if "srv_send ops k bs s = Some (t, Ok ())" "c \<in> srv_peers s" for c
    using ok [OF v, of k bs] that by auto
qed

text \<open>
  C22: Sending to all clients. On a list of clients the loop ends without a crash, whether sockets fail or not;
  and while they work, every active client in the list gets the message as one frame, and nobody else
  gets anything.
\<close>

theorem server_broadcast:
  assumes "chain (nodes s) (client_head s) xs"
  shows "\<exists>t. srv_send ops k bs s = Some (t, Ok ()) \<and>
    (\<forall>f. sends ops f \<longrightarrow> nodes t = nodes s \<and>
       (\<forall>fd. f (socks t fd) = f (socks s fd) @ concat (map (wanted (nodes s) k bs fd) xs)))"
proof -
  obtain t where t: "send_list ops k bs (client_head s) s = Some (t, Ok ())"
    using send_list_total [OF assms] by blast
  show ?thesis
    unfolding srv_send_def using t send_list_out [OF _ assms t] by blast
qed

text \<open>
  C37: When a client leaves. Since \<open>prev\<close> is never set, the pointer to the first client is set to the
  successor of the one that leaves: all clients that came later are no longer in the list, and get nothing any more.
  The one directly before it keeps a pointer to the freed node, and its own end writes to it.
\<close>

theorem server_leave:
  assumes "srv_reach env s" and "chain (nodes s) (client_head s) (xs @ i # ys)"
    and "unlink_client i s = (t, Ok y)" and "free_client i t = (u, Ok z)"
  shows "chain (nodes u) (client_head u) ys \<and>
    (\<forall>ws a. xs = ws @ [a] \<longrightarrow> snd (unlink_client a u) = Crash UseAfterFree)"
proof -
  have ch: "chain (nodes s) (Some i) (i # ys)" by (rule chain_split [OF assms(2)])
  then obtain c where c: "nodes s i = Some c" "chain (nodes s) (c_next c) ys" by auto
  have p: "c_prev c = None" using reach_unlinked [OF assms(1)] c(1) by (simp add: unlinked_def)
  let ?f = "\<lambda>h. (case c_next c of Some n \<Rightarrow> h(n := map_option (\<lambda>x. x\<lparr>c_prev := None\<rparr>) (h n)) | None \<Rightarrow> h)"
  have t: "client_head t = c_next c" "nodes t = ?f (nodes s)"
    using assms(3) c(1) p by (auto simp: unlink_client_def Let_def split: option.splits if_splits)
  have u: "client_head u = client_head t" "nodes u = (nodes t)(i := None)"
    using assms(4) by (auto simp: free_client_def srv_emit_def split: option.splits)
  have d: "distinct (xs @ i # ys)" by (rule chain_distinct [OF assms(2)])
  have same: "map_option c_next (nodes t j) = map_option c_next (nodes s j)" for j
    using t(2) by (cases "c_next c") (auto simp: option.map_comp comp_def)
  have "chain (nodes u) (c_next c) ys"
    by (rule chain_frame [OF c(2)]) (use d u(2) same in auto)
  moreover have "snd (unlink_client a u) = Crash UseAfterFree" if "xs = ws @ [a]" for ws a
  proof -
    have "chain (nodes s) (Some a) (a # i # ys)" using assms(2) that chain_split [of _ _ ws a "i # ys"] by simp
    then obtain b where b: "nodes s a = Some b" "c_next b = Some i" by auto
    obtain b' where "nodes t a = Some b'" "c_next b' = Some i" using same [of a] b by (cases "nodes t a") auto
    moreover have "a \<noteq> i" using d that by auto
    ultimately show ?thesis using u(2) by (simp add: unlink_client_def)
  qed
  ultimately show ?thesis using t(1) u(1) by simp
qed

text \<open>Two clients, the second linked before the first.\<close>

definition demo_server :: "byte_sock server" where
  "demo_server =
     (let (s1, _) = accept_client 3 True True (server_new (\<lambda>_. \<lparr>s_out = [], s_in = []\<rparr>)); (s2, _) = link_client 0 s1;
          (s3, _) = accept_client 4 True True s2
      in fst (link_client (Suc 0) s3))"

definition demo_srv_env :: "(byte_sock, unit) srv_env" where
  "demo_srv_env = \<lparr>sock_ops = byte_ops, conf_conn = (\<lambda>_ s. (s, Ok ())), conf_recv = (\<lambda>_ _ s. Some (s, Ok ()))\<rparr>"

lemma four_le: "\<not> (4 :: u32) \<le> 1" "\<not> (4 :: u32) \<le> 0"
  by (simp_all add: word_le_nat_alt)

lemma demo_server_fields:
  "client_head demo_server = Some (Suc 0)" "socks demo_server = (\<lambda>_. \<lparr>s_out = [], s_in = []\<rparr>)"
  "nodes demo_server 0 = Some \<lparr>c_prev = None, c_next = None, c_active = True, c_sock = 3\<rparr>"
  "nodes demo_server (Suc 0) = Some \<lparr>c_prev = None, c_next = Some 0, c_active = True, c_sock = 4\<rparr>"
  by (simp_all add: demo_server_def server_new_def accept_client_def link_client_def upd_node_def four_le)

lemma demo_server_chain: "chain (nodes demo_server) (client_head demo_server) [Suc 0, 0]"
  by (simp add: demo_server_fields)

lemma demo_server_reach: "srv_reach demo_srv_env demo_server"
proof -
  let ?s0 = "server_new (\<lambda>_. \<lparr>s_out = [], s_in = []\<rparr>) :: byte_sock server"
  obtain s1 where 1: "accept_client 3 True True ?s0 = (s1, Some 0)"
    by (simp add: accept_client_def server_new_def)
  obtain s2 where 2: "link_client 0 s1 = (s2, Ok ())"
    using 1 by (auto simp: accept_client_def server_new_def link_client_def)
  obtain s3 where 3: "accept_client 4 True True s2 = (s3, Some (Suc 0))"
    using 1 2 by (auto simp: accept_client_def server_new_def link_client_def upd_node_def four_le)
  obtain s4 where 4: "link_client (Suc 0) s3 = (s4, Ok ())"
    using 3 by (auto simp: accept_client_def link_client_def split: if_splits)
  have "demo_server = s4" using 1 2 3 4 by (simp add: demo_server_def)
  moreover have "srv_reach demo_srv_env ?s0" by (rule srv_reach.new) (simp add: server.defs server_new_def)
  from srv_reach.link [OF srv_reach.accept [OF srv_reach.link [OF srv_reach.accept [OF this 1] 2] 3] 4]
  have "srv_reach demo_srv_env s4" .
  ultimately show ?thesis by simp
qed

theorem server_broadcast_witness:
  "\<exists>t. srv_send byte_ops 7 [1] demo_server = Some (t, Ok ()) \<and>
     s_out (socks t 3) = frame 7 [1] \<and> s_out (socks t 4) = frame 7 [1] \<and> s_out (socks t 5) = []"
proof -
  have o: "sends byte_ops s_out" by (rule byte_ops_ok)
  obtain t where t: "srv_send byte_ops 7 [1] demo_server = Some (t, Ok ())"
    "\<forall>fd. s_out (socks t fd) = s_out (socks demo_server fd) @ concat (map (wanted (nodes demo_server) 7 [1] fd) [Suc 0, 0])"
    using server_broadcast [OF demo_server_chain, of byte_ops 7 "[1]"] o by blast
  then show ?thesis by (simp add: wanted_def demo_server_fields)
qed

theorem server_leave_witness:
  "\<exists>t u. unlink_client 0 demo_server = (t, Ok ()) \<and> free_client 0 t = (u, Ok ()) \<and>
     chain (nodes u) (client_head u) [] \<and> snd (unlink_client (Suc 0) u) = Crash UseAfterFree"
proof -
  obtain t where t: "unlink_client 0 demo_server = (t, Ok ())"
    by (simp add: unlink_client_def demo_server_fields)
  then have "nodes t 0 \<noteq> None" by (auto simp: unlink_client_def demo_server_fields)
  then obtain u where u: "free_client 0 t = (u, Ok ())" by (auto simp: free_client_def)
  have c: "chain (nodes demo_server) (client_head demo_server) ([Suc 0] @ 0 # [])" using demo_server_chain by simp
  show ?thesis using server_leave [OF demo_server_reach c t u] t u by blast
qed

end
