(* ===== verification/Target_App.thy ===== *)
theory Target_App
  imports Target_Server Dev_Common
begin

text \<open>
  The example application of the embedded target (targetApp/pscapp.c): it greets each client, sends every message
  back to all clients under a number that is 10 higher, and sends a counter every two seconds, which a message of its own
  turns on and off.

  The globals extend the state of the server: \<open>app_key\<close> tells whether \<open>psc_run\<close> has set the key. \<open>le\<close> is the byte
  order of the device; it sends and receives integers in its own order.
\<close>

record 's app = "'s server" +
  app_key :: bool
  clicount :: u32
  sendperiodic :: u32

definition app_new :: "(nat \<Rightarrow> 's) \<Rightarrow> 's app" where
  "app_new ss = server.extend (server_new ss) \<lparr>app_key = False, clicount = 0, sendperiodic = 1\<rparr>"

definition psc_run_app ::
  "bool \<Rightarrow> bool \<Rightarrow> bool \<Rightarrow> bool \<Rightarrow> bool \<Rightarrow> 's app \<Rightarrow> 's app" where
  "psc_run_app memory mutex sock bound listening s =
     (case psc_run_start (app_key s) memory mutex sock bound listening (socks s) of
        None \<Rightarrow> s
      | Some v \<Rightarrow> server.extend v \<lparr>app_key = True, clicount = clicount s, sendperiodic = sendperiodic s\<rparr>)"

text \<open>\<open>psc_send\<close> with the key, which has no effect before it is set.\<close>

definition key_send :: "'s sockops \<Rightarrow> u16 \<Rightarrow> byte list \<Rightarrow> 's app \<Rightarrow> ('s app \<times> unit outcome) option" where
  "key_send ops k bs s = (if app_key s then srv_send ops k bs s else Some (s, Ok ()))"

definition hello :: "byte list" where
  "hello = [104, 101, 108, 108, 111, 32, 119, 111, 114, 108, 100, 33]"

definition app_onconn :: "'s sockops \<Rightarrow> bool \<Rightarrow> srv_event \<Rightarrow> 's app \<Rightarrow> 's app \<times> unit outcome" where
  "app_onconn ops le evt s =
     (case evt of
        SrvConn cli \<Rightarrow>
          (case psc_send_one ops cli 42 hello s of
             (s1, Ok _) \<Rightarrow> psc_send_one ops cli 55 (host32 le (clicount s1)) s1
           | (s1, r) \<Rightarrow> (s1, r))
      | _ \<Rightarrow> (s, Ok ()))"

definition rxmsg :: "'s sockops \<Rightarrow> bool \<Rightarrow> u16 \<Rightarrow> byte list \<Rightarrow> 's app \<Rightarrow> ('s app \<times> unit outcome) option" where
  "rxmsg ops le msgid msg s =
     (if msgid \<noteq> 99 \<or> length msg \<noteq> 4 then key_send ops (msgid + 10) msg s
      else Some (s\<lparr>sendperiodic := unhost32 le msg\<rparr>, Ok ()))"

definition app_conf :: "'s sockops \<Rightarrow> bool \<Rightarrow> ('s, unit app_ext) srv_env" where
  "app_conf ops le = \<lparr>sock_ops = ops, conf_conn = app_onconn ops le, conf_recv = rxmsg ops le\<rparr>"

text \<open>One turn of the thread that sends the counter.\<close>

definition periodic :: "'s sockops \<Rightarrow> bool \<Rightarrow> u32 \<Rightarrow> 's app \<Rightarrow> (u32 \<times> 's app \<times> unit outcome) option" where
  "periodic ops le count s =
     map_option (\<lambda>y. (count + 1, y))
       (if sendperiodic s \<noteq> 0 then key_send ops 14 (host32 le count) s else Some (s, Ok ()))"

section \<open>Sockets in both directions\<close>

text \<open>
  A socket as the device uses it: it sends and receives, and the one does not disturb the other.
\<close>

definition duplex :: "'s sockops \<Rightarrow> ('s \<Rightarrow> byte list) \<Rightarrow> ('s \<Rightarrow> byte list) \<Rightarrow> bool" where
  "duplex ops out' inp \<longleftrightarrow> sends ops out' \<and> recvs ops inp \<and>
     (\<forall>n s. out' (snd (sk_recv ops n s)) = out' s) \<and> (\<forall>buf s. inp (snd (sk_send ops buf s)) = inp s)"

lemma recvall_keeps:
  "\<forall>n s. f (snd (sk_recv ops n s)) = f s \<Longrightarrow> f (snd (snd (psc_recvall ops n s))) = f s"
proof (induction ops n s rule: psc_recvall.induct)
  case (1 ops n s)
  obtain x s1 where x: "sk_recv ops n s = (x, s1)" by (cases "sk_recv ops n s")
  have s1: "f s1 = f s" using 1(2) x by (metis snd_conv)
  show ?case
  proof (cases "n = 0 \<or> (\<exists>e. x = Inl e) \<or> x = Inr []")
    case True
    then show ?thesis using x s1 by (auto simp: psc_recvall.simps [of ops n])
  next
    case False
    then obtain bs where bs: "x = Inr bs" "bs \<noteq> []" "n \<noteq> 0" by (cases x) auto
    then have "f (snd (snd (psc_recvall ops (n - length bs) s1))) = f s1" using 1 x by simp
    then show ?thesis using x s1 bs by (simp add: psc_recvall.simps [of ops n] split_beta)
  qed
qed

lemma recvskip_keeps:
  "\<forall>n s. f (snd (sk_recv ops n s)) = f s \<Longrightarrow> f (fst (psc_recvskip ops n s)) = f s"
proof (induction ops n s rule: psc_recvskip.induct)
  case (1 ops n s)
  have last: "f (snd (snd (psc_recvall ops m r))) = f r" for m r by (rule recvall_keeps [OF 1(2)])
  obtain e bs s1 where r: "psc_recvall ops 128 s = (e, bs, s1)" by (cases "psc_recvall ops 128 s")
  have s1: "f s1 = f s" using last [of 128 s] r by simp
  have a: "f (fst (case psc_recvall ops n q of (e, bs, s1) \<Rightarrow> (s1, if length bs > 128 then Crash OutOfBounds else Ok e))) = f q" for q
    using last [of n q] by (simp add: split_beta)
  show ?case
  proof (cases "n > 128 \<and> e = 0")
    case True
    then have "n > 128" "e = 0" by simp_all
    from "1.IH" [OF refl this(1) r [symmetric] refl this(2) "1.prems"]
    have "f (fst (psc_recvskip ops (n - 128) s1)) = f s1" .
    moreover have "psc_recvskip ops n s = psc_recvskip ops (n - 128) s1"
      using True r by (subst psc_recvskip.simps) (simp add: Let_def)
    ultimately show ?thesis using s1 by simp
  next
    case False
    let ?q = "if n > 128 then s1 else s"
    have "psc_recvskip ops n s =
        (case psc_recvall ops n ?q of (e, bs, s1) \<Rightarrow> (s1, if length bs > 128 then Crash OutOfBounds else Ok e))"
      using False r by (subst psc_recvskip.simps) (auto simp: Let_def)
    then show ?thesis using a [of ?q] s1 by simp
  qed
qed

lemma recvmsg_keeps:
  assumes "\<forall>n s. f (snd (sk_recv ops n s)) = f s"
  shows "f (fst (fst (psc_recvmsg ops maxlen s))) = f s"
proof -
  note a = recvall_keeps [where f = f and ops = ops, OF assms] and k = recvskip_keeps [where f = f and ops = ops, OF assms]
  have h: "f (fst (psc_recvhead ops s)) = f s"
    using a [of 8 s] by (simp add: psc_recvhead_def split_beta)
  obtain s1 ret m where r: "psc_recvhead ops s = (s1, ret, m)" by (cases "psc_recvhead ops s")
  show ?thesis
  proof (cases m)
    case None
    then show ?thesis using r h by (simp add: psc_recvmsg_def)
  next
    case (Some km)
    obtain mid mlen where km: "km = (mid, mlen)" by (cases km)
    let ?rlen = "if mlen > maxlen then maxlen else mlen"
    obtain e bs s2 where b: "psc_recvall ops (unat ?rlen) s1 = (e, bs, s2)" by (cases "psc_recvall ops (unat ?rlen) s1")
    have s2: "f s2 = f s" using a [of "unat ?rlen" s1] b h r by simp
    have "f (fst (psc_recvskip ops n s2)) = f s" for n using k [of n s2] s2 by simp
    then show ?thesis using r Some km b s2 by (simp add: psc_recvmsg_def Let_def split_beta)
  qed
qed

lemma sendall_keeps:
  "\<forall>buf s. f (snd (sk_send ops buf s)) = f s \<Longrightarrow> f (snd (psc_sendall ops buf s)) = f s"
proof (induction ops buf s rule: psc_sendall.induct)
  case (1 ops buf s)
  obtain x s1 where x: "sk_send ops buf s = (x, s1)" by (cases "sk_send ops buf s")
  have s1: "f s1 = f s" using 1(2) x by (metis snd_conv)
  show ?case
  proof (cases "buf = [] \<or> (\<exists>e. x = Inl e) \<or> x = Inr 0")
    case True
    then show ?thesis using x s1 by (auto simp: psc_sendall.simps [of ops buf])
  next
    case False
    then obtain n where n: "x = Inr n" "n \<noteq> 0" "buf \<noteq> []" by (cases x) auto
    then have "f (snd (psc_sendall ops (drop n buf) s1)) = f s1" using 1 x by simp
    then show ?thesis using x s1 n by (simp add: psc_sendall.simps [of ops buf])
  qed
qed

lemma sendmsg_keeps:
  assumes "\<forall>buf s. f (snd (sk_send ops buf s)) = f s"
  shows "f (snd (psc_sendmsg ops k bs s)) = f s"
proof -
  note a = sendall_keeps [where f = f and ops = ops, OF assms]
  obtain ret s1 where r: "psc_sendhead ops k (of_nat (length bs)) s = (ret, s1)"
    by (cases "psc_sendhead ops k (of_nat (length bs)) s")
  have "f s1 = f s" using a r unfolding psc_sendhead_def by (metis snd_conv)
  then show ?thesis using r a [of bs s1] by (simp add: psc_sendmsg_def)
qed

lemma send_list_keeps:
  assumes "duplex ops out' inp" and "chain (nodes s) p xs" and "send_list ops k bs p s = Some (t, y)"
  shows "inp (socks t fd) = inp (socks s fd) \<and> server.more t = server.more s"
  using assms(2,3)
proof (induction xs arbitrary: p s)
  case Nil
  then show ?case by (simp add: send_list.simps)
next
  case (Cons i xs)
  then obtain c where c: "p = Some i" "nodes s i = Some c" "chain (nodes s) (c_next c) xs" by auto
  let ?s = "if c_active c then send_to ops k bs i c s else s"
  have "inp (snd (psc_sendmsg ops k bs x)) = inp x" for x
    using assms(1) by (intro sendmsg_keeps) (simp add: duplex_def)
  from this [of "socks s (c_sock c)"] have n: "inp (socks ?s fd) = inp (socks s fd)" "server.more ?s = server.more s"
    by (simp_all add: send_to_def Let_def split_beta srv_emit_def upd_node_def)
  have "chain (nodes ?s) (c_next c) xs" by (rule chain_frame [OF c(3)]) (simp add: send_to_next)
  moreover have "send_list ops k bs (c_next c) ?s = Some (t, y)"
    using Cons.prems(2) c(1) send_list_step [OF c(2), of ops k bs] by simp
  ultimately show ?case using Cons.IH [of ?s "c_next c"] n by simp
qed

lemma srv_send_keeps:
  assumes "duplex ops out' inp" and "srv_valid ops out' s" and "srv_send ops k bs s = Some (t, y)"
  shows "nodes t = nodes s \<and> inp (socks t fd) = inp (socks s fd) \<and> server.more t = server.more s"
proof -
  obtain xs where xs: "chain (nodes s) (client_head s) xs" using assms(2) by (auto simp: srv_valid_def)
  have "sends ops out'" using assms(1) by (simp add: duplex_def)
  then show ?thesis
    using send_list_out [OF _ xs] send_list_keeps [OF assms(1) xs] assms(3) unfolding srv_send_def by blast
qed

section \<open>The service\<close>

text \<open>What the application sends back for a message, of which at most \<open>PSC_MAX_RX_MSG_LEN\<close> bytes are kept.\<close>

definition app_reply :: "u16 \<times> byte list \<Rightarrow> (u16 \<times> byte list) list" where
  "app_reply m = (let bs = take 1024 (snd m) in if fst m = 99 \<and> length bs = 4 then [] else [(fst m + 10, bs)])"

text \<open>The state of a device that works, with the client \<open>i\<close>.\<close>

definition app_serving :: "'s sockops \<Rightarrow> ('s \<Rightarrow> byte list) \<Rightarrow> nat \<Rightarrow> nat \<Rightarrow> 's app \<Rightarrow> bool" where
  "app_serving ops out' i fd s \<longleftrightarrow> srv_valid ops out' s \<and> app_key s \<and> (\<exists>c. nodes s i = Some c \<and> c_sock c = fd)"

lemma app_key_more: "server.more t = server.more s \<Longrightarrow> app_key t = app_key s"
  by (cases s; cases t; simp)

lemma serve_round:
  assumes "duplex ops out' inp" and "app_serving ops out' i fd s"
    and "inp (socks s fd) = frame (fst m) (snd m) @ rest" and "length (snd m) < 2 ^ 32"
  shows "\<exists>t. serve_client (app_conf ops le) i s = Some (t, Ok ()) \<and> app_serving ops out' i fd t \<and>
    inp (socks t fd) = rest \<and> srv_peers t = srv_peers s \<and>
    (\<forall>p \<in> srv_peers s. out' (socks t p) = out' (socks s p) @ frames (app_reply m))"
proof -
  obtain c where c: "nodes s i = Some c" "c_sock c = fd" "srv_valid ops out' s" "app_key s"
    using assms(2) by (auto simp: app_serving_def)
  let ?bs = "take 1024 (snd m)"
  have r: "recvs ops inp" using assms(1) by (simp add: duplex_def)
  obtain x where x: "psc_recvmsg ops 1024 (socks s fd) = ((x, Some (fst m, ?bs)), Ok 0)" "inp x = rest"
    using recvmsg_ok [OF r assms(4,3), of 1024] by auto
  have "out' (fst (fst (psc_recvmsg ops 1024 (socks s fd)))) = out' (socks s fd)"
    using assms(1) by (intro recvmsg_keeps) (simp add: duplex_def)
  then have ox: "out' x = out' (socks s fd)" using x by simp
  let ?s = "s\<lparr>socks := (socks s)(fd := x)\<rparr>"
  have v: "srv_valid ops out' ?s" "srv_peers ?s = srv_peers s" "app_key ?s"
    using c(3,4) by (simp_all add: srv_valid_def srv_peers_def listed_def)
  have o: "out' (socks ?s p) = out' (socks s p)" for p using ox by simp
  have sv: "serve_client (app_conf ops le) i s = rxmsg ops le (fst m) ?bs ?s"
    using c(1,2) x(1) by (simp add: serve_client_def app_conf_def Let_def)
  show ?thesis
  proof (cases "fst m = 99 \<and> length ?bs = 4")
    case True
    let ?t = "?s\<lparr>sendperiodic := unhost32 le ?bs\<rparr>"
    have "serve_client (app_conf ops le) i s = Some (?t, Ok ())" using True sv by (simp add: rxmsg_def)
    moreover have "app_serving ops out' i fd ?t" "srv_peers ?t = srv_peers s"
      using v c(1,2) by (auto simp: app_serving_def srv_valid_def srv_peers_def listed_def)
    ultimately show ?thesis using True x(2) ox by (auto simp: app_reply_def)
  next
    case False
    obtain t where t: "srv_send ops (fst m + 10) ?bs ?s = Some (t, Ok ())" "srv_valid ops out' t" "srv_peers t = srv_peers ?s"
      using srv.snd_all_ok [OF v(1)] by blast
    have n: "nodes t = nodes s" "inp (socks t fd) = rest" "app_key t"
      using srv_send_keeps [OF assms(1) v(1) t(1), of fd] x(2) v(3) app_key_more [of t ?s] by auto
    have "serve_client (app_conf ops le) i s = Some (t, Ok ())"
      using False sv t(1) v(3) by (auto simp: rxmsg_def key_send_def)
    moreover have "app_serving ops out' i fd t" using t(2) n c(1,2) by (auto simp: app_serving_def)
    moreover have "out' (socks t p) = out' (socks s p) @ frames (app_reply m)" if "p \<in> srv_peers s" for p
      using srv.snd_all_full [OF v(1) t(1)] that v(2) o False by (auto simp: app_reply_def Let_def)
    ultimately show ?thesis using n(2) t(3) v(2) by blast
  qed
qed

text \<open>The first rounds of the thread of a client, as long as they succeed.\<close>

fun serve_rounds :: "('s, unit app_ext) srv_env \<Rightarrow> nat \<Rightarrow> nat \<Rightarrow> 's app \<Rightarrow> ('s app \<times> unit outcome) option" where
  "serve_rounds env i 0 s = Some (s, Ok ())"
| "serve_rounds env i (Suc n) s =
     (case serve_client env i s of
        Some (t, Ok _) \<Rightarrow> serve_rounds env i n t
      | r \<Rightarrow> r)"

lemma serve_rounds_ok:
  assumes "duplex ops out' inp" and "app_serving ops out' i fd s"
    and "inp (socks s fd) = frames ms" and "\<forall>m \<in> set ms. length (snd m) < 2 ^ 32"
  shows "\<exists>t. serve_rounds (app_conf ops le) i (length ms) s = Some (t, Ok ()) \<and> app_serving ops out' i fd t \<and>
    inp (socks t fd) = [] \<and> srv_peers t = srv_peers s \<and>
    (\<forall>p \<in> srv_peers s. out' (socks t p) = out' (socks s p) @ frames (concat (map app_reply ms)))"
  using assms(2-4)
proof (induction ms arbitrary: s)
  case (Cons m ms)
  obtain t where t: "serve_client (app_conf ops le) i s = Some (t, Ok ())" "app_serving ops out' i fd t"
    "inp (socks t fd) = frames ms" "srv_peers t = srv_peers s"
    "\<forall>p \<in> srv_peers s. out' (socks t p) = out' (socks s p) @ frames (app_reply m)"
    using serve_round [OF assms(1) Cons.prems(1), of m "frames ms" le] Cons.prems(2,3) by auto
  obtain u where u: "serve_rounds (app_conf ops le) i (length ms) t = Some (u, Ok ())" "app_serving ops out' i fd u"
    "inp (socks u fd) = []" "srv_peers u = srv_peers t"
    "\<forall>p \<in> srv_peers t. out' (socks u p) = out' (socks t p) @ frames (concat (map app_reply ms))"
    using Cons.IH [OF t(2,3)] Cons.prems(3) by auto
  show ?case using t u by simp
qed simp

section \<open>Properties\<close>

text \<open>
  The greeting. A client that connects to a device with a working socket gets two frames: the text
  and the number of clients in the byte order of the device, which is always 0. It gets them before
  the server has entered it in the list.
\<close>

theorem app_greets:
  assumes "sends ops out'" and "accept_client fd mem thr s = (t, Some i)" and "clicount s = 0"
  shows "\<exists>u. start_client (app_conf ops le) i t = (u, Ok ()) \<and> client_head u = client_head s \<and> clicount u = 0 \<and>
    out' (socks u fd) = out' (socks s fd) @ frames [(42, hello), (55, [0, 0, 0, 0])] \<and>
    (\<forall>p. p \<noteq> fd \<longrightarrow> socks u p = socks s p)"
proof -
  let ?c = "\<lparr>c_prev = None, c_next = None, c_active = False, c_sock = fd\<rparr>"
  have t: "nodes t i = Some ?c" "client_head t = client_head s" "socks t = socks s" "clicount t = 0"
    using assms(2,3) by (auto simp: accept_client_def split: if_splits)
  let ?t = "srv_emit (SrvConn i) t"
  obtain x where x: "psc_sendmsg ops 42 hello (socks t fd) = (0, x)" "out' x = out' (socks s fd) @ frame 42 hello"
    using sendmsg_ok [OF assms(1)] t(3) by metis
  let ?u = "?t\<lparr>socks := (socks t)(fd := x)\<rparr>"
  have one: "psc_send_one ops i 42 hello ?t = (?u, Ok ())"
    using t x(1) by (simp add: psc_send_one_def send_to_def)
  obtain y where y: "psc_sendmsg ops 55 [0, 0, 0, 0] x = (0, y)" "out' y = out' x @ frame 55 [0, 0, 0, 0]"
    using sendmsg_ok [OF assms(1)] by metis
  let ?v = "?t\<lparr>socks := (socks t)(fd := y)\<rparr>"
  have "host32 le 0 = [0, 0, 0, 0]" by (simp add: host32_def host_order_def be32_def)
  then have "psc_send_one ops i 55 (host32 le (clicount ?u)) ?u = (?v, Ok ())"
    using t y(1) by (simp add: psc_send_one_def send_to_def srv_emit_def)
  then have "start_client (app_conf ops le) i t = (?v, Ok ())"
    using one by (simp add: start_client_def app_conf_def app_onconn_def)
  then show ?thesis using t x(2) y(2) by (auto simp: srv_emit_def)
qed

lemma byte_ops_duplex: "duplex byte_ops s_out s_in"
  by (simp add: duplex_def byte_ops_ok) (simp add: byte_ops_def)

text \<open>A device with two clients, of which the first has sent \<open>bs\<close>.\<close>

definition demo_app :: "byte list \<Rightarrow> byte_sock app" where
  "demo_app bs =
     server.extend (demo_server\<lparr>socks := (socks demo_server)(3 := \<lparr>s_out = [], s_in = bs\<rparr>)\<rparr>)
       \<lparr>app_key = True, clicount = 0, sendperiodic = 1\<rparr>"

lemma demo_app_serving:
  "app_serving byte_ops s_out 0 3 (demo_app bs)" "s_in (socks (demo_app bs) 3) = bs" "3 \<in> srv_peers (demo_app bs)"
  "s_out (socks (demo_app bs) 3) = []"
proof -
  have f: "nodes (demo_app bs) = nodes demo_server" "client_head (demo_app bs) = client_head demo_server" "app_key (demo_app bs)"
    by (simp_all add: demo_app_def server.defs)
  have c: "chain (nodes demo_server) (client_head demo_server) [Suc 0, 0]" by (rule demo_server_chain)
  have o: "own_socks (nodes demo_server) [Suc 0, 0]" by (simp add: own_socks_def demo_server_fields)
  show "app_serving byte_ops s_out 0 3 (demo_app bs)"
    using c o byte_ops_ok(1) f(3) demo_server_fields(3) unfolding app_serving_def srv_valid_def f by force
  have "0 \<in> listed (demo_app bs)" using c unfolding listed_def f by (auto intro: exI [of _ "[Suc 0, 0]"])
  then show "3 \<in> srv_peers (demo_app bs)" unfolding srv_peers_def f using demo_server_fields(3) by force
  show "s_in (socks (demo_app bs) 3) = bs" "s_out (socks (demo_app bs) 3) = []"
    by (simp_all add: demo_app_def server.defs)
qed

theorem app_greets_witness:
  "\<exists>t u. accept_client 5 True True (demo_app []) = (t, Some 2) \<and> start_client (app_conf byte_ops True) 2 t = (u, Ok ()) \<and>
     s_out (socks u 5) = frame 42 hello @ frame 55 [0, 0, 0, 0]"
proof -
  have "clicount (demo_app []) = 0" by (simp add: demo_app_def server.defs)
  moreover obtain t where t: "accept_client 5 True True (demo_app []) = (t, Some 2)"
    by (simp add: demo_app_def server.defs demo_server_def server_new_def accept_client_def link_client_def upd_node_def four_le
        word_le_nat_alt)
  moreover have "s_out (socks (demo_app []) 5) = []" by (simp add: demo_app_def server.defs demo_server_fields)
  ultimately show ?thesis using app_greets [OF byte_ops_ok(1) t, of True] by auto
qed

end
