(* ===== verification/Bpm_Server.thy ===== *)
theory Bpm_Server
  imports Libevent Device_Link
begin

text \<open>
  The example server of the BPM application (xbpmApp/target/main.c, app.c, app.h): one thread, driven by
  libevent, with a doubly linked list of connections.

  Connections are nodes on a heap. Access to a freed one is a crash. The buffers of a connection are
  libevent's; printing and the socket calls are left out.
\<close>

section \<open>State\<close>

record bpm_conn =
  bc_next :: "nat option"
  bc_prev :: "nat option"
  bc_in :: evbuffer
  bc_out :: evbuffer
  bc_user :: evbuffer
  bc_havehead :: bool
  bc_msgid :: u16
  bc_msglen :: u32
  bc_drop :: u32
  bc_low :: nat

record bpm_server =
  bs_conns :: "nat \<Rightarrow> bpm_conn option"
  bs_fresh :: nat
  bs_first :: "nat option"
  bs_fail :: u32
  bs_cycle :: u32

definition bpm_new :: bpm_server where
  "bpm_new = \<lparr>bs_conns = (\<lambda>_. None), bs_fresh = 0, bs_first = None, bs_fail = 0, bs_cycle = 0\<rparr>"

abbreviation (input) MAXMSG :: nat where "MAXMSG \<equiv> 1024"
abbreviation (input) MAXOUT :: nat where "MAXOUT \<equiv> 1024"

definition upd_conn :: "nat \<Rightarrow> (bpm_conn \<Rightarrow> bpm_conn) \<Rightarrow> bpm_server \<Rightarrow> bpm_server" where
  "upd_conn i f s = s\<lparr>bs_conns := (bs_conns s)(i := map_option f (bs_conns s i))\<rparr>"

section \<open>Connections\<close>

definition freeconn :: "nat \<Rightarrow> bpm_server \<Rightarrow> bpm_server \<times> unit outcome" where
  "freeconn i s =
     (case bs_conns s i of
        None \<Rightarrow> (s, Crash UseAfterFree)
      | Some c \<Rightarrow>
          if \<exists>p. bc_prev c = Some p \<and> bs_conns s p = None then (s, Crash UseAfterFree)
          else if bc_prev c = None \<and> bs_first s \<noteq> Some i then (s, Crash AssertFailed)
          else if \<exists>n. bc_next c = Some n \<and> bs_conns s n = None then (s, Crash UseAfterFree)
          else
            let s1 = (case bc_prev c of
                        Some p \<Rightarrow> upd_conn p (\<lambda>x. x\<lparr>bc_next := bc_next c\<rparr>) s
                      | None \<Rightarrow> s\<lparr>bs_first := bc_next c\<rparr>);
                s2 = (case bc_next c of
                        Some n \<Rightarrow> upd_conn n (\<lambda>x. x\<lparr>bc_prev := bc_prev c\<rparr>) s1
                      | None \<Rightarrow> s1)
            in (s2\<lparr>bs_conns := (bs_conns s2)(i := None)\<rparr>, Ok ()))"

text \<open>\<open>True\<close>: the message could not be sent as a whole, and the connection has been freed.\<close>

definition txconn :: "evbuffer_api \<Rightarrow> nat \<Rightarrow> u16 \<Rightarrow> byte list \<Rightarrow> bpm_server \<Rightarrow> bpm_server \<times> bool outcome" where
  "txconn api i msgid buf s =
     (case bs_conns s i of
        None \<Rightarrow> (s, Crash UseAfterFree)
      | Some c \<Rightarrow>
          let head = [chr_P, chr_S] @ be16 msgid @ be32 (of_nat (length buf));
              drp = (upd_conn i (\<lambda>x. x\<lparr>bc_drop := bc_drop x + 1\<rparr>) s, Ok False)
          in if evbuffer_get_length api (bc_out c) > MAXOUT then drp
             else case evbuffer_add api (bc_out c) head of
                 None \<Rightarrow> drp
               | Some tx \<Rightarrow>
                   (case evbuffer_add api tx buf of
                      Some tx2 \<Rightarrow> (upd_conn i (\<lambda>x. x\<lparr>bc_out := tx2\<rparr>) s, Ok False)
                    | None \<Rightarrow>
                        (case freeconn i ((upd_conn i (\<lambda>x. x\<lparr>bc_out := tx\<rparr>) s)\<lparr>bs_fail := bs_fail s + 1\<rparr>) of
                           (s1, Ok _) \<Rightarrow> (s1, Ok True)
                         | (s1, Throw e) \<Rightarrow> (s1, Throw e)
                         | (s1, Crash e) \<Rightarrow> (s1, Crash e))))"

text \<open>
  A loop along the list that sends to each connection what \<open>msg\<close> makes of it; the next pointer is
  read afterwards. \<open>None\<close>: the loop does not end.
\<close>

partial_function (option) tx_list ::
  "evbuffer_api \<Rightarrow> u16 \<Rightarrow> (bpm_conn \<Rightarrow> byte list) \<Rightarrow> nat option \<Rightarrow> bpm_server \<Rightarrow> (bpm_server \<times> unit outcome) option" where
  "tx_list api msgid msg p s =
     (case p of
        None \<Rightarrow> Some (s, Ok ())
      | Some i \<Rightarrow>
          (case bs_conns s i of
             None \<Rightarrow> Some (s, Crash UseAfterFree)
           | Some c \<Rightarrow>
               (case txconn api i msgid (msg c) s of
                  (s1, Ok _) \<Rightarrow>
                    (case bs_conns s1 i of
                       None \<Rightarrow> Some (s1, Crash UseAfterFree)
                     | Some c1 \<Rightarrow> tx_list api msgid msg (bc_next c1) s1)
                | (s1, Throw e) \<Rightarrow> Some (s1, Throw e)
                | (s1, Crash e) \<Rightarrow> Some (s1, Crash e))))"

declare tx_list.simps [code]

definition txall :: "evbuffer_api \<Rightarrow> u16 \<Rightarrow> byte list \<Rightarrow> bpm_server \<Rightarrow> (bpm_server \<times> unit outcome) option" where
  "txall api msgid buf s = tx_list api msgid (\<lambda>_. buf) (bs_first s) s"

definition onping :: "evbuffer_api \<Rightarrow> bpm_server \<Rightarrow> (bpm_server \<times> unit outcome) option" where
  "onping api s =
     (let s1 = s\<lparr>bs_cycle := bs_cycle s + 1\<rparr>
      in tx_list api 42 (\<lambda>c. be32 (bs_cycle s1) @ be32 (bs_fail s1) @ be32 (bc_drop c)) (bs_first s1) s1)"

definition on_connect :: "evbuffer_api \<Rightarrow> nat \<Rightarrow> bpm_server \<Rightarrow> bpm_server \<times> unit outcome" where
  "on_connect api i s =
     (case txconn api i 43 (be32 42) s of
        (s1, Ok _) \<Rightarrow> (s1, Ok ())
      | (s1, Throw e) \<Rightarrow> (s1, Throw e)
      | (s1, Crash e) \<Rightarrow> (s1, Crash e))"

text \<open>
  A new connection: \<open>mem\<close>, \<open>inet\<close> and \<open>bev\<close> tell whether the allocation succeeds, the address is of
  the Internet family and a bufferevent is made. The fields of the connection are used at the label
  \<open>fail\<close> even when it was not allocated.
\<close>

definition onconn :: "evbuffer_api \<Rightarrow> bool \<Rightarrow> bool \<Rightarrow> evbuffer option \<Rightarrow> bpm_server \<Rightarrow> bpm_server \<times> unit outcome" where
  "onconn api mem inet bev s =
     (let failed = (\<lambda>s. (s\<lparr>bs_fail := bs_fail s + 1\<rparr>, Ok ())); i = bs_fresh s
      in if \<not> mem then (s, Crash NullPointer)
         else if \<not> inet then failed s
         else case (bev, evbuffer_new api) of
             (Some b, Some u) \<Rightarrow>
               let c = \<lparr>bc_next = None, bc_prev = None, bc_in = b, bc_out = b, bc_user = u, bc_havehead = False,
                        bc_msgid = 0, bc_msglen = 0, bc_drop = 0, bc_low = 8\<rparr>;
                   s0 = s\<lparr>bs_conns := (bs_conns s)(i \<mapsto> c), bs_fresh := Suc i\<rparr>
               in (case on_connect api i s0 of
                     (s1, Ok _) \<Rightarrow>
                       if bs_conns s1 i = None then (s1, Crash UseAfterFree)
                       else
                         let s2 = (case bs_first s1 of Some n \<Rightarrow> upd_conn n (\<lambda>x. x\<lparr>bc_prev := Some i\<rparr>) s1 | None \<Rightarrow> s1)
                         in ((upd_conn i (\<lambda>x. x\<lparr>bc_next := bs_first s2\<rparr>) s2)\<lparr>bs_first := Some i\<rparr>, Ok ())
                   | (s1, r) \<Rightarrow> (s1, r))
           | _ \<Rightarrow> failed s)"

definition connevent :: "nat \<Rightarrow> bpm_server \<Rightarrow> bpm_server \<times> unit outcome" where
  "connevent i s = freeconn i s"

section \<open>Reception\<close>

text \<open>A message header, and a body with what follows it: both on a connection \<open>c\<close> of number \<open>i\<close>.\<close>

definition read_head :: "evbuffer_api \<Rightarrow> nat \<Rightarrow> bpm_conn \<Rightarrow> bpm_server \<Rightarrow> bpm_server \<times> bool outcome" where
  "read_head api i c s =
     (if evbuffer_get_length api (bc_in c) < 8 then (s, Crash AssertFailed)
      else case evbuffer_remove api (bc_in c) 8 of
          (h, rx) \<Rightarrow>
            let s1 = upd_conn i (\<lambda>x. x\<lparr>bc_in := rx\<rparr>) s
            in if \<not> hdr_marked h \<or> hdr_len h > of_nat MAXMSG
               then (case freeconn i s1 of
                       (s2, Ok _) \<Rightarrow> (s2, Ok False)
                     | (s2, Throw e) \<Rightarrow> (s2, Throw e)
                     | (s2, Crash e) \<Rightarrow> (s2, Crash e))
               else (upd_conn i (\<lambda>x. x\<lparr>bc_in := rx, bc_havehead := True, bc_msgid := hdr_id h, bc_msglen := hdr_len h\<rparr>) s,
                     Ok True))"

definition read_body :: "evbuffer_api \<Rightarrow> nat \<Rightarrow> bpm_conn \<Rightarrow> bpm_server \<Rightarrow> bpm_server \<times> bool outcome" where
  "read_body api i c s =
     (let n = unat (bc_msglen c) in
      if evbuffer_get_length api (bc_in c) < n then (s, Crash AssertFailed)
      else
        let L = evbuffer_get_length api (bc_user c);
            u = (if L > 0 then evbuffer_drain api (bc_user c) L else bc_user c)
        in case evbuffer_remove_buffer api (bc_in c) u n of
            (r, rx, u2) \<Rightarrow>
              (upd_conn i (\<lambda>x. x\<lparr>bc_havehead := False, bc_in := evbuffer_drain api rx n, bc_user := u2\<rparr>) s, Ok True))"

text \<open>One round of the loop: \<open>True\<close> to go on.\<close>

definition read_round :: "evbuffer_api \<Rightarrow> nat \<Rightarrow> bpm_conn \<Rightarrow> bpm_server \<Rightarrow> bpm_server \<times> bool outcome" where
  "read_round api i c s =
     (let expc = (if bc_havehead c then 8 else unat (bc_msglen c))
      in if evbuffer_get_length api (bc_in c) < expc
         then (if \<not> expc < MAXMSG + 1 then (s, Crash AssertFailed)
               else (upd_conn i (\<lambda>x. x\<lparr>bc_low := expc\<rparr>) s, Ok False))
         else if \<not> bc_havehead c then read_head api i c s else read_body api i c s)"

definition read_left :: "evbuffer_api \<Rightarrow> bpm_conn option \<Rightarrow> nat" where
  "read_left api x =
     (case x of None \<Rightarrow> 0 | Some c \<Rightarrow> 2 * evbuffer_get_length api (bc_in c) + (if bc_havehead c then 1 else 0))"

function connread :: "evbuffer_api \<Rightarrow> nat \<Rightarrow> bpm_server \<Rightarrow> bpm_server \<times> unit outcome" where
  "connread api i s =
     (case bs_conns s i of
        None \<Rightarrow> (s, Crash UseAfterFree)
      | Some c \<Rightarrow>
          (case read_round api i c s of
             (s1, Ok go) \<Rightarrow>
               if \<not> go then (s1, Ok ())
               else if read_left api (bs_conns s1 i) < read_left api (Some c) then connread api i s1
               else (s1, Crash NoProgress)
           | (s1, Throw e) \<Rightarrow> (s1, Throw e)
           | (s1, Crash e) \<Rightarrow> (s1, Crash e)))"
  by pat_completeness auto
termination
  by (relation "measure (\<lambda>(api, i, s). read_left api (bs_conns s i))") auto

declare connread.simps [simp del]

section \<open>The list of connections\<close>

text \<open>The nodes \<open>xs\<close> from pointer \<open>p\<close> up to pointer \<open>q\<close>; \<open>prv\<close> is the node before them.\<close>

fun seg :: "(nat \<Rightarrow> bpm_conn option) \<Rightarrow> nat option \<Rightarrow> nat option \<Rightarrow> nat list \<Rightarrow> nat option \<Rightarrow> bool" where
  "seg h prv p [] q \<longleftrightarrow> p = q"
| "seg h prv p (i # xs) q \<longleftrightarrow>
     p = Some i \<and> (\<exists>c. h i = Some c \<and> bc_prev c = prv \<and> seg h (Some i) (bc_next c) xs q)"

definition last_of :: "nat option \<Rightarrow> nat list \<Rightarrow> nat option" where
  "last_of prv xs = (if xs = [] then prv else Some (last xs))"

definition links :: "bpm_conn option \<Rightarrow> (nat option \<times> nat option) option" where
  "links x = map_option (\<lambda>c. (bc_next c, bc_prev c)) x"

lemma seg_append:
  "seg h prv p (xs @ ys) q \<longleftrightarrow> (\<exists>m. seg h prv p xs m \<and> seg h (last_of prv xs) m ys q)"
  by (induction xs arbitrary: prv p) (auto simp: last_of_def)

lemma seg_frame: "\<forall>i \<in> set xs. links (h' i) = links (h i) \<Longrightarrow> seg h prv p xs q \<Longrightarrow> seg h' prv p xs q"
proof (induction xs arbitrary: prv p)
  case (Cons i xs)
  then obtain c where c: "p = Some i" "h i = Some c" "bc_prev c = prv" "seg h (Some i) (bc_next c) xs q" by auto
  have l: "links (h' i) = Some (bc_next c, bc_prev c)" using Cons.prems(1) c(2) by (simp add: links_def)
  then obtain d where "h' i = Some d" "bc_next d = bc_next c" "bc_prev d = bc_prev c"
    by (auto simp: links_def)
  then show ?case using c Cons by auto
qed simp

lemma seg_last:
  assumes "seg h prv p (ws @ [a]) q"
    and "\<forall>i \<in> set ws. links (h' i) = links (h i)" and "links (h' a) = map_option (\<lambda>(n, v). (q', v)) (links (h a))"
  shows "seg h' prv p (ws @ [a]) q'"
proof -
  obtain m where m: "seg h prv p ws m" "seg h (last_of prv ws) m [a] q" using assms(1) by (auto simp: seg_append)
  have "seg h' prv p ws m" using seg_frame [OF assms(2) m(1)] .
  moreover have "seg h' (last_of prv ws) m [a] q'"
    using m(2) assms(3) by (auto simp: links_def split: option.splits)
  ultimately show ?thesis by (auto simp: seg_append)
qed

lemma seg_hd:
  assumes "seg h prv p (b # ys) q"
    and "\<forall>i \<in> set ys. links (h' i) = links (h i)" and "links (h' b) = map_option (\<lambda>(n, v). (n, prv')) (links (h b))"
  shows "seg h' prv' p (b # ys) q"
proof -
  obtain c where c: "p = Some b" "h b = Some c" "seg h (Some b) (bc_next c) ys q" using assms(1) by auto
  obtain d where d: "h' b = Some d" "bc_next d = bc_next c" "bc_prev d = prv'"
    using assms(3) c(2) by (auto simp: links_def)
  have "seg h' (Some b) (bc_next c) ys q" using seg_frame [OF assms(2) c(3)] .
  then show ?thesis using c d by simp
qed

text \<open>All connections are in the list.\<close>

definition bpm_list :: "bpm_server \<Rightarrow> nat list \<Rightarrow> bool" where
  "bpm_list s xs \<longleftrightarrow>
     distinct xs \<and> set xs = dom (bs_conns s) \<and> seg (bs_conns s) None (bs_first s) xs None \<and> (\<forall>i \<in> set xs. i < bs_fresh s)"

lemma upd_conn_sel [simp]:
  "bs_conns (upd_conn i f s) = (bs_conns s)(i := map_option f (bs_conns s i))" "bs_first (upd_conn i f s) = bs_first s"
  "bs_fresh (upd_conn i f s) = bs_fresh s" "bs_fail (upd_conn i f s) = bs_fail s" "bs_cycle (upd_conn i f s) = bs_cycle s"
  by (simp_all add: upd_conn_def)

lemma links_upd:
  "\<forall>c. bc_next (f c) = bc_next c \<and> bc_prev (f c) = bc_prev c \<Longrightarrow> links (bs_conns (upd_conn i f s) j) = links (bs_conns s j)"
  by (cases "bs_conns s i") (simp_all add: links_def)

lemma dom_upd: "dom (bs_conns (upd_conn i f s)) = dom (bs_conns s)"
  by (cases "bs_conns s i") (auto simp: domIff)

lemma bpm_list_upd:
  assumes "\<forall>c. bc_next (f c) = bc_next c \<and> bc_prev (f c) = bc_prev c" and "bpm_list s xs"
  shows "bpm_list (upd_conn i f s) xs"
proof -
  have l: "\<forall>j \<in> set xs. links (bs_conns (upd_conn i f s) j) = links (bs_conns s j)"
    using links_upd [OF assms(1)] by blast
  have b: "distinct xs" "set xs = dom (bs_conns s)" "seg (bs_conns s) None (bs_first s) xs None" "\<forall>i \<in> set xs. i < bs_fresh s"
    using assms(2) unfolding bpm_list_def by blast+
  show ?thesis
    unfolding bpm_list_def dom_upd upd_conn_sel(2,3) using b(1,2,4) seg_frame [OF l b(3)] by blast
qed

text \<open>Taking a node out of the list, and the other nodes.\<close>

definition heap_free :: "nat \<Rightarrow> bpm_conn \<Rightarrow> (nat \<Rightarrow> bpm_conn option) \<Rightarrow> nat \<Rightarrow> bpm_conn option" where
  "heap_free i c h j =
     (if j = i then None
      else if bc_next c = Some j then map_option (\<lambda>x. x\<lparr>bc_prev := bc_prev c\<rparr>) (h j)
      else if bc_prev c = Some j then map_option (\<lambda>x. x\<lparr>bc_next := bc_next c\<rparr>) (h j)
      else h j)"

lemma freeconn_eq:
  assumes "bs_conns s i = Some c" and "bc_prev c = None \<longrightarrow> bs_first s = Some i"
    and "\<forall>p. bc_prev c = Some p \<longrightarrow> bs_conns s p \<noteq> None" and "\<forall>n. bc_next c = Some n \<longrightarrow> bs_conns s n \<noteq> None"
    and "bc_next c = None \<or> bc_next c \<noteq> bc_prev c"
  shows "freeconn i s = (s\<lparr>bs_conns := heap_free i c (bs_conns s),
    bs_first := (if bc_prev c = None then bc_next c else bs_first s)\<rparr>, Ok ())"
proof -
  have h: "(if j = i then None else g j) = heap_free i c (bs_conns s) j"
    if "g = (case bc_next c of Some n \<Rightarrow> (\<lambda>g. g(n := map_option (\<lambda>x. x\<lparr>bc_prev := bc_prev c\<rparr>) (g n))) | None \<Rightarrow> (\<lambda>g. g))
      (case bc_prev c of Some p \<Rightarrow> (bs_conns s)(p := map_option (\<lambda>x. x\<lparr>bc_next := bc_next c\<rparr>) (bs_conns s p)) | None \<Rightarrow> bs_conns s)"
    for g j
    unfolding that using assms(5) by (cases "bc_next c"; cases "bc_prev c") (auto simp: heap_free_def)
  show ?thesis
  proof (cases "bc_prev c")
    case None
    then show ?thesis
      using assms(1,2,4) h by (cases "bc_next c") (auto simp: freeconn_def upd_conn_def Let_def fun_eq_iff)
  next
    case (Some p)
    then show ?thesis
      using assms(1,3,4) h by (cases "bc_next c") (auto simp: freeconn_def upd_conn_def Let_def fun_eq_iff)
  qed
qed

lemma freeconn_list:
  assumes "bpm_list s (ws @ i # ys)"
  shows "\<exists>t. freeconn i s = (t, Ok ()) \<and> bpm_list t (ws @ ys)"
proof -
  let ?h = "bs_conns s"
  have b: "distinct (ws @ i # ys)" "set (ws @ i # ys) = dom ?h" "seg ?h None (bs_first s) (ws @ i # ys) None"
    "\<forall>j \<in> set (ws @ i # ys). j < bs_fresh s"
    using assms unfolding bpm_list_def by blast+
  obtain m where m: "seg ?h None (bs_first s) ws m" "seg ?h (last_of None ws) m (i # ys) None"
    using b(3) unfolding seg_append by blast
  then obtain c where c: "m = Some i" "?h i = Some c" "bc_prev c = last_of None ws" "seg ?h (Some i) (bc_next c) ys None"
    by auto
  have nx: "bc_next c = (if ys = [] then None else Some (hd ys))" using c(4) by (cases ys) auto
  have dm: "j \<in> set (ws @ i # ys) \<Longrightarrow> ?h j \<noteq> None" for j using b(2) by blast
  have f0: "bs_first s = Some i" if "ws = []" using m(1) c(1) that by simp
  have fr: "freeconn i s = (s\<lparr>bs_conns := heap_free i c ?h,
      bs_first := (if bc_prev c = None then bc_next c else bs_first s)\<rparr>, Ok ())"
  proof (rule freeconn_eq [OF c(2)])
    show "bc_prev c = None \<longrightarrow> bs_first s = Some i" using c(3) f0 by (simp add: last_of_def)
    show "\<forall>p. bc_prev c = Some p \<longrightarrow> ?h p \<noteq> None" using c(3) dm by (simp add: last_of_def)
    show "\<forall>n. bc_next c = Some n \<longrightarrow> ?h n \<noteq> None" using nx dm by simp
    have "hd ys \<noteq> last ws" if "ys \<noteq> []" "ws \<noteq> []"
      using b(1) hd_in_set [OF that(1)] last_in_set [OF that(2)] by fastforce
    then show "bc_next c = None \<or> bc_next c \<noteq> bc_prev c" using nx c(3) by (simp add: last_of_def)
  qed
  let ?g = "heap_free i c ?h" and ?f = "if bc_prev c = None then bc_next c else bs_first s"
  have A: "seg ?g None ?f ws (bc_next c)"
  proof (cases ws rule: rev_cases)
    case Nil
    then show ?thesis using c(3) by (simp add: last_of_def)
  next
    case (snoc vs a)
    have l: "\<forall>j \<in> set vs. links (?g j) = links (?h j)" "links (?g a) = map_option (\<lambda>(n, v). (bc_next c, v)) (links (?h a))"
      using b(1) nx c(3) snoc by (auto simp: heap_free_def last_of_def links_def option.map_comp comp_def dest: hd_in_set)
    show ?thesis using seg_last [OF _ l, of None "bs_first s" m] m(1) c(3) snoc by (simp add: last_of_def)
  qed
  have B: "seg ?g (last_of None ws) (bc_next c) ys None"
  proof (cases ys)
    case Nil
    then show ?thesis using nx by simp
  next
    case (Cons n zs)
    then have sg: "seg ?h (Some i) (bc_next c) (n # zs) None" using c(4) by simp
    have l: "\<forall>j \<in> set zs. links (?g j) = links (?h j)" "links (?g n) = map_option (\<lambda>(x, v). (x, last_of None ws)) (links (?h n))"
      using b(1) nx c(3) Cons by (auto simp: heap_free_def last_of_def links_def option.map_comp comp_def dest: last_in_set)
    show ?thesis using seg_hd [OF sg l] Cons by (simp only:)
  qed
  have D: "dom ?g = dom ?h - {i}" by (auto simp: heap_free_def split: if_splits)
  have "seg ?g None ?f (ws @ ys) None" using A B unfolding seg_append by blast
  then have "bpm_list (s\<lparr>bs_conns := ?g, bs_first := ?f\<rparr>) (ws @ ys)"
    using b(1,2,4) D by (auto simp: bpm_list_def)
  then show ?thesis using fr by blast
qed

section \<open>Every operation keeps the list\<close>

definition keeps_links :: "(bpm_conn \<Rightarrow> bpm_conn) \<Rightarrow> bool" where
  "keeps_links f \<longleftrightarrow> (\<forall>c. bc_next (f c) = bc_next c \<and> bc_prev (f c) = bc_prev c)"

definition bpm_ok :: "bpm_server \<Rightarrow> bool" where
  "bpm_ok s \<longleftrightarrow> (\<exists>xs. bpm_list s xs)"

lemma bpm_list_counters [simp]:
  "bpm_list (s\<lparr>bs_fail := n\<rparr>) xs = bpm_list s xs" "bpm_list (s\<lparr>bs_cycle := n\<rparr>) xs = bpm_list s xs"
  by (simp_all add: bpm_list_def)

lemma bpm_ok_counters [simp]: "bpm_ok (s\<lparr>bs_fail := n\<rparr>) = bpm_ok s" "bpm_ok (s\<lparr>bs_cycle := n\<rparr>) = bpm_ok s"
  by (simp_all add: bpm_ok_def)

lemma bpm_ok_upd: "keeps_links f \<Longrightarrow> bpm_ok s \<Longrightarrow> bpm_ok (upd_conn i f s)"
  using bpm_list_upd unfolding keeps_links_def bpm_ok_def by blast

lemma bpm_ok_new: "bpm_ok bpm_new"
  by (auto simp: bpm_ok_def bpm_list_def bpm_new_def intro: exI [of _ "[]"])

lemma bpm_ok_free:
  assumes "bpm_ok s" and "bs_conns s i \<noteq> None"
  shows "\<exists>t. freeconn i s = (t, Ok ()) \<and> bpm_ok t"
proof -
  obtain xs where xs: "bpm_list s xs" using assms(1) by (auto simp: bpm_ok_def)
  have "i \<in> dom (bs_conns s)" using assms(2) by (simp add: domIff)
  then have "i \<in> set xs" using xs by (simp add: bpm_list_def)
  then obtain ws ys where "xs = ws @ i # ys" using split_list by fast
  then show ?thesis using freeconn_list xs unfolding bpm_ok_def by blast
qed

lemma freeconn_exists: "freeconn i s = (t, Ok y) \<Longrightarrow> bs_conns s i \<noteq> None"
  by (auto simp: freeconn_def split: option.splits)

lemma bpm_ok_freed: "freeconn i s = (t, Ok y) \<Longrightarrow> bpm_ok s \<Longrightarrow> bpm_ok t"
  using bpm_ok_free freeconn_exists by fastforce

lemma txconn_cases:
  assumes "txconn api i k buf s = (t, Ok b)"
  obtains f where "keeps_links f" and "t = upd_conn i f s" and "\<not> b"
  | f n where "keeps_links f" and "freeconn i ((upd_conn i f s)\<lparr>bs_fail := n\<rparr>) = (t, Ok ())" and "b"
proof -
  let ?head = "[chr_P, chr_S] @ be16 k @ be32 (of_nat (length buf))"
  obtain c where c: "bs_conns s i = Some c" using assms by (auto simp: txconn_def split: option.splits)
  show thesis
  proof (cases "evbuffer_get_length api (bc_out c) > MAXOUT \<or> evbuffer_add api (bc_out c) ?head = None")
    case True
    then have "t = upd_conn i (\<lambda>x. x\<lparr>bc_drop := bc_drop x + 1\<rparr>) s \<and> \<not> b"
      using assms c by (auto simp: txconn_def Let_def split: if_splits)
    then show thesis using that(1) [of "\<lambda>x. x\<lparr>bc_drop := bc_drop x + 1\<rparr>"] by (simp add: keeps_links_def)
  next
    case False
    then obtain tx where tx: "evbuffer_add api (bc_out c) ?head = Some tx" by blast
    show thesis
    proof (cases "evbuffer_add api tx buf")
      case None
      let ?s = "(upd_conn i (\<lambda>x. x\<lparr>bc_out := tx\<rparr>) s)\<lparr>bs_fail := bs_fail s + 1\<rparr>"
      obtain u r where f: "freeconn i ?s = (u, r)" by (cases "freeconn i ?s")
      then have "r = Ok () \<and> u = t \<and> b"
        using assms c False tx None by (cases r) (auto simp: txconn_def Let_def)
      then show thesis using that(2) [of "\<lambda>x. x\<lparr>bc_out := tx\<rparr>" "bs_fail s + 1"] f by (simp add: keeps_links_def)
    next
      case (Some tx2)
      then have "t = upd_conn i (\<lambda>x. x\<lparr>bc_out := tx2\<rparr>) s \<and> \<not> b"
        using assms c False tx by (auto simp: txconn_def Let_def)
      then show thesis using that(1) [of "\<lambda>x. x\<lparr>bc_out := tx2\<rparr>"] by (simp add: keeps_links_def)
    qed
  qed
qed

lemma bpm_ok_tx:
  assumes "txconn api i k buf s = (t, Ok b)" and "bpm_ok s"
  shows "bpm_ok t"
proof (rule txconn_cases [OF assms(1)])
  fix f
  assume "keeps_links f" "t = upd_conn i f s"
  then show "bpm_ok t" using bpm_ok_upd assms(2) by simp
next
  fix f n
  assume f: "keeps_links f" "freeconn i ((upd_conn i f s)\<lparr>bs_fail := n\<rparr>) = (t, Ok ())"
  have "bpm_ok ((upd_conn i f s)\<lparr>bs_fail := n\<rparr>)" using bpm_ok_upd [OF f(1) assms(2)] by simp
  then show "bpm_ok t" using bpm_ok_freed [OF f(2)] by blast
qed

lemma bpm_ok_tx_list:
  assumes "tx_list api k msg p s = Some (t, Ok y)" and "bpm_ok s"
  shows "bpm_ok t"
proof -
  have "bpm_ok s \<longrightarrow> snd z = Ok y \<longrightarrow> bpm_ok (fst z)" if "tx_list api k msg p s = Some z" for z
  proof (rule tx_list.raw_induct [OF _ that], goal_cases)
    case (1 f api k msg p s z)
    show ?case
    proof (cases "\<exists>i c s1 b c1. p = Some i \<and> bs_conns s i = Some c \<and> txconn api i k (msg c) s = (s1, Ok b) \<and> bs_conns s1 i = Some c1")
      case True
      then obtain i c s1 b c1 where c: "p = Some i" "bs_conns s i = Some c" "txconn api i k (msg c) s = (s1, Ok b)"
        "bs_conns s1 i = Some c1" by blast
      have "f api k msg (bc_next c1) s1 = Some z" using 1(2) c by simp
      then have "bpm_ok s1 \<longrightarrow> snd z = Ok y \<longrightarrow> bpm_ok (fst z)" by (rule 1(1))
      then show ?thesis using bpm_ok_tx [OF c(3)] by blast
    next
      case False
      then show ?thesis using 1(2) by (cases p) (auto split: option.splits prod.splits outcome.splits)
    qed
  qed
  from this [OF assms(1)] show ?thesis using assms(2) by simp
qed

lemma bpm_ok_round:
  assumes "read_round api i c s = (t, Ok b)" and "bpm_ok s"
  shows "bpm_ok t"
proof -
  have k: "keeps_links (\<lambda>x. x\<lparr>bc_in := a, bc_havehead := h, bc_msgid := m, bc_msglen := l\<rparr>)" "keeps_links (\<lambda>x. x\<lparr>bc_in := a\<rparr>)"
    "keeps_links (\<lambda>x. x\<lparr>bc_havehead := h, bc_in := a, bc_user := u\<rparr>)" "keeps_links (\<lambda>x. x\<lparr>bc_low := n\<rparr>)" for a h m l u n
    by (simp_all add: keeps_links_def)
  then show ?thesis
    using assms
    by (auto simp: read_round_def read_head_def read_body_def Let_def intro: bpm_ok_upd
        dest: bpm_ok_freed [OF _ bpm_ok_upd [OF k(2)]] split: if_splits prod.splits outcome.splits)
qed

lemma bpm_ok_read: "connread api i s = (t, Ok y) \<Longrightarrow> bpm_ok s \<Longrightarrow> bpm_ok t"
proof (induction api i s rule: connread.induct)
  case (1 api i s)
  obtain c where c: "bs_conns s i = Some c" using 1(2) by (auto simp: connread.simps [of api i s] split: option.splits)
  obtain s1 r where r: "read_round api i c s = (s1, r)" by (cases "read_round api i c s")
  show ?case
  proof (cases r)
    case (Ok go)
    then have ok: "bpm_ok s1" using bpm_ok_round r 1(3) by blast
    show ?thesis
    proof (cases go)
      case True
      have lt: "read_left api (bs_conns s1 i) < read_left api (Some c)"
        using 1(2) c r Ok True by (auto simp: connread.simps [of api i s] split: if_splits)
      then have "connread api i s1 = (t, Ok y)" using 1(2) c r Ok True by (simp add: connread.simps [of api i s])
      then show ?thesis using 1(1) [OF c r [symmetric] Ok _ lt] True ok by simp
    next
      case False
      then show ?thesis using 1(2) c r Ok ok by (simp add: connread.simps [of api i s])
    qed
  qed (use 1(2) c r in \<open>simp_all add: connread.simps [of api i s]\<close>)
qed

lemma bpm_ok_onconn:
  assumes "onconn api mem inet bev s = (t, Ok y)" and "bpm_ok s"
  shows "bpm_ok t"
proof (cases "inet \<and> (\<exists>b u. bev = Some b \<and> evbuffer_new api = Some u)")
  case False
  then have "t = s\<lparr>bs_fail := bs_fail s + 1\<rparr>"
    using assms(1) by (cases bev) (auto simp: onconn_def Let_def split: if_splits option.splits)
  then show ?thesis using assms(2) by simp
next
  case True
  then obtain b u where bu: "inet" "bev = Some b" "evbuffer_new api = Some u" by blast
  let ?i = "bs_fresh s"
  define c where "c = \<lparr>bc_next = None, bc_prev = None, bc_in = b, bc_out = b, bc_user = u, bc_havehead = False,
                       bc_msgid = 0, bc_msglen = 0, bc_drop = 0, bc_low = 8\<rparr>"
  define s0 where "s0 = s\<lparr>bs_conns := (bs_conns s)(?i \<mapsto> c), bs_fresh := Suc ?i\<rparr>"
  obtain xs where xs: "bpm_list s xs" using assms(2) by (auto simp: bpm_ok_def)
  have mem: mem using assms(1) by (auto simp: onconn_def Let_def split: if_splits)
  obtain s1 v where oc: "on_connect api ?i s0 = (s1, v)" by (cases "on_connect api ?i s0")
  have v: "v = Ok ()" using assms(1) mem bu oc by (cases v) (auto simp: onconn_def Let_def c_def [symmetric] s0_def [symmetric])
  obtain bb where tx: "txconn api ?i 43 (be32 42) s0 = (s1, Ok bb)"
    using oc v by (auto simp: on_connect_def split: prod.splits outcome.splits)
  have first: "bs_first s \<noteq> Some ?i"
    using xs by (cases xs) (auto simp: bpm_list_def)
  obtain f where f: "keeps_links f" "s1 = upd_conn ?i f s0"
  proof (rule txconn_cases [OF tx])
    fix f n
    assume f: "keeps_links f" "freeconn ?i ((upd_conn ?i f s0)\<lparr>bs_fail := n\<rparr>) = (s1, Ok ())"
    then have "bc_prev (f c) = None" by (simp add: keeps_links_def c_def)
    then show thesis using f(2) first by (simp add: freeconn_def s0_def)
  qed blast
  let ?d = "(f c)\<lparr>bc_next := bs_first s\<rparr>"
  let ?h = "(case bs_first s of Some n \<Rightarrow> (bs_conns s)(n := map_option (\<lambda>x. x\<lparr>bc_prev := Some ?i\<rparr>) (bs_conns s n)) | None \<Rightarrow> bs_conns s)(?i \<mapsto> ?d)"
  have d: "bc_prev ?d = None" "bc_next ?d = bs_first s" using f(1) by (simp_all add: keeps_links_def c_def)
  have t: "bs_conns t = ?h \<and> bs_first t = Some ?i \<and> bs_fresh t = Suc ?i"
    using assms(1) mem bu oc v first unfolding f(2)
    by (auto simp: onconn_def Let_def c_def [symmetric] s0_def [symmetric] split: option.splits)
      (auto simp: s0_def fun_eq_iff)
  have b: "distinct xs" "set xs = dom (bs_conns s)" "seg (bs_conns s) None (bs_first s) xs None" "\<forall>j \<in> set xs. j < ?i"
    using xs unfolding bpm_list_def by blast+
  have sg: "seg ?h (Some ?i) (bs_first s) xs None"
  proof (cases xs)
    case Nil
    then show ?thesis using b(3) by simp
  next
    case (Cons n zs)
    then have fn: "bs_first s = Some n" "seg (bs_conns s) None (bs_first s) (n # zs) None" "n \<noteq> ?i" "?i \<notin> set zs" "n \<notin> set zs"
      using b by auto
    have l: "\<forall>j \<in> set zs. links (?h j) = links (bs_conns s j)"
      "links (?h n) = map_option (\<lambda>(x, v). (x, Some ?i)) (links (bs_conns s n))"
      using fn by (auto simp: links_def option.map_comp comp_def)
    show ?thesis unfolding Cons by (rule seg_hd [OF fn(2) l])
  qed
  have "dom ?h = insert ?i (dom (bs_conns s))" by (auto simp: dom_def split: option.splits)
  then have dm: "set (?i # xs) = dom (bs_conns t)" using t b(2) by simp
  have di: "distinct (?i # xs)" "\<forall>j \<in> set (?i # xs). j < bs_fresh t" using b(1,4) t by auto
  have "bs_conns t ?i = Some ?d" using t by simp
  then have "seg (bs_conns t) None (bs_first t) (?i # xs) None" using sg t d by simp
  then have "bpm_list t (?i # xs)" unfolding bpm_list_def using dm di by blast
  then show ?thesis unfolding bpm_ok_def by blast
qed

text \<open>Everything that happens to the server, as long as it runs. \<open>io\<close>: bytes arrive and leave.\<close>

inductive bpm_reach :: "evbuffer_api \<Rightarrow> bpm_server \<Rightarrow> bool" for api where
  new: "bpm_reach api bpm_new"
| conn: "bpm_reach api s \<Longrightarrow> onconn api mem inet bev s = (t, Ok y) \<Longrightarrow> bpm_reach api t"
| io: "bpm_reach api s \<Longrightarrow> bpm_reach api (upd_conn i (\<lambda>c. c\<lparr>bc_in := rx, bc_out := tx\<rparr>) s)"
| read: "bpm_reach api s \<Longrightarrow> connread api i s = (t, Ok y) \<Longrightarrow> bpm_reach api t"
| event: "bpm_reach api s \<Longrightarrow> connevent i s = (t, Ok y) \<Longrightarrow> bpm_reach api t"
| tx: "bpm_reach api s \<Longrightarrow> txconn api i k buf s = (t, Ok b) \<Longrightarrow> bpm_reach api t"
| all: "bpm_reach api s \<Longrightarrow> txall api k buf s = Some (t, Ok y) \<Longrightarrow> bpm_reach api t"
| ping: "bpm_reach api s \<Longrightarrow> onping api s = Some (t, Ok y) \<Longrightarrow> bpm_reach api t"

lemma bpm_reach_ok: "bpm_reach api s \<Longrightarrow> bpm_ok s"
proof (induction rule: bpm_reach.induct)
  case new
  then show ?case by (rule bpm_ok_new)
next
  case (conn s mem inet bev t y)
  then show ?case using bpm_ok_onconn by blast
next
  case (io s i rx tx)
  then show ?case by (intro bpm_ok_upd) (simp_all add: keeps_links_def)
next
  case (read s i t y)
  then show ?case using bpm_ok_read by blast
next
  case (event s i t y)
  then show ?case using bpm_ok_freed unfolding connevent_def by blast
next
  case (tx s i k buf t b)
  then show ?case using bpm_ok_tx by blast
next
  case (all s k buf t y)
  then show ?case using bpm_ok_tx_list unfolding txall_def by blast
next
  case (ping s t y)
  then show ?case using bpm_ok_tx_list [of api 42 _ _ "s\<lparr>bs_cycle := bs_cycle s + 1\<rparr>"]
    unfolding onping_def Let_def by fastforce
qed

section \<open>Properties\<close>

text \<open>
  C20: The list of connections is always a doubly linked list of exactly the open connections, newest first, whatever
  happens and in which order; and any connection can be closed: its removal meets the assertion, touches no freed
  node, and leaves the list of the others.
\<close>

theorem bpm_connections:
  assumes "bpm_reach api s"
  shows "\<exists>xs. distinct xs \<and> set xs = dom (bs_conns s) \<and> seg (bs_conns s) None (bs_first s) xs None \<and>
    (\<forall>i \<in> set xs. \<exists>t. freeconn i s = (t, Ok ()) \<and> dom (bs_conns t) = dom (bs_conns s) - {i} \<and>
       seg (bs_conns t) None (bs_first t) (remove1 i xs) None)"
proof -
  obtain xs where xs: "bpm_list s xs" using bpm_reach_ok [OF assms] by (auto simp: bpm_ok_def)
  have "\<exists>t. freeconn i s = (t, Ok ()) \<and> dom (bs_conns t) = dom (bs_conns s) - {i} \<and>
      seg (bs_conns t) None (bs_first t) (remove1 i xs) None" if i: "i \<in> set xs" for i
  proof -
    obtain ws ys where w: "xs = ws @ i # ys" using split_list [OF i] by blast
    then obtain t where t: "freeconn i s = (t, Ok ())" "bpm_list t (ws @ ys)" using freeconn_list xs by blast
    have d: "distinct xs" "set xs = dom (bs_conns s)" using xs by (simp_all add: bpm_list_def)
    have "remove1 i xs = ws @ ys" "set (ws @ ys) = set xs - {i}" using d(1) unfolding w by (auto simp: remove1_append)
    then show ?thesis using t d(2) by (auto simp: bpm_list_def)
  qed
  then show ?thesis using xs unfolding bpm_list_def by blast
qed

definition demo_bpm :: bpm_server where
  "demo_bpm = fst (onconn chunk_api True True (Some \<lparr>chains = [], room = 0\<rparr>) bpm_new)"

lemma demo_bpm_eval:
  "onconn chunk_api True True (Some \<lparr>chains = [], room = 0\<rparr>) bpm_new = (demo_bpm, Ok ())" "dom (bs_conns demo_bpm) = {0}"
proof -
  have "bs_conns demo_bpm 0 \<noteq> None \<and> (\<forall>j. j \<noteq> 0 \<longrightarrow> bs_conns demo_bpm j = None) \<and>
      snd (onconn chunk_api True True (Some \<lparr>chains = [], room = 0\<rparr>) bpm_new) = Ok ()"
    by (simp add: demo_bpm_def onconn_def bpm_new_def on_connect_def txconn_def chunk_api_def evbytes_def Let_def upd_conn_def)
  then show "onconn chunk_api True True (Some \<lparr>chains = [], room = 0\<rparr>) bpm_new = (demo_bpm, Ok ())" "dom (bs_conns demo_bpm) = {0}"
    by (auto simp: demo_bpm_def prod_eq_iff dom_def)
qed

theorem bpm_connections_witness: "\<exists>t. freeconn 0 demo_bpm = (t, Ok ()) \<and> dom (bs_conns t) = {}"
  using bpm_connections [OF bpm_reach.conn [OF bpm_reach.new demo_bpm_eval(1)]] unfolding demo_bpm_eval(2) by auto

lemma tx_list_step:
  "bs_conns s i = Some c \<Longrightarrow> txconn api i k (msg c) s = (s1, Ok b) \<Longrightarrow>
   tx_list api k msg (Some i) s =
     (case bs_conns s1 i of None \<Rightarrow> Some (s1, Crash UseAfterFree) | Some c1 \<Rightarrow> tx_list api k msg (bc_next c1) s1)"
  by (subst tx_list.simps) simp

lemma seg_upd:
  assumes "keeps_links f" and "seg (bs_conns s) prv p xs q"
  shows "seg (bs_conns (upd_conn i f s)) prv p xs q"
proof -
  have "\<forall>j \<in> set xs. links (bs_conns (upd_conn i f s) j) = links (bs_conns s j)"
    using links_upd assms(1) unfolding keeps_links_def by blast
  then show ?thesis using seg_frame assms(2) by blast
qed

lemma tx_list_total: "seg (bs_conns s) prv p xs None \<Longrightarrow> \<exists>r. tx_list api k msg p s = Some r"
proof (induction xs arbitrary: prv p s)
  case Nil
  then show ?case by (simp add: tx_list.simps)
next
  case (Cons i xs)
  then obtain c where c: "p = Some i" "bs_conns s i = Some c" "seg (bs_conns s) (Some i) (bc_next c) xs None" by auto
  obtain s1 r where r: "txconn api i k (msg c) s = (s1, r)" by (cases "txconn api i k (msg c) s")
  show ?case
  proof (cases r)
    case (Ok b)
    note st = tx_list_step [where msg = msg, OF c(2) r [unfolded Ok], folded c(1)]
    show ?thesis
    proof (cases "bs_conns s1 i")
      case None
      then show ?thesis using st by simp
    next
      case (Some c1)
      have "\<exists>f. keeps_links f \<and> s1 = upd_conn i f s"
      proof (rule txconn_cases [OF r [unfolded Ok]])
        fix f n
        assume "freeconn i ((upd_conn i f s)\<lparr>bs_fail := n\<rparr>) = (s1, Ok ())"
        then have "bs_conns s1 i = None" by (auto simp: freeconn_def Let_def split: option.splits if_splits)
        then show ?thesis using Some by simp
      qed blast
      then obtain f where f: "keeps_links f" "s1 = upd_conn i f s" by blast
      have "bc_next c1 = bc_next c" using f c(2) Some by (auto simp: keeps_links_def)
      moreover have "seg (bs_conns s1) (Some i) (bc_next c) xs None" unfolding f(2) by (rule seg_upd [OF f(1) c(3)])
      ultimately have "\<exists>r. tx_list api k msg (bc_next c1) s1 = Some r" using Cons.IH by metis
      then show ?thesis using st Some by simp
    qed
  qed (use c r in \<open>simp_all add: tx_list.simps\<close>)
qed

text \<open>What a connection becomes when a message is sent to it and memory suffices.\<close>

definition sent_to :: "u16 \<Rightarrow> byte list \<Rightarrow> bpm_conn \<Rightarrow> bpm_conn \<Rightarrow> bool" where
  "sent_to k buf c d \<longleftrightarrow>
     (if length (evbytes (bc_out c)) > MAXOUT then d = c\<lparr>bc_drop := bc_drop c + 1\<rparr>
      else \<exists>tx. d = c\<lparr>bc_out := tx\<rparr> \<and> evbytes tx = evbytes (bc_out c) @ frame k buf)"

lemma txconn_reliable:
  assumes "evbuffer_lawful api" and "evbuffer_reliable api" and "bs_conns s i = Some c"
  shows "\<exists>d. txconn api i k buf s = (s\<lparr>bs_conns := (bs_conns s)(i \<mapsto> d)\<rparr>, Ok False) \<and> sent_to k buf c d"
proof (cases "length (evbytes (bc_out c)) > MAXOUT")
  case True
  then show ?thesis using assms by (simp add: txconn_def Let_def upd_conn_def sent_to_def ev_length)
next
  case False
  let ?head = "[chr_P, chr_S] @ be16 k @ be32 (of_nat (length buf))"
  obtain tx where tx: "evbuffer_add api (bc_out c) ?head = Some tx" using reliable_add [OF assms(2)] by blast
  obtain tx2 where tx2: "evbuffer_add api tx buf = Some tx2" using reliable_add [OF assms(2)] by blast
  have "evbytes tx2 = evbytes (bc_out c) @ frame k buf"
    using ev_add(1) [OF assms(1) tx] ev_add(1) [OF assms(1) tx2] by (simp add: frame_def enc_header_def)
  moreover have "txconn api i k buf s = (s\<lparr>bs_conns := (bs_conns s)(i \<mapsto> c\<lparr>bc_out := tx2\<rparr>)\<rparr>, Ok False)"
    using False assms(1,3) tx tx2 by (simp add: txconn_def Let_def upd_conn_def ev_length)
  ultimately show ?thesis using False by (auto simp: sent_to_def)
qed

lemma tx_list_sent:
  assumes "evbuffer_lawful api" and "evbuffer_reliable api"
    and "seg (bs_conns s) prv p xs None" and "distinct xs"
  shows "\<exists>t. tx_list api k (\<lambda>_. buf) p s = Some (t, Ok ()) \<and>
    (\<forall>j. if j \<in> set xs then \<exists>c d. bs_conns s j = Some c \<and> bs_conns t j = Some d \<and> sent_to k buf c d
         else bs_conns t j = bs_conns s j)"
  using assms(3,4)
proof (induction xs arbitrary: prv p s)
  case Nil
  then show ?case by (simp add: tx_list.simps)
next
  case (Cons i xs)
  then obtain c where c: "p = Some i" "bs_conns s i = Some c" "seg (bs_conns s) (Some i) (bc_next c) xs None" by auto
  obtain d where d: "txconn api i k buf s = (s\<lparr>bs_conns := (bs_conns s)(i \<mapsto> d)\<rparr>, Ok False)" "sent_to k buf c d"
    using txconn_reliable [OF assms(1,2) c(2)] by blast
  let ?s = "s\<lparr>bs_conns := (bs_conns s)(i \<mapsto> d)\<rparr>"
  have n: "bc_next d = bc_next c" using d(2) by (auto simp: sent_to_def split: if_splits)
  have i: "i \<notin> set xs" "distinct xs" using Cons.prems(2) by simp_all
  have "seg (bs_conns ?s) (Some i) (bc_next c) xs None"
    using i(1) by (intro seg_frame [OF _ c(3)]) auto
  from Cons.IH [OF this i(2)] obtain t where t: "tx_list api k (\<lambda>_. buf) (bc_next c) ?s = Some (t, Ok ())"
    "\<forall>j. if j \<in> set xs then \<exists>c d. bs_conns ?s j = Some c \<and> bs_conns t j = Some d \<and> sent_to k buf c d
       else bs_conns t j = bs_conns ?s j" by blast
  have "tx_list api k (\<lambda>_. buf) p s = Some (t, Ok ())"
    using tx_list_step [where msg = "\<lambda>_. buf", OF c(2) d(1)] t(1) n c(1) by simp
  moreover have "if j \<in> set (i # xs) then \<exists>c d. bs_conns s j = Some c \<and> bs_conns t j = Some d \<and> sent_to k buf c d
       else bs_conns t j = bs_conns s j" for j
    using t(2) [rule_format, of j] i(1) c(2) d(2) by (cases "j = i") (auto split: if_splits)
  ultimately show ?case by blast
qed

text \<open>The BPM server implements the interface of servers.\<close>

interpretation bpm: broadcaster "\<lambda>s. evbuffer_lawful api \<and> evbuffer_reliable api \<and> bpm_ok s" "txall api"
    "\<lambda>s. dom (bs_conns s)" "\<lambda>s i. (case bs_conns s i of Some c \<Rightarrow> evbytes (bc_out c) | None \<Rightarrow> [])"
  for api
proof unfold_locales
  fix s k bs
  assume a: "evbuffer_lawful api \<and> evbuffer_reliable api \<and> bpm_ok s"
  then obtain xs where "bpm_list s xs" by (auto simp: bpm_ok_def)
  then have xs: "distinct xs" "set xs = dom (bs_conns s)" "seg (bs_conns s) None (bs_first s) xs None"
    unfolding bpm_list_def by blast+
  obtain t where t: "tx_list api k (\<lambda>_. bs) (bs_first s) s = Some (t, Ok ())"
    "\<forall>j. if j \<in> set xs then \<exists>c d. bs_conns s j = Some c \<and> bs_conns t j = Some d \<and> sent_to k bs c d
       else bs_conns t j = bs_conns s j"
    using tx_list_sent [OF _ _ xs(3,1)] a by blast
  have "dom (bs_conns t) = dom (bs_conns s)"
    using t(2) xs(2) by (auto simp: dom_def split: if_splits) (metis option.distinct(1))+
  moreover have "(case bs_conns t c of Some d \<Rightarrow> evbytes (bc_out d) | None \<Rightarrow> []) =
        (case bs_conns s c of Some d \<Rightarrow> evbytes (bc_out d) | None \<Rightarrow> []) @ frame k bs \<or>
      (case bs_conns t c of Some d \<Rightarrow> evbytes (bc_out d) | None \<Rightarrow> []) =
        (case bs_conns s c of Some d \<Rightarrow> evbytes (bc_out d) | None \<Rightarrow> [])" for c
    using t(2) [rule_format, of c] by (auto simp: sent_to_def split: if_splits)
  moreover have "bpm_ok t" using bpm_ok_tx_list [OF t(1)] a by blast
  ultimately show "\<exists>t. txall api k bs s = Some (t, Ok ()) \<and> (evbuffer_lawful api \<and> evbuffer_reliable api \<and> bpm_ok t) \<and>
      dom (bs_conns t) = dom (bs_conns s) \<and>
      (\<forall>c \<in> dom (bs_conns s).
         (case bs_conns t c of Some d \<Rightarrow> evbytes (bc_out d) | None \<Rightarrow> []) =
           (case bs_conns s c of Some d \<Rightarrow> evbytes (bc_out d) | None \<Rightarrow> []) @ frame k bs \<or>
         (case bs_conns t c of Some d \<Rightarrow> evbytes (bc_out d) | None \<Rightarrow> []) =
           (case bs_conns s c of Some d \<Rightarrow> evbytes (bc_out d) | None \<Rightarrow> []))"
    using t(1) a unfolding txall_def by blast
qed

text \<open>
  C21: Sending to all connections always ends. When memory suffices every connection gets the message as one frame, behind
  what is queued for it, or, when more than 1024 bytes are queued, counts one message as dropped. When the body of a
  message cannot be queued for the first connection, that connection is freed and its pointer to the
  next one is read all the same.
\<close>

theorem bpm_broadcast:
  assumes "evbuffer_lawful api" and "bpm_reach api s"
  shows "(\<exists>r. txall api k buf s = Some r) \<and>
    (evbuffer_reliable api \<longrightarrow> (\<exists>t. txall api k buf s = Some (t, Ok ()) \<and>
       (\<forall>j c. bs_conns s j = Some c \<longrightarrow> (\<exists>d. bs_conns t j = Some d \<and>
          (if length (evbytes (bc_out c)) > 1024 then d = c\<lparr>bc_drop := bc_drop c + 1\<rparr>
           else \<exists>tx. d = c\<lparr>bc_out := tx\<rparr> \<and> evbytes tx = evbytes (bc_out c) @ frame k buf))))) \<and>
    (\<forall>i t. bs_first s = Some i \<and> txconn api i k buf s = (t, Ok True) \<longrightarrow> txall api k buf s = Some (t, Crash UseAfterFree))"
proof -
  obtain xs where "bpm_list s xs" using bpm_reach_ok [OF assms(2)] by (auto simp: bpm_ok_def)
  then have xs: "distinct xs" "set xs = dom (bs_conns s)" "seg (bs_conns s) None (bs_first s) xs None"
    unfolding bpm_list_def by blast+
  have "\<exists>t. txall api k buf s = Some (t, Ok ()) \<and>
      (\<forall>j c. bs_conns s j = Some c \<longrightarrow> (\<exists>d. bs_conns t j = Some d \<and> sent_to k buf c d))" if rel: "evbuffer_reliable api"
  proof -
    obtain t where t: "txall api k buf s = Some (t, Ok ())"
      "\<forall>j. if j \<in> set xs then \<exists>c d. bs_conns s j = Some c \<and> bs_conns t j = Some d \<and> sent_to k buf c d
         else bs_conns t j = bs_conns s j"
      using tx_list_sent [OF assms(1) rel xs(3,1)] unfolding txall_def by blast
    have "\<exists>d. bs_conns t j = Some d \<and> sent_to k buf c d" if "bs_conns s j = Some c" for j c
      using t(2) [rule_format, of j] that xs(2) by (auto split: if_splits)
    then show ?thesis using t(1) by blast
  qed
  moreover have "txall api k buf s = Some (t, Crash UseAfterFree)"
    if "bs_first s = Some i" and t: "txconn api i k buf s = (t, Ok True)" for i t
  proof -
    obtain c where c: "bs_conns s i = Some c" using t by (auto simp: txconn_def split: option.splits)
    have "bs_conns t i = None"
      by (rule txconn_cases [OF t]) (auto simp: freeconn_def Let_def split: option.splits if_splits)
    then show ?thesis using tx_list_step [where msg = "\<lambda>_. buf", OF c t] that(1) by (simp add: txall_def)
  qed
  moreover have "\<exists>r. txall api k buf s = Some r" unfolding txall_def by (rule tx_list_total [OF xs(3)])
  ultimately show ?thesis unfolding sent_to_def by blast
qed

theorem bpm_broadcast_witness: "\<exists>t. txall chunk_api 7 [1, 2] demo_bpm = Some (t, Ok ())"
  using bpm_broadcast [OF chunk_api_lawful bpm_reach.conn [OF bpm_reach.new demo_bpm_eval(1)]] chunk_api_reliable by blast

lemma connread_go:
  assumes "bs_conns s i = Some c" and "read_round api i c s = (s1, Ok True)"
    and "read_left api (bs_conns s1 i) < read_left api (Some c)"
  shows "connread api i s = connread api i s1"
  using assms by (subst connread.simps) simp

lemma connread_stop:
  assumes "bs_conns s i = Some c" and "read_round api i c s = (s1, Ok False)"
  shows "connread api i s = (s1, Ok ())"
  using assms by (subst connread.simps) simp

lemma connread_crash:
  assumes "bs_conns s i = Some c" and "read_round api i c s = (s1, Crash e)"
  shows "connread api i s = (s1, Crash e)"
  using assms by (subst connread.simps) simp

text \<open>The header of the first message.\<close>

lemma connread_head:
  assumes "evbuffer_lawful api" and "bs_conns s i = Some c" and "\<not> bc_havehead c" and "bc_msglen c = 0"
    and "evbytes (bc_in c) = enc_header k n @ bs" and "unat n \<le> MAXMSG"
  shows "\<exists>d s1. bs_conns s1 i = Some d \<and> connread api i s = connread api i s1 \<and> evbytes (bc_in d) = bs \<and>
    bc_havehead d \<and> bc_msgid d = k \<and> bc_msglen d = n \<and> bc_user d = bc_user c"
proof -
  obtain h rx where h: "evbuffer_remove api (bc_in c) 8 = (h, rx)" by (cases "evbuffer_remove api (bc_in c) 8")
  then have hr: "h = enc_header k n" "evbytes rx = bs"
    using ev_remove [OF assms(1), of "bc_in c" 8] assms(5) by simp_all
  have m: "hdr_marked h" "hdr_id h = k" "hdr_len h = n" using hdr_enc_header [of k n "[]"] by (simp_all add: hr(1))
  have len: "evbuffer_get_length api (bc_in c) = 8 + length bs" using ev_length [OF assms(1)] assms(5) by simp
  let ?f = "\<lambda>x. x\<lparr>bc_in := rx, bc_havehead := True, bc_msgid := k, bc_msglen := n\<rparr>"
  have "\<not> n > of_nat MAXMSG" using assms(6) by (simp add: word_le_nat_alt not_less)
  then have "read_head api i c s = (upd_conn i ?f s, Ok True)"
    using h m len by (simp add: read_head_def)
  then have r: "read_round api i c s = (upd_conn i ?f s, Ok True)"
    using assms(3,4) by (simp add: read_round_def)
  have "read_left api (bs_conns (upd_conn i ?f s) i) < read_left api (Some c)"
    using assms(2,3) len ev_length [OF assms(1), of rx] hr(2) by (simp add: read_left_def)
  from connread_go [OF assms(2) r this] show ?thesis
    using assms(2) hr(2) by (intro exI [of _ "?f c"] exI [of _ "upd_conn i ?f s"]) simp
qed

text \<open>
  C39: Reception mixes up the two sizes it waits for. After the header of the first message it waits for 8 bytes, whatever
  the length of the body: a complete shorter body stays unread; when 8 bytes of a longer one are there, but not all, an
  assertion ends the server; and with a complete body as many bytes behind it are thrown away.
\<close>

theorem bpm_read:
  assumes "evbuffer_lawful api" and "evbuffer_reliable api" and "bs_conns s i = Some c" and "\<not> bc_havehead c"
    and "bc_msglen c = 0" and "evbytes (bc_in c) = enc_header k n @ bs" and "unat n \<le> 1024" and "evbytes (bc_user c) = []"
  shows "if length bs < 8
    then \<exists>t d. connread api i s = (t, Ok ()) \<and> bs_conns t i = Some d \<and> evbytes (bc_in d) = bs \<and> bc_user d = bc_user c \<and> bc_low d = 8
    else if length bs < unat n then snd (connread api i s) = Crash AssertFailed
    else \<exists>t d. connread api i s = connread api i t \<and> bs_conns t i = Some d \<and> \<not> bc_havehead d \<and>
      evbytes (bc_user d) = take (unat n) bs \<and> evbytes (bc_in d) = drop (2 * unat n) bs"
proof -
  obtain d s1 where d: "bs_conns s1 i = Some d" "connread api i s = connread api i s1" "evbytes (bc_in d) = bs"
    "bc_havehead d" "bc_msglen d = n" "bc_user d = bc_user c"
    using connread_head [OF assms(1,3-7)] by blast
  have len: "evbuffer_get_length api (bc_in d) = length bs" using ev_length [OF assms(1)] d(3) by simp
  consider "length bs < 8" | "8 \<le> length bs" "length bs < unat n" | "8 \<le> length bs" "unat n \<le> length bs" by linarith
  then show ?thesis
  proof cases
    case 1
    then have "read_round api i d s1 = (upd_conn i (\<lambda>x. x\<lparr>bc_low := 8\<rparr>) s1, Ok False)"
      using d(4) len by (simp add: read_round_def)
    then show ?thesis using connread_stop [OF d(1)] d 1 by simp
  next
    case 2
    then have "read_round api i d s1 = (s1, Crash AssertFailed)"
      using d(4,5) len by (simp add: read_round_def read_body_def)
    then show ?thesis using connread_crash [OF d(1)] d(2) 2 by simp
  next
    case 3
    obtain r rx u where r: "evbuffer_remove_buffer api (bc_in d) (bc_user d) (unat n) = (r, rx, u)"
      by (metis prod_cases3)
    have "0 \<le> r" using assms(2) r by (metis evbuffer_reliable_def fst_conv)
    note rb = ev_remove_buffer [OF assms(1) r this]
    let ?rx = "evbuffer_drain api rx (unat n)"
    let ?f = "\<lambda>x. x\<lparr>bc_havehead := False, bc_in := ?rx, bc_user := u\<rparr>"
    have u: "evbuffer_get_length api (bc_user d) = 0" using ev_length [OF assms(1)] d(6) assms(8) by simp
    have e: "evbytes ?rx = drop (2 * unat n) bs" using ev_drain [OF assms(1)] rb(2) d(3) by (simp add: mult_2)
    have rr: "read_round api i d s1 = (upd_conn i ?f s1, Ok True)"
      using 3 d(4,5) len r u by (simp add: read_round_def read_body_def Let_def)
    have "read_left api (bs_conns (upd_conn i ?f s1) i) < read_left api (Some d)"
      using d(1,4) len ev_length [OF assms(1), of ?rx] e by (simp add: read_left_def)
    from connread_go [OF d(1) rr this] have "connread api i s = connread api i (upd_conn i ?f s1)" using d(2) by simp
    moreover have "evbytes u = take (unat n) bs" using rb(3) d(3,6) assms(8) by simp
    ultimately show ?thesis using 3 d(1) e by (auto intro: exI [of _ "upd_conn i ?f s1"])
  qed
qed

definition demo_bpm_conn :: bpm_conn where
  "demo_bpm_conn =
     \<lparr>bc_next = None, bc_prev = None, bc_in = \<lparr>chains = [enc_header 1 9 @ [1, 2, 3, 4, 5, 6, 7, 8]], room = 0\<rparr>,
      bc_out = \<lparr>chains = [], room = 0\<rparr>, bc_user = \<lparr>chains = [], room = 0\<rparr>, bc_havehead = False, bc_msgid = 0,
      bc_msglen = 0, bc_drop = 0, bc_low = 8\<rparr>"

theorem bpm_read_witness: "snd (connread chunk_api 0 (bpm_new\<lparr>bs_conns := [0 \<mapsto> demo_bpm_conn]\<rparr>)) = Crash AssertFailed"
proof -
  let ?s = "bpm_new\<lparr>bs_conns := [0 \<mapsto> demo_bpm_conn]\<rparr>"
  have "bs_conns ?s 0 = Some demo_bpm_conn" "\<not> bc_havehead demo_bpm_conn" "bc_msglen demo_bpm_conn = 0"
    "evbytes (bc_in demo_bpm_conn) = enc_header 1 9 @ [1, 2, 3, 4, 5, 6, 7, 8]" "evbytes (bc_user demo_bpm_conn) = []"
    by (simp_all add: demo_bpm_conn_def evbytes_def)
  from bpm_read [OF chunk_api_lawful chunk_api_reliable this(1-4) _ this(5)] show ?thesis by simp
qed

end
