(* ===== verification/Sig_Dft.thy ===== *)
theory Sig_Dft
  imports Complex_Main
begin

text \<open>
  The discrete Fourier transform of real data, as FFTW documents it for one-dimensional transforms of real
  input (r2c), and its energy: the sum of the squares of the coefficients that r2c returns, by
  Parseval's theorem.
\<close>

section \<open>The transform\<close>

definition dft_coeff :: "real list \<Rightarrow> nat \<Rightarrow> real \<times> real" where
  "dft_coeff xs j =
     (\<Sum>k<length xs. xs ! k * cos (2 * pi * real j * real k / real (length xs)),
      - (\<Sum>k<length xs. xs ! k * sin (2 * pi * real j * real k / real (length xs))))"

definition dft :: "real list \<Rightarrow> (real \<times> real) list" where
  "dft xs = map (dft_coeff xs) [0..<length xs div 2 + 1]"

definition sqnorm :: "real \<times> real \<Rightarrow> real" where
  "sqnorm c = fst c * fst c + snd c * snd c"

definition energy :: "real list \<Rightarrow> nat \<Rightarrow> real" where
  "energy xs j = sqnorm (dft_coeff xs j)"

lemma length_dft [simp]: "length (dft xs) = length xs div 2 + 1"
  by (simp add: dft_def)

lemma dft_nth: "j \<le> length xs div 2 \<Longrightarrow> dft xs ! j = dft_coeff xs j"
  by (simp add: dft_def less_Suc_eq_le del: upt_Suc)

section \<open>Parseval\<close>

text \<open>Cosines at the multiples of a frequency cancel.\<close>

lemma cos_sum_zero:
  assumes "0 < d" and "d < n"
  shows "(\<Sum>j<n. cos (2 * pi * real j * real d / real n)) = 0"
proof -
  let ?z = "cis (2 * pi * real d / real n)"
  have "?z \<noteq> 1"
  proof
    assume "?z = 1"
    then have "cos (2 * pi * real d / real n) = 1" by (metis cis.simps(1) one_complex.simps(1))
    then obtain m :: int where "2 * pi * real d / real n = of_int m * 2 * pi"
      using cos_one_2pi_int by blast
    then have "(2 * pi) * (real d / real n) = (2 * pi) * of_int m" by simp
    then have "real d / real n = of_int m" using pi_gt_zero by (metis mult_left_cancel mult_eq_0_iff less_numeral_extra(3) zero_neq_numeral)
    then have "real d = of_int m * real n" using assms by (simp add: field_simps)
    then have "int d = m * int n" by (metis of_int_eq_iff of_int_mult of_int_of_nat_eq)
    then show False using assms by (metis int_dvd_int_iff dvd_triv_right nat_dvd_not_less)
  qed
  moreover have "?z ^ n = 1"
  proof -
    have "?z ^ n = cis (2 * pi * real d)" using assms by (simp add: DeMoivre)
    also have "\<dots> = 1" by (rule cis_multiple_2pi) (metis Ints_of_nat)
    finally show ?thesis .
  qed
  ultimately have "(\<Sum>j<n. ?z ^ j) = 0" by (simp add: geometric_sum)
  then have "Re (\<Sum>j<n. ?z ^ j) = 0" by simp
  moreover have "Re (?z ^ j) = cos (2 * pi * real j * real d / real n)" for j
    by (simp add: DeMoivre mult.commute mult.left_commute)
  ultimately show ?thesis by simp
qed

lemma cos_sum:
  assumes "k < n" and "l < n"
  shows "(\<Sum>j<n. cos (2 * pi * real j * real k / real n) * cos (2 * pi * real j * real l / real n) +
      sin (2 * pi * real j * real k / real n) * sin (2 * pi * real j * real l / real n)) =
    (if k = l then real n else 0)"
proof -
  let ?a = "\<lambda>j k. 2 * pi * real j * real k / real n"
  have d: "cos (?a j k) * cos (?a j l) + sin (?a j k) * sin (?a j l) = cos (?a j k - ?a j l)" for j
    by (simp add: cos_diff)
  show ?thesis
  proof (cases "k = l")
    case True
    then show ?thesis by (simp add: d)
  next
    case False
    define m where "m = (if k < l then l - k else k - l)"
    have m: "0 < m" "m < n" using False assms by (auto simp: m_def)
    have "cos (?a j k - ?a j l) = cos (?a j m)" for j
    proof (cases "k < l")
      case True
      then have "?a j k - ?a j l = - ?a j m" by (simp add: m_def of_nat_diff right_diff_distrib left_diff_distrib diff_divide_distrib)
      then show ?thesis by (metis cos_minus)
    next
      case False
      then have "?a j k - ?a j l = ?a j m" by (simp add: m_def of_nat_diff right_diff_distrib left_diff_distrib diff_divide_distrib)
      then show ?thesis by simp
    qed
    then show ?thesis using False cos_sum_zero [OF m] by (simp add: d)
  qed
qed

lemma energy_double:
  "energy xs j =
     (\<Sum>k<length xs. \<Sum>l<length xs. xs ! k * xs ! l *
        (cos (2 * pi * real j * real k / real (length xs)) * cos (2 * pi * real j * real l / real (length xs)) +
         sin (2 * pi * real j * real k / real (length xs)) * sin (2 * pi * real j * real l / real (length xs))))"
  unfolding energy_def sqnorm_def dft_coeff_def
  by (simp add: sum_product sum.distrib algebra_simps)

lemma parseval:
  assumes "xs \<noteq> []"
  shows "(\<Sum>j<length xs. energy xs j) = real (length xs) * (\<Sum>k<length xs. xs ! k * xs ! k)"
proof -
  let ?n = "length xs"
  let ?c = "\<lambda>j k l. cos (2 * pi * real j * real k / real ?n) * cos (2 * pi * real j * real l / real ?n) +
         sin (2 * pi * real j * real k / real ?n) * sin (2 * pi * real j * real l / real ?n)"
  have "(\<Sum>j<?n. energy xs j) = (\<Sum>j<?n. \<Sum>k<?n. \<Sum>l<?n. xs ! k * xs ! l * ?c j k l)"
    by (simp add: energy_double)
  also have "\<dots> = (\<Sum>k<?n. \<Sum>j<?n. \<Sum>l<?n. xs ! k * xs ! l * ?c j k l)" by (rule sum.swap)
  also have "\<dots> = (\<Sum>k<?n. \<Sum>l<?n. \<Sum>j<?n. xs ! k * xs ! l * ?c j k l)"
    by (intro sum.cong refl sum.swap)
  also have "\<dots> = (\<Sum>k<?n. \<Sum>l<?n. xs ! k * xs ! l * (if k = l then real ?n else 0))"
    by (intro sum.cong refl) (simp add: cos_sum flip: sum_distrib_left)
  also have "\<dots> = (\<Sum>k<?n. xs ! k * xs ! k * real ?n)"
    by (intro sum.cong refl) (simp add: if_distrib cong: if_cong)
  finally show ?thesis by (simp add: sum_distrib_left mult.commute mult.left_commute)
qed

lemma energy_mirror:
  assumes "0 < j" and "j < length xs"
  shows "energy xs (length xs - j) = energy xs j"
proof -
  let ?n = "length xs"
  let ?a = "\<lambda>j k. 2 * pi * real j * real k / real ?n"
  have "real ?n \<noteq> 0" using assms by auto
  then have e: "?a (?n - j) k = real k * (2 * pi) - ?a j k" for k
    using assms by (simp add: of_nat_diff right_diff_distrib left_diff_distrib diff_divide_distrib)
  have c: "cos (real k * (2 * pi)) = 1 \<and> sin (real k * (2 * pi)) = 0" for k
    using cos_2npi [of k] sin_2npi [of k] by (simp add: mult.commute mult.left_commute)
  have "cos (?a (?n - j) k) = cos (?a j k)" "sin (?a (?n - j) k) = - sin (?a j k)" for k
    using c [of k] unfolding e by (simp_all add: cos_diff sin_diff)
  then show ?thesis by (simp add: energy_def sqnorm_def dft_coeff_def sum_negf)
qed

lemma energy_zero: "energy xs 0 = (\<Sum>k<length xs. xs ! k) ^ 2"
  by (simp add: energy_def sqnorm_def dft_coeff_def power2_eq_square)

lemma energy_half:
  assumes "even (length xs)" and "xs \<noteq> []"
  shows "energy xs (length xs div 2) = (\<Sum>k<length xs. (- 1) ^ k * xs ! k) ^ 2"
proof -
  obtain m where m: "length xs = 2 * m" using assms(1) by blast
  have m0: "m \<noteq> 0" using m assms(2) by (metis length_0_conv mult_0_right)
  have a: "2 * pi * real (length xs div 2) * real k / real (length xs) = pi * real k" for k
    using m m0 by simp
  show ?thesis
    unfolding energy_def sqnorm_def dft_coeff_def a
    by (simp add: power2_eq_square cos_npi2 sin_npi2 mult.commute)
qed

text \<open>
  The energy of the upper half is that of the lower half; for an even number of points the highest frequency
  is its own mirror.
\<close>

lemma half_energy:
  assumes "xs \<noteq> []"
  shows "2 * (\<Sum>j\<in>{1..length xs div 2}. energy xs j) =
    real (length xs) * (\<Sum>k<length xs. xs ! k * xs ! k) - (\<Sum>k<length xs. xs ! k) ^ 2 +
    (if even (length xs) then (\<Sum>k<length xs. (- 1) ^ k * xs ! k) ^ 2 else 0)"
proof -
  let ?n = "length xs" and ?m = "length xs div 2"
  have n: "0 < ?n" using assms by simp
  have "{..<?n} = insert 0 {1..<?n}" using n by auto
  then have all: "(\<Sum>j<?n. energy xs j) = energy xs 0 + (\<Sum>j\<in>{1..<?n}. energy xs j)" by simp
  have "{1..<?n} = {1..?m} \<union> {?m + 1..<?n}" using n by auto
  then have split: "(\<Sum>j\<in>{1..<?n}. energy xs j) =
      (\<Sum>j\<in>{1..?m}. energy xs j) + (\<Sum>j\<in>{?m + 1..<?n}. energy xs j)"
    by (simp only:) (rule sum.union_disjoint, auto)
  have "(\<Sum>j\<in>{?m + 1..<?n}. energy xs j) = (\<Sum>j\<in>{1..<?n - ?m}. energy xs j)"
    by (rule sum.reindex_bij_witness [of _ "\<lambda>j. ?n - j" "\<lambda>j. ?n - j"]) (auto simp: energy_mirror)
  moreover have "(\<Sum>j\<in>{1..?m}. energy xs j) =
      (\<Sum>j\<in>{1..<?n - ?m}. energy xs j) + (if even ?n then energy xs ?m else 0)"
  proof (cases "even ?n")
    case True
    then obtain m where "?n = 2 * m" by blast
    then have "{1..?m} = insert ?m {1..<?n - ?m}" using n by auto
    moreover have "?n - ?m = ?m" using True by auto
    ultimately show ?thesis using True by simp
  next
    case False
    then have "{1..?m} = {1..<?n - ?m}" by (auto elim!: oddE)
    then show ?thesis using False by simp
  qed
  ultimately show ?thesis
    using all split parseval [OF assms] energy_zero [of xs] energy_half [OF _ assms] by auto
qed

end
