(* ===== verification/Sig_Psd.thy ===== *)
theory Sig_Psd
  imports Psc_Prelude Sig_Dft
begin

text \<open>
  Power spectra (class \<open>PSDCalc\<close>, sigApp/src/fftwrap.h, fftwrap.cpp). Numbers are exact.

  FFTW is a parameter: whether the i-th plan can be made, what planning with FFTW_MEASURE leaves in the
  input (it "overwrites the in/out arrays"), and the transform itself. \<open>nan\<close> stands for the result of a
  division by zero. \<open>plans\<close> tells which plans exist.
\<close>

section \<open>State\<close>

record psd =
  windowtype :: nat
  window :: "real list"
  outint :: "real list"
  p_input :: "real list"
  p_output :: "real list"
  plans :: "bool list"
  middle :: "(real \<times> real) list list"
  fscale :: "real list"
  totalpowertime :: real
  totalpowerfreq :: real
  nfft :: nat
  fsamp :: real
  mult :: real
  replan :: bool
  newval :: bool

record fftw =
  plan_ok :: "nat \<Rightarrow> bool"
  plan_clobber :: "nat \<Rightarrow> real list \<Rightarrow> real list"
  execute :: "real list \<Rightarrow> (real \<times> real) list"
  nan :: real

abbreviation (input) Hann :: nat where "Hann \<equiv> 1"

text \<open>The window type is not initialized: \<open>wt\<close> is whatever it has.\<close>

definition PSDCalc_new :: "nat \<Rightarrow> psd" where
  "PSDCalc_new wt =
     \<lparr>windowtype = wt, window = [], outint = [], p_input = [], p_output = [], plans = [], middle = [], fscale = [],
      totalpowertime = 0, totalpowerfreq = 0, nfft = 0, fsamp = 0, mult = 0, replan = True, newval = True\<rparr>"

definition psd_set_nfft :: "nat \<Rightarrow> psd \<Rightarrow> psd \<times> bool" where
  "psd_set_nfft n s = (if n \<noteq> nfft s then (s\<lparr>nfft := n, replan := True\<rparr>, True) else (s, False))"

definition psd_set_fsamp :: "real \<Rightarrow> psd \<Rightarrow> psd \<times> bool" where
  "psd_set_fsamp f s = (if fsamp s \<noteq> f then (s\<lparr>fsamp := f, replan := True\<rparr>, True) else (s, False))"

definition resize :: "'a \<Rightarrow> 'a list \<Rightarrow> nat \<Rightarrow> 'a list" where
  "resize x xs n = take n xs @ replicate (n - length xs) x"

definition psd_set_input :: "real list \<Rightarrow> real \<Rightarrow> psd \<Rightarrow> psd \<times> bool" where
  "psd_set_input ps m0 s =
     (let m = (if m0 = 0 then 1 else m0);
          changed = (length ps \<noteq> length (p_input s) \<or> m \<noteq> mult s);
          s1 = (if changed then s\<lparr>p_input := resize 0 (p_input s) (length ps), mult := m, replan := True\<rparr> else s)
      in (s1\<lparr>p_input := ps, newval := True\<rparr>, changed))"

section \<open>Calculation\<close>

definition ntime :: "psd \<Rightarrow> nat" where
  "ntime s = max 0 (min (nfft s) (length (p_input s)))"

definition nfreq :: "psd \<Rightarrow> nat" where
  "nfreq s = ntime s div 2 + 1"

definition nbins :: "psd \<Rightarrow> nat" where
  "nbins s = length (p_input s) div ntime s"

definition PI :: real where "PI = 3.141592653589793"

definition make_window :: "fftw \<Rightarrow> psd \<Rightarrow> psd" where
  "make_window ff s =
     (let win = resize 0 (window s) (length (p_input s))
      in s\<lparr>window :=
             (if windowtype s = Hann
              then map (\<lambda>n. if ntime s = 1 then nan ff
                            else let temp = sin (PI / real (ntime s - 1) * real n) in temp * temp) [0..<length win]
              else replicate (length win) 1)\<rparr>)"

definition prepare_input :: "psd \<Rightarrow> psd \<times> unit outcome" where
  "prepare_input s =
     (let inp = p_input s; N = length inp; mean = sum_list inp / real N;
          temp = map (\<lambda>x. (x - mean) / mult s) inp
      in if length (window s) < N then (s, Crash OutOfBounds)
         else (s\<lparr>p_input := map (\<lambda>(t, w). t * w) (zip temp (window s)),
                 totalpowertime := sum_list (map (\<lambda>t. t * t) temp) / real N, newval := False\<rparr>, Ok ()))"

text \<open>The i-th piece of the input.\<close>

definition segment :: "psd \<Rightarrow> nat \<Rightarrow> real list" where
  "segment s i = take (ntime s) (drop (i * ntime s) (p_input s))"

text \<open>The loop that makes plans, from number \<open>i\<close> on for \<open>n\<close> more.\<close>

fun plan_loop :: "fftw \<Rightarrow> nat \<Rightarrow> nat \<Rightarrow> psd \<Rightarrow> psd \<times> unit outcome" where
  "plan_loop ff 0 i s = (s, Ok ())"
| "plan_loop ff (Suc n) i s =
     (let s1 = s\<lparr>p_input := splice_at (i * ntime s) (plan_clobber ff i (segment s i)) (p_input s)\<rparr>
      in if \<not> plan_ok ff i then (s1, Throw BadAlloc)
         else plan_loop ff n (Suc i) (s1\<lparr>plans := (plans s)[i := True]\<rparr>))"

definition make_plan :: "fftw \<Rightarrow> psd \<Rightarrow> psd \<times> unit outcome" where
  "make_plan ff s =
     (let s1 = s\<lparr>plans := replicate (nbins s) False,
                 middle := map (\<lambda>m. resize (0, 0) m (nfreq s)) (resize [] (middle s) (nbins s)),
                 p_output := resize 0 (p_output s) (nfreq s - 1),
                 outint := resize 0 (outint s) (nfreq s - 1),
                 fscale := map (\<lambda>i. real (i + 1) * (fsamp s / real (ntime s))) [0..<nfreq s - 1]\<rparr>
      in case plan_loop ff (nbins s) 0 s1 of
           (s2, Ok _) \<Rightarrow> (s2\<lparr>replan := False\<rparr>, Ok ())
         | (s2, r) \<Rightarrow> (s2, r))"

text \<open>The sums of the spectrum so far, and their roots.\<close>

fun sum_power :: "real \<Rightarrow> real \<Rightarrow> real list \<Rightarrow> real \<times> real list" where
  "sum_power fs tot [] = (tot, [])"
| "sum_power fs tot (x # xs) =
     (case sum_power fs (tot + x) xs of (fin, rs) \<Rightarrow> (fin, (sqrt ((tot + x) / fs) * 1000) # rs))"

definition spectrum :: "fftw \<Rightarrow> psd \<Rightarrow> psd \<times> unit outcome" where
  "spectrum ff s =
     (if length (plans s) \<noteq> nbins s \<or> length (middle s) \<noteq> nbins s \<or> length (p_output s) \<noteq> nfreq s - 1
      then (s, Crash AssertFailed)
      else if False \<in> set (plans s) then (s, Crash NullPointer)
      else
        let mid = map (\<lambda>i. execute ff (segment s i)) [0..<nbins s];
            pows = map (\<lambda>j. sum_list (map (\<lambda>m. fst (m ! j) * fst (m ! j) + snd (m ! j) * snd (m ! j)) mid))
                     [1..<nfreq s];
            factor = 2 / real (ntime s * ntime s * nbins s);
            out = map (\<lambda>x. x * factor) pows;
            (tot, roots) = sum_power (fsamp s) 0 out
        in if length (outint s) < nfreq s - 1 then (s, Crash OutOfBounds)
           else (s\<lparr>middle := mid, p_output := out, totalpowerfreq := tot,
                   outint := roots @ drop (nfreq s - 1) (outint s)\<rparr>, Ok ()))"

definition psd_window :: "fftw \<Rightarrow> psd \<Rightarrow> psd" where
  "psd_window ff s = (if replan s then make_window ff s else s)"

definition psd_input :: "psd \<Rightarrow> psd \<times> unit outcome" where
  "psd_input s = (if newval s then prepare_input s else (s, Ok ()))"

definition psd_plan :: "fftw \<Rightarrow> psd \<Rightarrow> psd \<times> unit outcome" where
  "psd_plan ff s = (if replan s then make_plan ff s else (s, Ok ()))"

definition calculate :: "fftw \<Rightarrow> psd \<Rightarrow> psd \<times> unit outcome" where
  "calculate ff s =
     (if p_input s = [] \<or> nfft s = 0 then (s, Ok ())
      else if \<not> (ntime s > 0 \<and> nfreq s > 0 \<and> nbins s > 0 \<and> nbins s * ntime s \<le> length (p_input s))
      then (s, Crash AssertFailed)
      else case psd_input (psd_window ff s) of
          (s2, Ok _) \<Rightarrow>
            (case psd_plan ff s2 of
               (s3, Ok _) \<Rightarrow> spectrum ff s3
             | (s3, r) \<Rightarrow> (s3, r))
        | (s2, r) \<Rightarrow> (s2, r))"

section \<open>Sizes\<close>

text \<open>FFTW keeps the sizes of arrays.\<close>

definition fftw_ok :: "fftw \<Rightarrow> bool" where
  "fftw_ok ff \<longleftrightarrow>
     (\<forall>i xs. length (plan_clobber ff i xs) = length xs) \<and>
     (\<forall>xs. xs \<noteq> [] \<longrightarrow> length (execute ff xs) = length xs div 2 + 1)"

definition planned :: "psd \<Rightarrow> bool" where
  "planned s \<longleftrightarrow>
     p_input s \<noteq> [] \<and> nfft s \<noteq> 0 \<and> length (window s) = length (p_input s) \<and>
     plans s = replicate (nbins s) True \<and> length (middle s) = nbins s \<and>
     length (p_output s) = nfreq s - 1 \<and> length (outint s) = nfreq s - 1 \<and> length (fscale s) = nfreq s - 1"

definition psd_ok :: "psd \<Rightarrow> bool" where
  "psd_ok s \<longleftrightarrow> (\<not> replan s \<longrightarrow> planned s)"

inductive psd_reach :: "fftw \<Rightarrow> psd \<Rightarrow> bool" for ff where
  new: "psd_reach ff (PSDCalc_new wt)"
| win: "psd_reach ff s \<Longrightarrow> psd_reach ff (s\<lparr>windowtype := wt, replan := True\<rparr>)"
| nfft: "psd_reach ff s \<Longrightarrow> psd_reach ff (fst (psd_set_nfft n s))"
| fsamp: "psd_reach ff s \<Longrightarrow> psd_reach ff (fst (psd_set_fsamp f s))"
| inp: "psd_reach ff s \<Longrightarrow> psd_reach ff (fst (psd_set_input ps m s))"
| calc: "psd_reach ff s \<Longrightarrow> calculate ff s = (t, Ok y) \<Longrightarrow> psd_reach ff t"
| failed: "psd_reach ff s \<Longrightarrow> calculate ff s = (t, Throw e) \<Longrightarrow> psd_reach ff t"

lemma length_resize [simp]: "length (resize x xs n) = n"
  by (simp add: resize_def)

lemma sizes_pos:
  assumes "p_input s \<noteq> []" and "nfft s \<noteq> 0"
  shows "0 < ntime s" "0 < nfreq s" "0 < nbins s" "nbins s * ntime s \<le> length (p_input s)"
    "ntime s \<le> length (p_input s)"
  using assms by (auto simp: ntime_def nfreq_def nbins_def min_def div_greater_zero_iff Suc_le_eq)

lemma sizes_cong:
  "length (p_input t) = length (p_input s) \<Longrightarrow> nfft t = nfft s \<Longrightarrow> ntime t = ntime s \<and> nfreq t = nfreq s \<and> nbins t = nbins s"
  by (simp add: ntime_def nfreq_def nbins_def)

text \<open>What the steps of a calculation change.\<close>

lemma plan_loop_sizes:
  assumes "fftw_ok ff" and "i + n = nbins s" and "p_input s \<noteq> []" and "nfft s \<noteq> 0" and "length (plans s) = nbins s"
  shows "\<exists>ps bs r. plan_loop ff n i s = (s\<lparr>p_input := ps, plans := bs\<rparr>, r) \<and> length ps = length (p_input s) \<and>
    \<not> crashed r \<and> (r = Ok () \<longrightarrow> (\<forall>j < nbins s. bs ! j = (j < i \<longrightarrow> plans s ! j)) \<and> length bs = nbins s)"
  using assms(2-)
proof (induction n arbitrary: i s)
  case 0
  then show ?case
    by (intro exI [of _ "p_input s"] exI [of _ "plans s"]) simp
next
  case (Suc n)
  let ?ps = "splice_at (i * ntime s) (plan_clobber ff i (segment s i)) (p_input s)"
  note sz = sizes_pos [OF Suc.prems(2,3)]
  have "(i + 1) * ntime s \<le> nbins s * ntime s" using Suc.prems(1) by (intro mult_right_mono) simp_all
  then have le: "i * ntime s + ntime s \<le> length (p_input s)" using sz(4) by simp
  then have "length (segment s i) = ntime s" by (simp add: segment_def)
  then have l: "length ?ps = length (p_input s)"
    using le assms(1) by (intro length_splice_at) (simp add: fftw_ok_def)
  show ?case
  proof (cases "plan_ok ff i")
    case False
    then show ?thesis using l
      by (intro exI [of _ ?ps] exI [of _ "plans s"] exI [of _ "Throw BadAlloc"]) (simp add: Let_def)
  next
    case True
    let ?s = "s\<lparr>p_input := ?ps, plans := (plans s)[i := True]\<rparr>"
    have eq: "nbins ?s = nbins s" using sizes_cong [of ?s s] l by simp
    have "?ps \<noteq> []" using l Suc.prems(2) by (metis length_0_conv)
    then obtain ps bs r where "plan_loop ff n (Suc i) ?s = (?s\<lparr>p_input := ps, plans := bs\<rparr>, r)"
      "length ps = length ?ps" "\<not> crashed r"
      "r = Ok () \<longrightarrow> (\<forall>j < nbins s. bs ! j = (j < Suc i \<longrightarrow> plans ?s ! j)) \<and> length bs = nbins s"
      using Suc.IH [of "Suc i" ?s] Suc.prems eq by auto
    then show ?thesis
      using True l Suc.prems(1,4)
      by (intro exI [of _ ps] exI [of _ bs] exI [of _ r]) (auto simp: Let_def nth_list_update less_Suc_eq)
  qed
qed

lemma make_plan_sizes:
  assumes "fftw_ok ff" and "p_input s \<noteq> []" and "nfft s \<noteq> 0" and "length (window s) = length (p_input s)"
  shows "\<exists>t r. make_plan ff s = (t, r) \<and> \<not> crashed r \<and> length (p_input t) = length (p_input s) \<and> nfft t = nfft s \<and>
    newval t = newval s \<and> window t = window s \<and> fsamp t = fsamp s \<and>
    (r = Ok () \<longrightarrow> planned t \<and> \<not> replan t) \<and> (r \<noteq> Ok () \<longrightarrow> replan t = replan s)"
proof -
  define s1 where "s1 = s\<lparr>plans := replicate (nbins s) False,
                 middle := map (\<lambda>m. resize (0, 0) m (nfreq s)) (resize [] (middle s) (nbins s)),
                 p_output := resize 0 (p_output s) (nfreq s - 1),
                 outint := resize 0 (outint s) (nfreq s - 1),
                 fscale := map (\<lambda>i. real (i + 1) * (fsamp s / real (ntime s))) [0..<nfreq s - 1]\<rparr>"
  have eq: "nbins s1 = nbins s" "nfreq s1 = nfreq s" using sizes_cong [of s1 s] by (simp_all add: s1_def)
  have "0 + nbins s = nbins s1" "p_input s1 \<noteq> []" "nfft s1 \<noteq> 0" "length (plans s1) = nbins s1"
    using assms(2,3) eq by (simp_all add: s1_def)
  from plan_loop_sizes [OF assms(1) this] obtain ps bs r where
    p0: "plan_loop ff (nbins s) 0 s1 = (s1\<lparr>p_input := ps, plans := bs\<rparr>, r)" "length ps = length (p_input s1)"
    "\<not> crashed r" "r = Ok () \<longrightarrow> (\<forall>j < nbins s1. bs ! j = (j < 0 \<longrightarrow> plans s1 ! j)) \<and> length bs = nbins s1"
    by blast
  have "p_input s1 = p_input s" by (simp add: s1_def)
  then have p: "plan_loop ff (nbins s) 0 s1 = (s1\<lparr>p_input := ps, plans := bs\<rparr>, r)" "length ps = length (p_input s)"
    "\<not> crashed r" "r = Ok () \<longrightarrow> (\<forall>j < nbins s. bs ! j) \<and> length bs = nbins s"
    using p0 eq by simp_all
  have m: "make_plan ff s = (case (s1\<lparr>p_input := ps, plans := bs\<rparr>, r) of
      (s2, Ok _) \<Rightarrow> (s2\<lparr>replan := False\<rparr>, Ok ()) | (s2, r) \<Rightarrow> (s2, r))"
    using p(1) unfolding make_plan_def s1_def [symmetric] Let_def by simp
  show ?thesis
  proof (cases r)
    case (Ok u)
    let ?t = "s1\<lparr>p_input := ps, plans := bs, replan := False\<rparr>"
    have "nbins ?t = nbins s" "nfreq ?t = nfreq s" using sizes_cong [of ?t s] p(2) by (simp_all add: s1_def)
    moreover have "bs = replicate (nbins s) True" using p(4) Ok by (auto intro: nth_equalityI)
    moreover have "ps \<noteq> []" using p(2) assms(2) by auto
    ultimately have "planned ?t" using assms(3,4) p(2) by (simp add: planned_def s1_def)
    then show ?thesis using m Ok p(2) by (auto simp: s1_def)
  next
    case (Throw e)
    then show ?thesis using m p(2) by (auto simp: s1_def)
  next
    case (Crash c)
    then show ?thesis using p(3) by simp
  qed
qed

lemma sum_power_length: "length (snd (sum_power fs tot xs)) = length xs"
  by (induction fs tot xs rule: sum_power.induct) (auto split: prod.splits)

definition mids :: "fftw \<Rightarrow> psd \<Rightarrow> (real \<times> real) list list" where
  "mids ff s = map (\<lambda>i. execute ff (segment s i)) [0..<nbins s]"

definition powers :: "fftw \<Rightarrow> psd \<Rightarrow> real list" where
  "powers ff s = map (\<lambda>j. sum_list (map (\<lambda>m. sqnorm (m ! j)) (mids ff s)) * (2 / real (ntime s * ntime s * nbins s)))
     [1..<nfreq s]"

lemma spectrum_eq:
  assumes "planned s"
  shows "spectrum ff s =
    (s\<lparr>middle := mids ff s, p_output := powers ff s, totalpowerfreq := fst (sum_power (fsamp s) 0 (powers ff s)),
       outint := snd (sum_power (fsamp s) 0 (powers ff s))\<rparr>, Ok ())"
proof -
  have p: "length (plans s) = nbins s" "length (middle s) = nbins s" "length (p_output s) = nfreq s - 1"
    "False \<notin> set (plans s)" "length (outint s) = nfreq s - 1"
    using assms by (auto simp: planned_def)
  have w: "map (\<lambda>x. x * (2 / real (ntime s * ntime s * nbins s)))
      (map (\<lambda>j. sum_list (map (\<lambda>m. fst (m ! j) * fst (m ! j) + snd (m ! j) * snd (m ! j))
         (map (\<lambda>i. execute ff (segment s i)) [0..<nbins s]))) [1..<nfreq s]) = powers ff s"
    by (simp add: powers_def mids_def sqnorm_def comp_def)
  show ?thesis
    unfolding spectrum_def Let_def w using p by (simp add: mids_def split: prod.split)
qed

lemma spectrum_sizes:
  assumes "planned s" and "spectrum ff s = (t, y)"
  shows "planned t \<and> p_input t = p_input s \<and> nfft t = nfft s \<and> replan t = replan s \<and>
    totalpowertime t = totalpowertime s \<and> y = Ok ()"
proof -
  have t: "t = s\<lparr>middle := mids ff s, p_output := powers ff s, totalpowerfreq := fst (sum_power (fsamp s) 0 (powers ff s)),
       outint := snd (sum_power (fsamp s) 0 (powers ff s))\<rparr>" "y = Ok ()"
    using spectrum_eq [OF assms(1), of ff] assms(2) by auto
  then have eq: "nbins t = nbins s" "nfreq t = nfreq s" using sizes_cong [of t s] by simp_all
  have "length (powers ff s) = nfreq s - 1" "length (mids ff s) = nbins s" by (simp_all add: powers_def mids_def)
  then have "planned t"
    using assms(1) t(1) unfolding planned_def eq by (simp add: sum_power_length)
  then show ?thesis using t by simp
qed

text \<open>The stages of a calculation.\<close>

definition ready :: "psd \<Rightarrow> bool" where
  "ready s \<longleftrightarrow> p_input s \<noteq> [] \<and> nfft s \<noteq> 0 \<and> length (window s) = length (p_input s) \<and> psd_ok s"

lemma ready_window:
  assumes "psd_ok s" and "p_input s \<noteq> []" and "nfft s \<noteq> 0"
  shows "ready (psd_window ff s)" and "p_input (psd_window ff s) = p_input s" and "nfft (psd_window ff s) = nfft s"
    and "newval (psd_window ff s) = newval s" and "replan (psd_window ff s) = replan s" and "mult (psd_window ff s) = mult s"
  using assms by (auto simp: psd_window_def make_window_def Let_def ready_def psd_ok_def planned_def)

lemma ready_input:
  assumes "ready s" and "psd_input s = (t, y)"
  shows "ready t" and "y = Ok ()" and "length (p_input t) = length (p_input s)" and "nfft t = nfft s"
    and "window t = window s" and "replan t = replan s"
proof -
  have l: "length (window s) = length (p_input s)" using assms(1) by (simp add: ready_def)
  then have c: "y = Ok () \<and> (t = s \<or> (\<exists>ps w. t = s\<lparr>p_input := ps, totalpowertime := w, newval := False\<rparr> \<and>
      length ps = length (p_input s)))"
    using assms(2) by (auto simp: psd_input_def prepare_input_def Let_def split: if_splits)
  then show b: "y = Ok ()" "length (p_input t) = length (p_input s)" "nfft t = nfft s" "window t = window s"
    "replan t = replan s" by auto
  have "planned s \<Longrightarrow> planned t"
    using c sizes_cong [OF b(2,3)] b by (auto simp: planned_def)
  moreover have "p_input t \<noteq> []" using assms(1) b(2) by (metis length_0_conv ready_def)
  ultimately show "ready t" using assms(1) b by (simp add: ready_def psd_ok_def)
qed

lemma ready_plan:
  assumes "fftw_ok ff" and "ready s" and "psd_plan ff s = (t, y)"
  shows "\<not> crashed y" and "length (p_input t) = length (p_input s)" and "nfft t = nfft s" and "y = Ok () \<Longrightarrow> planned t"
    and "psd_ok t" and "\<not> replan s \<Longrightarrow> t = s"
proof -
  have r: "p_input s \<noteq> []" "nfft s \<noteq> 0" "length (window s) = length (p_input s)" "psd_ok s"
    using assms(2) by (simp_all add: ready_def)
  have "\<not> crashed y \<and> length (p_input t) = length (p_input s) \<and> nfft t = nfft s \<and> (y = Ok () \<longrightarrow> planned t) \<and>
      psd_ok t \<and> (\<not> replan s \<longrightarrow> t = s)"
  proof (cases "replan s")
    case True
    obtain u z where "make_plan ff s = (u, z)" "\<not> crashed z" "length (p_input u) = length (p_input s)" "nfft u = nfft s"
      "z = Ok () \<longrightarrow> planned u \<and> \<not> replan u" "z \<noteq> Ok () \<longrightarrow> replan u = replan s"
      using make_plan_sizes [OF assms(1) r(1-3)] by blast
    then show ?thesis using assms(3) True by (auto simp: psd_plan_def psd_ok_def)
  next
    case False
    then show ?thesis using assms(3) r(4) by (auto simp: psd_plan_def psd_ok_def)
  qed
  then show "\<not> crashed y" "length (p_input t) = length (p_input s)" "nfft t = nfft s" "y = Ok () \<Longrightarrow> planned t"
    "psd_ok t" "\<not> replan s \<Longrightarrow> t = s" by blast+
qed

text \<open>A calculation that returns has gone through all stages.\<close>

lemma calculate_stages:
  assumes "fftw_ok ff" and "psd_ok s" and "p_input s \<noteq> []" and "nfft s \<noteq> 0" and "calculate ff s = (t, y)"
  obtains s2 s3 z where "psd_input (psd_window ff s) = (s2, Ok ())" and "ready s2" and "psd_plan ff s2 = (s3, z)"
    and "y = z" and "y = Ok () \<Longrightarrow> planned s3 \<and> spectrum ff s3 = (t, Ok ())" and "y \<noteq> Ok () \<Longrightarrow> t = s3"
proof -
  obtain s2 y2 where i: "psd_input (psd_window ff s) = (s2, y2)" by (cases "psd_input (psd_window ff s)")
  note ri = ready_input [OF ready_window(1) [OF assms(2-4)] i]
  obtain s3 z where p: "psd_plan ff s2 = (s3, z)" by (cases "psd_plan ff s2")
  note rp = ready_plan [OF assms(1) ri(1) p]
  have c: "calculate ff s = (case z of Ok _ \<Rightarrow> spectrum ff s3 | _ \<Rightarrow> (s3, z))"
    using assms(3,4) sizes_pos [OF assms(3,4)] i ri(2) p by (auto simp: calculate_def split: outcome.splits)
  show thesis
  proof (cases z)
    case (Ok u)
    then have pl: "planned s3" using rp(4) by simp
    have "spectrum ff s3 = (t, y)" using c assms(5) Ok by simp
    then show thesis using spectrum_sizes [OF pl, of ff t y] pl that i ri p Ok by auto
  next
    case (Throw e)
    then have "t = s3" "y = z" using c assms(5) by simp_all
    then show thesis using that [of s2 s3 z] i ri p Throw by simp
  next
    case (Crash e)
    then show thesis using rp(1) by simp
  qed
qed

lemma psd_ok_calculate:
  assumes "fftw_ok ff" and "psd_ok s" and "calculate ff s = (t, y)"
  shows "psd_ok t \<and> \<not> crashed y"
proof (cases "p_input s = [] \<or> nfft s = 0")
  case True
  then show ?thesis using assms by (auto simp: calculate_def)
next
  case False
  then have ne: "p_input s \<noteq> []" "nfft s \<noteq> 0" by simp_all
  from calculate_stages [OF assms(1,2) ne assms(3)] obtain s2 s3 z where
    s: "ready s2" "psd_plan ff s2 = (s3, z)" "y = z" "y = Ok () \<Longrightarrow> planned s3 \<and> spectrum ff s3 = (t, Ok ())"
    "y \<noteq> Ok () \<Longrightarrow> t = s3" by metis
  note rp = ready_plan [OF assms(1) s(1,2)]
  show ?thesis
  proof (cases "y = Ok ()")
    case True
    then have "planned t" using s(4) spectrum_sizes by blast
    then show ?thesis using True by (simp add: psd_ok_def)
  next
    case False
    then show ?thesis using s(3,5) rp by simp
  qed
qed

lemma psd_reach_ok: "psd_reach ff s \<Longrightarrow> fftw_ok ff \<Longrightarrow> psd_ok s"
proof (induction rule: psd_reach.induct)
  case (inp s ps m)
  show ?case
  proof (cases "length ps \<noteq> length (p_input s) \<or> (if m = 0 then 1 else m) \<noteq> mult s")
    case True
    then show ?thesis by (simp add: psd_set_input_def Let_def psd_ok_def)
  next
    case False
    let ?t = "s\<lparr>p_input := ps, newval := True\<rparr>"
    have t: "fst (psd_set_input ps m s) = ?t" using False by (simp add: psd_set_input_def Let_def)
    have "planned ?t" if "planned s"
    proof -
      have "nbins ?t = nbins s" "nfreq ?t = nfreq s" using False sizes_cong [of ?t s] by simp_all
      moreover have "ps \<noteq> []" using that False by (auto simp: planned_def)
      ultimately show ?thesis using that False by (simp add: planned_def)
    qed
    then show ?thesis using inp.IH inp.prems t by (simp add: psd_ok_def)
  qed
next
  case (fsamp s f)
  then have "planned s \<Longrightarrow> psd_ok (fst (psd_set_fsamp f s))" by (simp add: psd_set_fsamp_def psd_ok_def)
  then show ?case using fsamp by (auto simp: psd_set_fsamp_def psd_ok_def)
next
  case (nfft s n)
  then show ?case by (auto simp: psd_set_nfft_def psd_ok_def)
next
  case (calc s t y)
  then show ?case using psd_ok_calculate by blast
next
  case (failed s t e)
  then show ?case using psd_ok_calculate by blast
qed (simp_all add: PSDCalc_new_def psd_ok_def)

section \<open>Properties\<close>

text \<open>
  C18: The state of \<open>PSDCalc\<close> is always consistent: whatever is set and calculated, in any order, and
  even after an allocation failed, the next calculation meets its assertions and stays inside of its arrays; and when it
  ends normally the spectrum, the integrated spectrum and the frequency scale have one element per
  frequency above zero.
\<close>

theorem psd_safe:
  assumes "fftw_ok ff" and "psd_reach ff s" and "calculate ff s = (t, y)"
  shows "\<not> crashed y \<and>
    (p_input s \<noteq> [] \<and> nfft s \<noteq> 0 \<and> y = Ok () \<longrightarrow>
       (let n = min (nfft s) (length (p_input s)) div 2
        in length (p_output t) = n \<and> length (outint t) = n \<and> length (fscale t) = n))"
proof -
  have ok: "psd_ok s" by (rule psd_reach_ok [OF assms(2,1)])
  have "length (p_output t) = n \<and> length (outint t) = n \<and> length (fscale t) = n"
    if ne: "p_input s \<noteq> []" "nfft s \<noteq> 0" and y: "y = Ok ()" and n: "n = min (nfft s) (length (p_input s)) div 2" for n
  proof -
    from calculate_stages [OF assms(1) ok ne assms(3)] obtain s2 s3 z where
      s: "psd_input (psd_window ff s) = (s2, Ok ())" "ready s2" "psd_plan ff s2 = (s3, z)"
      "planned s3 \<and> spectrum ff s3 = (t, Ok ())" using y by metis
    note rw = ready_window [OF ok ne]
    note ri = ready_input [OF rw(1) s(1)] and rp = ready_plan [OF assms(1) s(2,3)]
    have t: "planned t" "p_input t = p_input s3" "nfft t = nfft s3" using s(4) spectrum_sizes by blast+
    have "length (p_input t) = length (p_input s)" "nfft t = nfft s" using t ri rp rw by simp_all
    then have "nfreq t - 1 = n" by (simp add: nfreq_def ntime_def n)
    then show ?thesis using t(1) by (simp add: planned_def)
  qed
  then show ?thesis using psd_ok_calculate [OF assms(1) ok assms(3)] by (simp add: Let_def)
qed

text \<open>FFTW with the transform of the previous theory, that keeps its input when it plans.\<close>

definition ideal_fftw :: fftw where
  "ideal_fftw = \<lparr>plan_ok = (\<lambda>_. True), plan_clobber = (\<lambda>_ xs. xs), execute = dft, nan = 0\<rparr>"

lemma ideal_fftw_ok: "fftw_ok ideal_fftw"
  by (simp add: fftw_ok_def ideal_fftw_def)

definition demo_psd :: psd where
  "demo_psd = fst (psd_set_input [1, 3, 2] 1 (fst (psd_set_nfft 2 (PSDCalc_new 0))))"

lemma demo_psd_fields: "p_input demo_psd = [1, 3, 2]" "nfft demo_psd = 2" "psd_reach ideal_fftw demo_psd"
  by (simp_all add: demo_psd_def psd_set_input_def psd_set_nfft_def PSDCalc_new_def Let_def)
    (use psd_reach.inp [OF psd_reach.nfft [OF psd_reach.new [of ideal_fftw 0], of 2], of "[1, 3, 2]" 1] in
      \<open>simp add: psd_set_input_def psd_set_nfft_def PSDCalc_new_def Let_def\<close>)

theorem psd_safe_witness: "\<not> crashed (snd (calculate ideal_fftw demo_psd))"
proof -
  obtain t y where c: "calculate ideal_fftw demo_psd = (t, y)" by (cases "calculate ideal_fftw demo_psd")
  from psd_safe [OF ideal_fftw_ok demo_psd_fields(3) c] show ?thesis using c by simp
qed

lemma sum_power_sum: "fst (sum_power fs tot xs) = tot + sum_list xs"
  by (induction fs tot xs rule: sum_power.induct) (auto split: prod.splits)

text \<open>The total power of one transform, from its energy.\<close>

lemma spectrum_total:
  assumes "planned s" and "execute ff = dft" and "length (p_input s) \<le> nfft s" and "spectrum ff s = (t, y)"
  shows "totalpowerfreq t =
    2 * (\<Sum>j\<in>{1..length (p_input s) div 2}. energy (p_input s) j) / (real (length (p_input s)))\<^sup>2"
proof -
  let ?xs = "p_input s"
  have ne: "?xs \<noteq> []" using assms(1) by (simp add: planned_def)
  have n: "ntime s = length ?xs" using assms(3) by (simp add: ntime_def)
  have b: "nbins s = 1" using n ne by (simp add: nbins_def)
  have "segment s 0 = ?xs" by (simp add: segment_def n)
  then have m: "mids ff s = [dft ?xs]" by (simp add: mids_def b assms(2))
  have "totalpowerfreq t = sum_list (powers ff s)"
    using spectrum_eq [OF assms(1), of ff] assms(4) by (auto simp: sum_power_sum)
  also have "\<dots> = (\<Sum>j\<leftarrow>[1..<nfreq s]. sqnorm (dft ?xs ! j) * (2 / (real (length ?xs))\<^sup>2))"
    by (simp add: powers_def m b n power2_eq_square)
  also have "\<dots> = (\<Sum>j\<in>{1..<nfreq s}. sqnorm (dft ?xs ! j) * (2 / (real (length ?xs))\<^sup>2))"
    by (subst sum_list_distinct_conv_sum_set) simp_all
  also have "\<dots> = (\<Sum>j\<in>{1..length ?xs div 2}. energy ?xs j * (2 / (real (length ?xs))\<^sup>2))"
    by (rule sum.cong) (auto simp: nfreq_def n dft_nth energy_def)
  finally show ?thesis by (simp add: sum_distrib_left sum_divide_distrib mult.commute)
qed

lemma sum_list_nth_sum: "(\<Sum>k<length xs. xs ! k) = sum_list xs"
  by (simp add: sum_list_sum_nth atLeast0LessThan)

lemma sum_list_nth_map: "(\<Sum>k<length xs. f (xs ! k)) = sum_list (map f xs)"
  using sum_list_nth_sum [of "map f xs"] by simp

text \<open>
  The power of the spectrum is the power of the signal (Parseval). Once the plan exists, for one transform
  over all samples and no window, the sum of the spectrum is the mean of the squares of the
  scaled samples around their mean, for an odd number of samples; for an even number the highest frequency
  is counted twice, once too often.
\<close>

theorem psd_power:
  assumes "fftw_ok ff" and "execute ff = dft" and "psd_ok s" and "\<not> replan s" and "newval s"
    and "window s = replicate (length (p_input s)) 1" and "length (p_input s) \<le> nfft s"
    and "calculate ff s = (t, Ok ())"
  shows "let xs = p_input s; n = length xs; mean = sum_list xs / real n;
      ys = map (\<lambda>x. (x - mean) / mult s) xs
    in totalpowertime t = sum_list (map (\<lambda>y. y * y) ys) / real n \<and>
      totalpowerfreq t = totalpowertime t + (if even n then (\<Sum>k<n. (- 1) ^ k * ys ! k)\<^sup>2 / (real n)\<^sup>2 else 0)"
proof -
  let ?xs = "p_input s" and ?n = "length (p_input s)"
  define mean where "mean = sum_list ?xs / real ?n"
  define ys where "ys = map (\<lambda>x. (x - mean) / mult s) ?xs"
  have pl: "planned s" using assms(3,4) by (simp add: psd_ok_def)
  then have ne: "?xs \<noteq> []" "nfft s \<noteq> 0" by (simp_all add: planned_def)
  have w: "psd_window ff s = s" using assms(4) by (simp add: psd_window_def)
  have ly: "length ys = ?n" by (simp add: ys_def)
  have "map (\<lambda>(t, w). t * w) (zip ys (replicate ?n 1)) = ys"
    by (rule nth_equalityI) (simp_all add: ly)
  then have i: "psd_input s = (s\<lparr>p_input := ys, totalpowertime := sum_list (map (\<lambda>y. y * y) ys) / real ?n, newval := False\<rparr>, Ok ())"
    using assms(5,6) unfolding psd_input_def prepare_input_def Let_def mean_def [symmetric] ys_def [symmetric] by simp
  from calculate_stages [OF assms(1,3) ne assms(8)] obtain s2 s3 z where
    st: "psd_input (psd_window ff s) = (s2, Ok ())" "ready s2" "psd_plan ff s2 = (s3, z)"
    "planned s3 \<and> spectrum ff s3 = (t, Ok ())" by metis
  have s2: "s2 = s\<lparr>p_input := ys, totalpowertime := sum_list (map (\<lambda>y. y * y) ys) / real ?n, newval := False\<rparr>"
    using st(1) i w by simp
  then have "s3 = s2" using ready_plan(6) [OF assms(1) st(2,3)] assms(4) by simp
  then have s3: "p_input s3 = ys" "nfft s3 = nfft s" "totalpowertime s3 = sum_list (map (\<lambda>y. y * y) ys) / real ?n"
    using s2 by simp_all
  have tt: "totalpowertime t = sum_list (map (\<lambda>y. y * y) ys) / real ?n"
    using st(4) spectrum_sizes s3(3) by metis
  have n0: "real ?n \<noteq> 0" using ne by simp
  have "sum_list (map (\<lambda>x. x - mean) ?xs) = sum_list ?xs - real ?n * mean"
    by (simp add: sum_list_subtractf sum_list_triv)
  then have "sum_list (map (\<lambda>x. x - mean) ?xs) = 0" using n0 by (simp add: mean_def)
  moreover have "sum_list ys = sum_list (map (\<lambda>x. x - mean) ?xs) / mult s"
    by (simp add: ys_def sum_list_mult_const [symmetric] divide_inverse)
  ultimately have z: "(\<Sum>k<length ys. ys ! k) = 0" by (simp add: sum_list_nth_sum)
  have "(\<Sum>k<length ys. ys ! k * ys ! k) = real ?n * totalpowertime t"
    using sum_list_nth_map [of "\<lambda>y. y * y" ys] tt n0 by simp
  moreover have "ys \<noteq> []" using ly ne by auto
  ultimately have h: "2 * (\<Sum>j\<in>{1..?n div 2}. energy ys j) =
      real ?n * (real ?n * totalpowertime t) + (if even ?n then (\<Sum>k<?n. (- 1) ^ k * ys ! k)\<^sup>2 else 0)"
    using half_energy [of ys] z ly by simp
  have "totalpowerfreq t = 2 * (\<Sum>j\<in>{1..?n div 2}. energy ys j) / (real ?n)\<^sup>2"
    using spectrum_total [of s3 ff t "Ok ()"] st(4) s3(1,2) assms(2,7) ly by simp
  then have "totalpowerfreq t = totalpowertime t + (if even ?n then (\<Sum>k<?n. (- 1) ^ k * ys ! k)\<^sup>2 / (real ?n)\<^sup>2 else 0)"
    unfolding h using n0 by (simp add: power2_eq_square add_divide_distrib)
  then show ?thesis using tt by (simp add: Let_def ys_def mean_def)
qed

text \<open>Three samples after a first calculation has made the plan.\<close>

definition demo_planned :: psd where
  "demo_planned =
     \<lparr>windowtype = 0, window = [1, 1, 1], outint = [0], p_input = [1, 3, 2], p_output = [0], plans = [True],
      middle = [[]], fscale = [1 / 3], totalpowertime = 0, totalpowerfreq = 0, nfft = 3, fsamp = 1, mult = 1,
      replan = False, newval = True\<rparr>"

lemma demo_planned_ok: "psd_ok demo_planned"
  by (simp add: psd_ok_def planned_def demo_planned_def ntime_def nfreq_def nbins_def)

theorem psd_power_witness:
  "\<exists>t. calculate ideal_fftw demo_planned = (t, Ok ()) \<and> totalpowertime t = 2 / 3 \<and> totalpowerfreq t = 2 / 3"
proof -
  have d: "\<not> replan demo_planned" "newval demo_planned" "nfft demo_planned = 3"
    "window demo_planned = replicate (length (p_input demo_planned)) 1" "p_input demo_planned = [1, 3, 2]"
    "mult demo_planned = 1"
    by (simp_all add: demo_planned_def eval_nat_numeral)
  obtain t y where c: "calculate ideal_fftw demo_planned = (t, y)" by (cases "calculate ideal_fftw demo_planned")
  have y: "y = Ok ()"
  proof (rule calculate_stages [OF ideal_fftw_ok demo_planned_ok _ _ c])
    show "p_input demo_planned \<noteq> []" "nfft demo_planned \<noteq> 0" by (simp_all add: d)
    fix s2 s3 z
    assume a: "psd_input (psd_window ideal_fftw demo_planned) = (s2, Ok ())" "ready s2"
      "psd_plan ideal_fftw s2 = (s3, z)" "y = z"
    have "replan s2 = replan (psd_window ideal_fftw demo_planned)"
      using ready_input(6) [OF ready_window(1) [OF demo_planned_ok] a(1)] d(3,5) by simp
    then have "\<not> replan s2" using d(1) by (simp add: psd_window_def)
    then show "y = Ok ()" using a(3,4) by (simp add: psd_plan_def)
  qed
  have "execute ideal_fftw = dft" by (simp add: ideal_fftw_def)
  from psd_power [OF ideal_fftw_ok this demo_planned_ok d(1,2,4) _ c [unfolded y]]
  show ?thesis using c y d by (simp add: Let_def)
qed

text \<open>What planning leaves in the pieces of the input.\<close>

lemma take_drop_before:
  assumes "j + n \<le> i" and "i + length zs \<le> length xs"
  shows "take n (drop j (splice_at i zs xs)) = take n (drop j xs)"
proof -
  have "take n (drop j (splice_at i zs xs)) = take n (drop j (take i xs))"
    using assms by (simp add: splice_at_def)
  also have "\<dots> = take n (drop j xs)" using assms by (simp add: drop_take min_def)
  finally show ?thesis .
qed

lemma plan_loop_zero:
  assumes "\<forall>i xs. plan_clobber ff i xs = replicate (length xs) 0" and "i + n = nbins s" and "p_input s \<noteq> []"
    and "nfft s \<noteq> 0" and "\<forall>j < i. set (segment s j) \<subseteq> {0}" and "plan_loop ff n i s = (t, Ok ())"
  shows "\<forall>j < nbins s. set (segment t j) \<subseteq> {0}"
  using assms(2-)
proof (induction n arbitrary: i s)
  case 0
  then show ?case by simp
next
  case (Suc n)
  let ?z = "replicate (ntime s) (0 :: real)"
  note sz = sizes_pos [OF Suc.prems(2,3)]
  have "(i + 1) * ntime s \<le> nbins s * ntime s" using Suc.prems(1) by (intro mult_right_mono) simp_all
  then have le: "i * ntime s + ntime s \<le> length (p_input s)" using sz(4) by simp
  then have "plan_clobber ff i (segment s i) = ?z" using assms(1) by (simp add: segment_def)
  moreover define u where "u = s\<lparr>p_input := splice_at (i * ntime s) ?z (p_input s), plans := (plans s)[i := True]\<rparr>"
  ultimately have loop: "plan_loop ff n (Suc i) u = (t, Ok ())"
    using Suc.prems(5) by (auto simp: Let_def split: if_splits)
  have l: "length (p_input u) = length (p_input s)" using le by (simp add: u_def)
  then have eq: "nbins u = nbins s" "ntime u = ntime s" using sizes_cong [of u s] by (simp_all add: u_def)
  have "set (segment u j) \<subseteq> {0}" if "j < Suc i" for j
  proof (cases "j = i")
    case True
    then have "segment u j = ?z" using take_drop_splice_at [of "i * ntime s" ?z "p_input s"] le eq(2)
      by (simp add: segment_def u_def)
    then show ?thesis by auto
  next
    case False
    then have "(j + 1) * ntime s \<le> i * ntime s" using that by (intro mult_right_mono) simp_all
    then have "j * ntime s + ntime s \<le> i * ntime s" by simp
    from take_drop_before [OF this, of ?z "p_input s"] have "segment u j = segment s j"
      using le eq(2) by (simp add: segment_def u_def)
    then show ?thesis using Suc.prems(4) False that by simp
  qed
  then have z: "\<forall>j < Suc i. set (segment u j) \<subseteq> {0}" by blast
  have "Suc i + n = nbins u" using Suc.prems(1) eq(1) by simp
  moreover have "p_input u \<noteq> []" using l Suc.prems(2) by auto
  moreover have "nfft u \<noteq> 0" using Suc.prems(3) by (simp add: u_def)
  ultimately show ?case using Suc.IH [of "Suc i" u] z loop eq(1) by simp
qed

lemma dft_zero: "set xs \<subseteq> {0} \<Longrightarrow> j \<le> length xs div 2 \<Longrightarrow> sqnorm (dft xs ! j) = 0"
proof -
  assume z: "set xs \<subseteq> {0}" and j: "j \<le> length xs div 2"
  have "xs ! k = 0" if "k < length xs" for k using z that nth_mem by blast
  then show "sqnorm (dft xs ! j) = 0" using j by (simp add: dft_nth dft_coeff_def sqnorm_def)
qed

lemma powers_zero:
  assumes "execute ff = dft" and "\<forall>j < nbins s. set (segment s j) \<subseteq> {0}"
  shows "set (powers ff s) \<subseteq> {0}"
proof -
  have sq: "sqnorm (m ! j) = 0" if mj: "m \<in> set (mids ff s)" "j \<in> set [1..<nfreq s]" for m j
  proof -
    obtain i where i: "i < nbins s" "m = dft (segment s i)" using mj(1) assms(1) by (auto simp: mids_def)
    have "(i + 1) * ntime s \<le> nbins s * ntime s" using i(1) by (intro mult_right_mono) simp_all
    moreover have "nbins s * ntime s \<le> length (p_input s)" by (simp add: nbins_def mult.commute)
    ultimately have "length (segment s i) = ntime s" by (simp add: segment_def)
    then have "j \<le> length (segment s i) div 2" using mj(2) by (auto simp: nfreq_def)
    then show ?thesis using dft_zero [of "segment s i" j] assms(2) i by simp
  qed
  have "x = 0" if x: "x \<in> set (powers ff s)" for x
  proof -
    obtain j where j: "j \<in> set [1..<nfreq s]"
      "x = sum_list (map (\<lambda>m. sqnorm (m ! j)) (mids ff s)) * (2 / real (ntime s * ntime s * nbins s))"
      using x by (auto simp: powers_def)
    have "map (\<lambda>m. sqnorm (m ! j)) (mids ff s) = map (\<lambda>m. 0) (mids ff s)" using sq j(1) by (intro map_cong) auto
    then show ?thesis using j(2) by (simp only: sum_list_0 mult_zero_left)
  qed
  then show ?thesis by auto
qed

lemma make_plan_zero:
  assumes "fftw_ok ff" and "\<forall>i xs. plan_clobber ff i xs = replicate (length xs) 0" and "p_input s \<noteq> []"
    and "nfft s \<noteq> 0" and "make_plan ff s = (t, Ok ())"
  shows "(\<forall>j < nbins t. set (segment t j) \<subseteq> {0}) \<and> totalpowertime t = totalpowertime s"
proof -
  define s1 where "s1 = s\<lparr>plans := replicate (nbins s) False,
                 middle := map (\<lambda>m. resize (0, 0) m (nfreq s)) (resize [] (middle s) (nbins s)),
                 p_output := resize 0 (p_output s) (nfreq s - 1),
                 outint := resize 0 (outint s) (nfreq s - 1),
                 fscale := map (\<lambda>i. real (i + 1) * (fsamp s / real (ntime s))) [0..<nfreq s - 1]\<rparr>"
  obtain u where u: "plan_loop ff (nbins s) 0 s1 = (u, Ok ())" "t = u\<lparr>replan := False\<rparr>"
    using assms(5) unfolding make_plan_def s1_def [symmetric] Let_def by (auto split: prod.splits outcome.splits)
  have b: "0 + nbins s = nbins s1" "p_input s1 \<noteq> []" "nfft s1 \<noteq> 0" "length (plans s1) = nbins s1"
    using sizes_cong [of s1 s] assms(3,4) by (simp_all add: s1_def)
  obtain ps bs r where l: "plan_loop ff (nbins s) 0 s1 = (s1\<lparr>p_input := ps, plans := bs\<rparr>, r)"
    "length ps = length (p_input s1)"
    using plan_loop_sizes [OF assms(1) b] by blast
  then have u1: "u = s1\<lparr>p_input := ps, plans := bs\<rparr>" using u(1) by simp
  then have t: "t = s1\<lparr>p_input := ps, plans := bs, replan := False\<rparr>" using u(2) by simp
  have "nbins t = nbins s1" "segment t j = segment u j" for j
    using sizes_cong [of t s1] sizes_cong [of u s1] l(2) unfolding t u1 by (simp_all add: segment_def)
  then show ?thesis
    using plan_loop_zero [OF assms(2) b(1-3) _ u(1)] t by (simp add: s1_def)
qed

text \<open>
  C40: The first spectrum after a change of the settings. FFTW_MEASURE overwrites the arrays it plans for, and
  the plan is made after the input has been prepared: if it leaves zeros there, the spectrum and its
  total are zero whatever the signal, while the power in the time domain is that of the signal.
\<close>

theorem psd_replan_clobbers:
  assumes "\<forall>i xs. plan_clobber ff i xs = replicate (length xs) 0" and "execute ff = dft" and "psd_ok s" and "replan s"
    and "newval s" and "p_input s \<noteq> []" and "nfft s \<noteq> 0" and "calculate ff s = (t, Ok ())"
  shows "set (p_output t) \<subseteq> {0} \<and> totalpowerfreq t = 0 \<and>
    totalpowertime t =
      (let xs = p_input s; n = real (length xs); mean = sum_list xs / n
       in sum_list (map (\<lambda>x. ((x - mean) / mult s) * ((x - mean) / mult s)) xs) / n)"
proof -
  have ff: "fftw_ok ff" using assms(1,2) by (simp add: fftw_ok_def)
  from calculate_stages [OF ff assms(3,6,7,8)] obtain s2 s3 z where
    st: "psd_input (psd_window ff s) = (s2, Ok ())" "ready s2" "psd_plan ff s2 = (s3, z)" "Ok () = z"
    "planned s3 \<and> spectrum ff s3 = (t, Ok ())" by metis
  note rw = ready_window [OF assms(3,6,7), of ff]
  note ri = ready_input [OF rw(1) st(1)]
  have w: "length (window (psd_window ff s)) = length (p_input s)" using rw(1,2) by (simp add: ready_def)
  have tp: "totalpowertime s2 =
      (let xs = p_input s; n = real (length xs); mean = sum_list xs / n
       in sum_list (map (\<lambda>x. ((x - mean) / mult s) * ((x - mean) / mult s)) xs) / n)"
    using st(1) w rw(2,4,6) assms(5) by (auto simp: psd_input_def prepare_input_def Let_def comp_def)
  have ne: "p_input s2 \<noteq> []" "nfft s2 \<noteq> 0" using st(2) by (simp_all add: ready_def)
  have "make_plan ff s2 = (s3, Ok ())" using st(3,4) ri(6) rw(5) assms(4) by (simp add: psd_plan_def)
  from make_plan_zero [OF ff assms(1) ne this] have z: "\<forall>j < nbins s3. set (segment s3 j) \<subseteq> {0}"
    "totalpowertime s3 = totalpowertime s2" by blast+
  note p0 = powers_zero [OF assms(2) z(1)]
  then have "map (\<lambda>x. 0) (powers ff s3) = powers ff s3" by (intro map_idI) auto
  then have "sum_list (powers ff s3) = 0" by (metis sum_list_0)
  moreover have "totalpowertime t = totalpowertime s2"
    using spectrum_sizes [of s3 ff t "Ok ()"] st(5) z(2) by simp
  ultimately show ?thesis
    using spectrum_eq [of s3 ff] st(5) p0 tp by (auto simp: sum_power_sum)
qed

text \<open>FFTW that zeroes the arrays.\<close>

definition zero_fftw :: fftw where
  "zero_fftw = \<lparr>plan_ok = (\<lambda>_. True), plan_clobber = (\<lambda>_ xs. replicate (length xs) 0), execute = dft, nan = 0\<rparr>"

lemma plan_loop_returns: "\<forall>i. plan_ok ff i \<Longrightarrow> snd (plan_loop ff n i s) = Ok ()"
  by (induction n arbitrary: i s) (simp_all add: Let_def)

lemma calculate_returns:
  assumes "fftw_ok ff" and "\<forall>i. plan_ok ff i" and "psd_ok s" and "p_input s \<noteq> []" and "nfft s \<noteq> 0"
  shows "\<exists>t. calculate ff s = (t, Ok ())"
proof -
  obtain t y where c: "calculate ff s = (t, y)" by (cases "calculate ff s")
  from calculate_stages [OF assms(1,3-5) c] obtain s2 s3 z where
    z: "psd_plan ff s2 = (s3, z)" "y = z" by metis
  then have "z = Ok ()"
    using plan_loop_returns [OF assms(2)] unfolding psd_plan_def make_plan_def Let_def
    by (auto split: if_splits prod.splits outcome.splits) (metis snd_conv outcome.distinct(1,3))+
  then show ?thesis using c z(2) by simp
qed

theorem psd_replan_clobbers_witness:
  "\<exists>t. calculate zero_fftw (demo_planned\<lparr>replan := True\<rparr>) = (t, Ok ()) \<and> totalpowertime t = 2 / 3 \<and> totalpowerfreq t = 0"
proof -
  let ?s = "demo_planned\<lparr>replan := True\<rparr>"
  have z: "\<forall>i xs. plan_clobber zero_fftw i xs = replicate (length xs) 0" "execute zero_fftw = dft"
    "\<forall>i. plan_ok zero_fftw i" "fftw_ok zero_fftw"
    by (simp_all add: zero_fftw_def fftw_ok_def)
  have ok: "psd_ok ?s" by (simp add: psd_ok_def)
  have d: "replan ?s" "newval ?s" "p_input ?s \<noteq> []" "nfft ?s \<noteq> 0" by (simp_all add: demo_planned_def)
  obtain t where t: "calculate zero_fftw ?s = (t, Ok ())" using calculate_returns [OF z(4,3) ok d(3,4)] by blast
  from psd_replan_clobbers [OF z(1,2) ok d t] show ?thesis
    using t by (simp add: demo_planned_def Let_def)
qed

end
