(* ===== verification/Sig_Calc.thy ===== *)
theory Sig_Calc
  imports Dev_Ctrl Sig_Psd
begin

text \<open>
  Device support of the spectra (sigApp/src/fftcalc.cpp): a \<open>Calc\<close> holds the settings and the signal that
  the input records give it, and the results that the output records show. Its worker thread waits
  for the event \<open>wake\<close>, takes the settings and the signal, calculates without the lock, and publishes the results.

  The scan requests are a log. A thread that lets an exception out is stopped.
\<close>

section \<open>State\<close>

datatype scan_list = ValueScan | ScaleScan

text \<open>\<open>Computing sc t\<close>: between the two critical sections of \<open>run\<close>, with its local variables.\<close>

datatype worker = NotStarted | Waiting | Computing bool epics_time | Stopped

record calc =
  c_windowtype :: nat
  c_fsamp :: real
  c_mult :: real
  c_nfft :: u64
  c_sampStart :: u32
  c_sampWidth :: u32
  c_timein :: epics_time
  c_timeout :: epics_time
  c_valin :: "real list"
  c_valout :: "real list"
  c_window :: "real list"
  c_scaleout :: "real list"
  c_valoutint :: "real list"
  c_totalpowertime :: real
  c_totalpowerfreq :: real
  c_valid :: bool
  c_lasttime :: real
  c_calctime :: real
  c_wake :: bool
  c_scans :: "scan_list list"
  c_worker :: worker
  c_psd :: psd

text \<open>The window types and the last time are not initialized.\<close>

definition Calc_new :: "nat \<Rightarrow> nat \<Rightarrow> real \<Rightarrow> real \<Rightarrow> calc" where
  "Calc_new wt psdwt lt now =
     \<lparr>c_windowtype = wt, c_fsamp = 0, c_mult = 1, c_nfft = 0, c_sampStart = 0, c_sampWidth = 0,
      c_timein = (0, 0), c_timeout = (0, 0), c_valin = [], c_valout = [], c_window = [], c_scaleout = [],
      c_valoutint = [], c_totalpowertime = 0, c_totalpowerfreq = 0, c_valid = False, c_lasttime = lt,
      c_calctime = now, c_wake = False, c_scans = [], c_worker = NotStarted, c_psd = PSDCalc_new psdwt\<rparr>"

definition poke :: "calc \<Rightarrow> calc" where
  "poke c = c\<lparr>c_wake := True\<rparr>"

text \<open>\<open>PTimer::snap\<close> at the time \<open>now\<close>.\<close>

definition snap :: "real \<Rightarrow> calc \<Rightarrow> calc \<times> real" where
  "snap now c = (c\<lparr>c_calctime := now\<rparr>, now - c_calctime c)"

section \<open>Initialization\<close>

text \<open>All \<open>Calc\<close>s by name. The private data of a record is the name of its \<open>Calc\<close>.\<close>

type_synonym calcs = "string \<rightharpoonup> calc"

definition commonInit :: "calc \<Rightarrow> string \<Rightarrow> dev_ret \<Rightarrow> calcs \<Rightarrow> calcs \<times> string option \<times> dev_ret" where
  "commonInit calc0 lstr ret cs =
     ((case cs lstr of Some _ \<Rightarrow> cs | None \<Rightarrow> cs(lstr \<mapsto> calc0)), Some lstr, ret)"

definition init_record_inp :: "calc \<Rightarrow> string \<Rightarrow> calcs \<Rightarrow> calcs \<times> string option \<times> dev_ret" where
  "init_record_inp calc0 link cs = commonInit calc0 link DevOk cs"

definition init_record_out :: "calc \<Rightarrow> string \<Rightarrow> calcs \<Rightarrow> calcs \<times> string option \<times> dev_ret" where
  "init_record_out calc0 link cs = commonInit calc0 link DevOk cs"

definition init_record_out2 :: "calc \<Rightarrow> string \<Rightarrow> calcs \<Rightarrow> calcs \<times> string option \<times> dev_ret" where
  "init_record_out2 calc0 link cs = commonInit calc0 link DevNoConvert cs"

definition startWorkers :: "bool \<Rightarrow> calcs \<Rightarrow> calcs" where
  "startWorkers after_running cs =
     (if \<not> after_running then cs else (\<lambda>nm. map_option (\<lambda>c. c\<lparr>c_worker := Waiting\<rparr>) (cs nm)))"

section \<open>Settings\<close>

text \<open>A record without private data does nothing.\<close>

definition with_calc ::
  "bool \<Rightarrow> ('r dev_rec_scheme \<times> calc \<times> dev_ret outcome) \<Rightarrow> 'r dev_rec_scheme \<Rightarrow> calc \<Rightarrow>
   'r dev_rec_scheme \<times> calc \<times> dev_ret outcome" where
  "with_calc dpvt body r c = (if \<not> dpvt then (r, c, Ok DevOk) else CATCH body)"

text \<open>The comparison zero-extends the value, the assignment sign-extends it.\<close>

definition set_nfft :: "bool \<Rightarrow> long_rec \<Rightarrow> calc \<Rightarrow> long_rec \<times> calc \<times> dev_ret outcome" where
  "set_nfft dpvt r c =
     with_calc dpvt
       (if c_nfft c = ucast (l_val r) then (r, c, Ok DevOk)
        else (r, poke (c\<lparr>c_nfft := scast (l_val r)\<rparr>), Ok DevOk)) r c"

definition set_fsamp :: "bool \<Rightarrow> real ana_rec \<Rightarrow> calc \<Rightarrow> real ana_rec \<times> calc \<times> dev_ret outcome" where
  "set_fsamp dpvt r c =
     with_calc dpvt
       (let f = analogRaw2EGU (a_conv r) (a_val r)
        in if c_fsamp c = f then (r, c, Ok DevOk)
           else (r, poke (c\<lparr>c_fsamp := f\<rparr>), Ok DevNoConvert)) r c"

definition set_scale :: "bool \<Rightarrow> real ana_rec \<Rightarrow> calc \<Rightarrow> real ana_rec \<times> calc \<times> dev_ret outcome" where
  "set_scale dpvt r c =
     with_calc dpvt
       (let m = analogRaw2EGU (a_conv r) (a_val r)
        in if c_mult c = m then (r, c, Ok DevOk)
           else (r, poke (c\<lparr>c_mult := m\<rparr>), Ok DevNoConvert)) r c"

definition set_start :: "bool \<Rightarrow> long_rec \<Rightarrow> calc \<Rightarrow> long_rec \<times> calc \<times> dev_ret outcome" where
  "set_start dpvt r c =
     with_calc dpvt
       (if c_sampStart c = l_val r then (r, c, Ok DevOk)
        else (r, c\<lparr>c_sampStart := l_val r\<rparr>, Ok DevNoConvert)) r c"

definition set_width :: "bool \<Rightarrow> long_rec \<Rightarrow> calc \<Rightarrow> long_rec \<times> calc \<times> dev_ret outcome" where
  "set_width dpvt r c =
     with_calc dpvt
       (if c_sampWidth c = l_val r then (r, c, Ok DevOk)
        else (r, c\<lparr>c_sampWidth := l_val r\<rparr>, Ok DevNoConvert)) r c"

definition set_windtype :: "bool \<Rightarrow> bin_rec \<Rightarrow> calc \<Rightarrow> bin_rec \<times> calc \<times> dev_ret outcome" where
  "set_windtype dpvt r c =
     with_calc dpvt
       (if r_rval r = 0 \<or> r_rval r = 1 then (r, c\<lparr>c_windowtype := unat (r_rval r)\<rparr>, Ok DevOk)
        else (recGblSetSevr WRITE_ALARM INVALID_ALARM r, c, Ok DevOk)) r c"

section \<open>Results as numbers\<close>

definition get_analog :: "real \<Rightarrow> real ana_rec \<Rightarrow> calc \<Rightarrow> real ana_rec \<times> calc \<times> dev_ret outcome" where
  "get_analog x r c =
     (let r1 = r\<lparr>a_val := analogEGU2Raw (a_conv r) x, a_udf := False\<rparr>
      in (if tse_device r then r1\<lparr>rec_time := c_timeout c\<rparr> else r1, c, Ok DevNoConvert))"

definition get_totalptime :: "bool \<Rightarrow> real ana_rec \<Rightarrow> calc \<Rightarrow> real ana_rec \<times> calc \<times> dev_ret outcome" where
  "get_totalptime dpvt r c = with_calc dpvt (get_analog (c_totalpowertime c) r c) r c"

definition get_totalpfreq :: "bool \<Rightarrow> real ana_rec \<Rightarrow> calc \<Rightarrow> real ana_rec \<times> calc \<times> dev_ret outcome" where
  "get_totalpfreq dpvt r c = with_calc dpvt (get_analog (c_totalpowerfreq c) r c) r c"

definition get_lasttime :: "bool \<Rightarrow> real ana_rec \<Rightarrow> calc \<Rightarrow> real ana_rec \<times> calc \<times> dev_ret outcome" where
  "get_lasttime dpvt r c = with_calc dpvt (get_analog (c_lasttime c) r c) r c"

section \<open>The signal\<close>

record fft_wf = dev_rec +
  f_buf :: "real list"
  f_nelm :: nat
  f_nord :: nat

datatype link_type = ConstantLink | PvLink | DbLink | CaLink | OtherLink

text \<open>\<open>is_double\<close>: FTVL is DOUBLE. \<open>cname\<close> is the info tag CALCNAME. A bad link is the status S_db_badField.\<close>

definition init_wf_in ::
  "calc \<Rightarrow> link_type \<Rightarrow> bool \<Rightarrow> string option \<Rightarrow> fft_wf \<Rightarrow> calcs \<Rightarrow>
   fft_wf \<times> (calcs \<times> string option) \<times> dev_ret outcome" where
  "init_wf_in calc0 lt is_double cname r cs =
     CATCH
       (if lt = OtherLink then (r, (cs, None), Ok DevErr)
        else
          let r1 = (if lt = ConstantLink then r\<lparr>f_nord := 0\<rparr> else r)
          in if \<not> is_double then (r1, (cs, None), Throw (RuntimeError ''Unsupported FTVL''))
             else case cname of
                 None \<Rightarrow> (r1, (cs, None), Throw (RuntimeError ''Missing info(CALCNAME''))
               | Some nm \<Rightarrow>
                   (case commonInit calc0 nm DevOk cs of (cs1, dpvt, ret) \<Rightarrow> (r1, (cs1, dpvt), Ok ret)))"

text \<open>A record whose link was changed has lost its private data; it is found again.\<close>

definition find_calc :: "string option \<Rightarrow> string option \<Rightarrow> calcs \<Rightarrow> string option" where
  "find_calc dpvt cname cs =
     (case dpvt of
        Some nm \<Rightarrow> Some nm
      | None \<Rightarrow> (case cname of None \<Rightarrow> None | Some nm \<Rightarrow> if cs nm = None then None else Some nm))"

definition usewindow :: "calc \<Rightarrow> bool" where
  "usewindow c \<longleftrightarrow> c_sampWidth c > 0"

text \<open>How many elements are asked for. The sum wraps at 32 bits.\<close>

definition wf_request :: "calc \<Rightarrow> nat \<Rightarrow> nat" where
  "wf_request c nelm =
     (if usewindow c \<and> nelm > unat (c_sampStart c + c_sampWidth c) then unat (c_sampStart c + c_sampWidth c) else nelm)"

text \<open>
  \<open>link n\<close> is what dbGetLink puts into the buffer when asked for \<open>n\<close> elements, if it succeeds, \<open>ltime\<close> the
  time stamp of the link, if it has one, and \<open>now\<close> the current time.
\<close>

definition wf_fetch ::
  "(nat \<Rightarrow> real list option) \<Rightarrow> epics_time option \<Rightarrow> epics_time \<Rightarrow> calc \<Rightarrow> fft_wf \<Rightarrow> fft_wf \<times> epics_time" where
  "wf_fetch link ltime now c r =
     (case link (wf_request c (f_nelm r)) of
        Some xs \<Rightarrow>
          (r\<lparr>f_buf := splice_at 0 xs (f_buf r), f_nord := length xs\<rparr>, (case ltime of Some t \<Rightarrow> t | None \<Rightarrow> now))
      | None \<Rightarrow> (r, now))"

definition wf_clip :: "calc \<Rightarrow> fft_wf \<Rightarrow> fft_wf" where
  "wf_clip c r = (if usewindow c \<and> f_nord r > unat (c_sampWidth c) then r\<lparr>f_nord := unat (c_sampWidth c)\<rparr> else r)"

definition wf_store ::
  "epics_time \<Rightarrow> real \<Rightarrow> calc \<Rightarrow> fft_wf \<Rightarrow> fft_wf \<times> calc \<times> dev_ret outcome" where
  "wf_store t cputime c r =
     (let pos = (if usewindow c then unat (c_sampStart c) else 0); n = f_nord r
      in if n > 0 \<and> pos + n > length (f_buf r) then (r, c, Crash OutOfBounds)
         else (if tse_device r then r\<lparr>rec_time := t\<rparr> else r,
               poke (c\<lparr>c_calctime := cputime, c_timein := t, c_valin := take n (drop pos (f_buf r))\<rparr>), Ok DevOk))"

definition set_wf_input ::
  "(nat \<Rightarrow> real list option) \<Rightarrow> epics_time option \<Rightarrow> epics_time \<Rightarrow> real \<Rightarrow> string option \<Rightarrow> string option \<Rightarrow>
   fft_wf \<Rightarrow> calcs \<Rightarrow> fft_wf \<times> (calcs \<times> string option) \<times> dev_ret outcome" where
  "set_wf_input link ltime now cputime cname dpvt r cs =
     CATCH
       (case find_calc dpvt cname cs of
          None \<Rightarrow> (r, (cs, dpvt), Ok DevOk)
        | Some nm \<Rightarrow>
            (case cs nm of
               None \<Rightarrow> (r, (cs, dpvt), Crash NullPointer)
             | Some c \<Rightarrow>
                 (case wf_fetch link ltime now c r of (r1, t) \<Rightarrow>
                    case wf_store t cputime c (wf_clip c r1) of
                      (r2, c2, y) \<Rightarrow> (r2, (cs(nm \<mapsto> c2), Some nm), y))))"

section \<open>Results as arrays\<close>

text \<open>Copying a vector into a record: at least one element, zero if there is none.\<close>

definition wf_copy :: "real list \<Rightarrow> fft_wf \<Rightarrow> fft_wf \<times> unit outcome" where
  "wf_copy xs r =
     (let n = min (f_nelm r) (length xs mod 2 ^ 32)
      in if n > length (f_buf r) then (r, Crash OutOfBounds)
         else if n = 0 then
           (if f_buf r = [] then (r, Crash OutOfBounds) else (r\<lparr>f_buf := (f_buf r)[0 := 0], f_nord := 1\<rparr>, Ok ()))
         else (r\<lparr>f_buf := splice_at 0 (take n xs) (f_buf r), f_nord := n\<rparr>, Ok ()))"

text \<open>CHKVALID, then the copy, then \<open>fin\<close>.\<close>

definition get_wf ::
  "real list \<Rightarrow> (fft_wf \<Rightarrow> calc \<Rightarrow> fft_wf \<times> calc) \<Rightarrow> bool \<Rightarrow> fft_wf \<Rightarrow> calc \<Rightarrow> fft_wf \<times> calc \<times> dev_ret outcome" where
  "get_wf xs fin dpvt r c =
     with_calc dpvt
       (if \<not> c_valid c then (recGblSetSevr READ_ALARM INVALID_ALARM r, c, Ok DevOk)
        else case wf_copy xs r of
            (r1, Ok _) \<Rightarrow> (case fin r1 c of (r2, c2) \<Rightarrow> (r2, c2, Ok DevOk))
          | (r1, Throw e) \<Rightarrow> (r1, c, Throw e)
          | (r1, Crash e) \<Rightarrow> (r1, c, Crash e)) r c"

definition wf_times :: "real \<Rightarrow> fft_wf \<Rightarrow> calc \<Rightarrow> fft_wf \<times> calc" where
  "wf_times cputime r c =
     (let r1 = (if tse_device r then r\<lparr>rec_time := c_timeout c\<rparr> else r); (c1, d) = snap cputime c
      in (r1, c1\<lparr>c_lasttime := d\<rparr>))"

definition get_wf_output :: "real \<Rightarrow> bool \<Rightarrow> fft_wf \<Rightarrow> calc \<Rightarrow> fft_wf \<times> calc \<times> dev_ret outcome" where
  "get_wf_output cputime dpvt r c = get_wf (c_valout c) (wf_times cputime) dpvt r c"

definition get_wf_outputint :: "real \<Rightarrow> bool \<Rightarrow> fft_wf \<Rightarrow> calc \<Rightarrow> fft_wf \<times> calc \<times> dev_ret outcome" where
  "get_wf_outputint cputime dpvt r c = get_wf (c_valoutint c) (wf_times cputime) dpvt r c"

definition get_wf_fscale :: "bool \<Rightarrow> fft_wf \<Rightarrow> calc \<Rightarrow> fft_wf \<times> calc \<times> dev_ret outcome" where
  "get_wf_fscale dpvt r c = get_wf (c_scaleout c) (\<lambda>r c. (r, c)) dpvt r c"

definition get_wf_window :: "bool \<Rightarrow> fft_wf \<Rightarrow> calc \<Rightarrow> fft_wf \<times> calc \<times> dev_ret outcome" where
  "get_wf_window dpvt r c = get_wf (c_window c) (\<lambda>r c. (r, c)) dpvt r c"

definition get_iointr_value :: "bool \<Rightarrow> scan_list option" where
  "get_iointr_value dpvt = (if dpvt then Some ValueScan else None)"

definition get_iointr_fscale :: "bool \<Rightarrow> scan_list option" where
  "get_iointr_fscale dpvt = (if dpvt then Some ScaleScan else None)"

section \<open>The worker\<close>

definition scanIoRequest :: "scan_list \<Rightarrow> calc \<Rightarrow> calc" where
  "scanIoRequest l c = c\<lparr>c_scans := c_scans c @ [l]\<rparr>"

definition take_windtype :: "nat \<Rightarrow> psd \<Rightarrow> psd \<times> bool" where
  "take_windtype wt p = (if windowtype p \<noteq> wt then (p\<lparr>windowtype := wt, replan := True\<rparr>, True) else (p, False))"

text \<open>The first critical section: \<open>None\<close> if the settings are not complete.\<close>

definition run_take :: "calc \<Rightarrow> calc \<times> (bool \<times> epics_time) option" where
  "run_take c =
     (if c_fsamp c \<le> 0 \<or> c_nfft c = 0 then (scanIoRequest ValueScan (c\<lparr>c_valid := False\<rparr>), None)
      else
        let (p0, sc0) = take_windtype (c_windowtype c) (c_psd c);
            (p1, sc1) = psd_set_fsamp (c_fsamp c) p0;
            (p2, sc2) = psd_set_nfft (unat (c_nfft c)) p1;
            (p3, sc3) = psd_set_input (c_valin c) (c_mult c) p2
        in (c\<lparr>c_psd := p3\<rparr>, Some (sc0 \<or> sc1 \<or> sc2 \<or> sc3, c_timein c)))"

text \<open>The second critical section.\<close>

definition run_publish :: "bool \<Rightarrow> epics_time \<Rightarrow> calc \<Rightarrow> calc" where
  "run_publish sc t c =
     (let p = c_psd c; nz = (\<lambda>xs. if xs = [] then [0] else xs);
          c1 = c\<lparr>c_valid := p_output p \<noteq> [] \<and> outint p \<noteq> [], c_totalpowertime := totalpowertime p,
                 c_totalpowerfreq := totalpowerfreq p, c_valout := nz (p_output p), c_valoutint := nz (outint p)\<rparr>;
          c2 = (if sc then c1\<lparr>c_scaleout := nz (fscale p), c_valid := c_valid c1 \<and> fscale p \<noteq> [], c_window := window p\<rparr>
                else c1)
      in c2\<lparr>c_timeout := t\<rparr>)"

text \<open>One step of the loop of \<open>run\<close>: up to the end of the first critical section, or the rest.\<close>

definition run_wake :: "calc \<Rightarrow> calc" where
  "run_wake c =
     (case run_take (c\<lparr>c_wake := False\<rparr>) of
        (c1, None) \<Rightarrow> c1
      | (c1, Some (sc, t)) \<Rightarrow> c1\<lparr>c_worker := Computing sc t\<rparr>)"

definition run_finish :: "fftw \<Rightarrow> bool \<Rightarrow> epics_time \<Rightarrow> calc \<Rightarrow> calc \<times> unit outcome" where
  "run_finish ff sc t c =
     (case calculate ff (c_psd c) of
        (p, Ok _) \<Rightarrow>
          let c1 = run_publish sc t (c\<lparr>c_psd := p\<rparr>);
              c2 = (if sc then scanIoRequest ScaleScan c1 else c1)
          in (scanIoRequest ValueScan (c2\<lparr>c_worker := Waiting\<rparr>), Ok ())
      | (p, r) \<Rightarrow> (c\<lparr>c_psd := p, c_worker := Stopped\<rparr>, r))"

section \<open>What the records see\<close>

text \<open>Everything that happens to one \<open>Calc\<close>, in any order.\<close>

inductive calc_reach :: "fftw \<Rightarrow> calc \<Rightarrow> bool" for ff where
  new: "calc_reach ff (Calc_new wt psdwt lt now)"
| run: "calc_reach ff c \<Longrightarrow> c_worker c = NotStarted \<Longrightarrow> calc_reach ff (c\<lparr>c_worker := Waiting\<rparr>)"
| nfft: "calc_reach ff c \<Longrightarrow> set_nfft d r c = (r1, c1, y) \<Longrightarrow> calc_reach ff c1"
| fsamp: "calc_reach ff c \<Longrightarrow> set_fsamp d a c = (a1, c1, y) \<Longrightarrow> calc_reach ff c1"
| scale: "calc_reach ff c \<Longrightarrow> set_scale d a c = (a1, c1, y) \<Longrightarrow> calc_reach ff c1"
| start: "calc_reach ff c \<Longrightarrow> set_start d r c = (r1, c1, y) \<Longrightarrow> calc_reach ff c1"
| width: "calc_reach ff c \<Longrightarrow> set_width d r c = (r1, c1, y) \<Longrightarrow> calc_reach ff c1"
| windtype: "calc_reach ff c \<Longrightarrow> set_windtype d b c = (b1, c1, y) \<Longrightarrow> calc_reach ff c1"
| signal: "calc_reach ff c \<Longrightarrow> wf_store t cputime c w = (w1, c1, y) \<Longrightarrow> calc_reach ff c1"
| out: "calc_reach ff c \<Longrightarrow> get_wf_output cputime d w c = (w1, c1, y) \<Longrightarrow> calc_reach ff c1"
| outi: "calc_reach ff c \<Longrightarrow> get_wf_outputint cputime d w c = (w1, c1, y) \<Longrightarrow> calc_reach ff c1"
| wake: "calc_reach ff c \<Longrightarrow> c_worker c = Waiting \<Longrightarrow> c_wake c \<Longrightarrow> calc_reach ff (run_wake c)"
| fin: "calc_reach ff c \<Longrightarrow> c_worker c = Computing sc t \<Longrightarrow> run_finish ff sc t c = (c1, y) \<Longrightarrow> calc_reach ff c1"

definition psd_fit :: "psd \<Rightarrow> bool" where
  "psd_fit p \<longleftrightarrow> length (p_output p) = length (fscale p) \<and> length (outint p) = length (fscale p)"

definition scale_fit :: "calc \<Rightarrow> bool" where
  "scale_fit c \<longleftrightarrow> length (c_scaleout c) = max 1 (length (fscale (c_psd c)))"

definition results_fit :: "calc \<Rightarrow> bool" where
  "results_fit c \<longleftrightarrow>
     c_valout c \<noteq> [] \<and> length (c_valoutint c) = length (c_valout c) \<and> length (c_scaleout c) = length (c_valout c)"

definition calc_inv :: "fftw \<Rightarrow> calc \<Rightarrow> bool" where
  "calc_inv ff c \<longleftrightarrow>
     psd_reach ff (c_psd c) \<and> (c_valid c \<longrightarrow> results_fit c) \<and>
     (case c_worker c of
        Computing sc t \<Rightarrow>
          psd_fit (c_psd c) \<and> nfft (c_psd c) \<noteq> 0 \<and>
          (\<not> sc \<longrightarrow> (replan (c_psd c) \<longrightarrow> p_input (c_psd c) = []) \<and> scale_fit c)
      | Stopped \<Rightarrow> True
      | _ \<Rightarrow>
          psd_fit (c_psd c) \<and> (replan (c_psd c) \<longrightarrow> p_input (c_psd c) = []) \<and>
          (fsamp (c_psd c) \<noteq> 0 \<longrightarrow> scale_fit c))"

text \<open>What the handlers of the records leave alone.\<close>

definition same_results :: "calc \<Rightarrow> calc \<Rightarrow> bool" where
  "same_results c d \<longleftrightarrow>
     c_worker d = c_worker c \<and> c_psd d = c_psd c \<and> c_valid d = c_valid c \<and> c_valout d = c_valout c \<and>
     c_valoutint d = c_valoutint c \<and> c_scaleout d = c_scaleout c \<and> c_window d = c_window c \<and>
     c_totalpowertime d = c_totalpowertime c \<and> c_totalpowerfreq d = c_totalpowerfreq c"

lemma calc_inv_cong: "same_results c d \<Longrightarrow> calc_inv ff c \<Longrightarrow> calc_inv ff d"
  by (simp add: same_results_def calc_inv_def results_fit_def scale_fit_def split: worker.splits)

lemma with_calc_state:
  assumes "with_calc d (q, c2, Ok z) r c = (r1, c1, y)"
  shows "c1 = (if d then c2 else c)"
  using assms by (auto simp: with_calc_def CATCH_def split: if_splits)

lemma same_settings:
  "set_nfft d r c = (r1, c1, y) \<Longrightarrow> same_results c c1"
  "set_fsamp d a c = (a1, c1, y) \<Longrightarrow> same_results c c1"
  "set_scale d a c = (a1, c1, y) \<Longrightarrow> same_results c c1"
  "set_start d r c = (r1, c1, y) \<Longrightarrow> same_results c c1"
  "set_width d r c = (r1, c1, y) \<Longrightarrow> same_results c c1"
  "set_windtype d b c = (b1, c1, y) \<Longrightarrow> same_results c c1"
  by (auto simp: set_nfft_def set_fsamp_def set_scale_def set_start_def set_width_def set_windtype_def poke_def
      same_results_def Let_def dest: with_calc_state split: if_splits)

lemma same_store: "wf_store t cputime c w = (w1, c1, y) \<Longrightarrow> same_results c c1"
  by (auto simp: wf_store_def Let_def poke_def same_results_def split: if_splits)

lemma same_get:
  assumes "get_wf xs (wf_times cputime) d w c = (w1, c1, y)"
  shows "same_results c c1"
proof -
  obtain w2 z where w: "wf_copy xs w = (w2, z)" by (cases "wf_copy xs w")
  show ?thesis
    using assms w
    by (cases z) (auto simp: get_wf_def with_calc_def CATCH_def wf_times_def snap_def same_results_def Let_def
        split: if_splits exn.splits)
qed

section \<open>Calculations keep the results consistent\<close>

lemma calculate_fit:
  assumes "fftw_ok ff" and "psd_ok p" and "nfft p \<noteq> 0" and "psd_fit p" and "calculate ff p = (q, Ok ())"
  shows "psd_fit q" and "replan q \<Longrightarrow> p_input q = []" and "replan p \<longrightarrow> p_input p = [] \<Longrightarrow> fscale q = fscale p"
proof -
  have "psd_fit q \<and> (replan q \<longrightarrow> p_input q = []) \<and> ((replan p \<longrightarrow> p_input p = []) \<longrightarrow> fscale q = fscale p)"
  proof (cases "p_input p = []")
    case True
    then show ?thesis using assms(4,5) by (simp add: calculate_def)
  next
    case False
    from calculate_stages [OF assms(1,2) False assms(3,5)] obtain s2 s3 z where
      s: "psd_input (psd_window ff p) = (s2, Ok ())" "ready s2" "psd_plan ff s2 = (s3, z)" "Ok () = z"
      "planned s3 \<and> spectrum ff s3 = (q, Ok ())" by metis
    note rw = ready_window [OF assms(2) False assms(3), of ff]
    note ri = ready_input [OF rw(1) s(1)]
    have q: "planned q" "replan q = replan s3" using spectrum_sizes s(5) by blast+
    have "fscale q = fscale s3" using spectrum_eq [of s3 ff] s(5) by auto
    moreover have "fscale s2 = fscale (psd_window ff p)"
      using s(1) by (auto simp: psd_input_def prepare_input_def Let_def split: if_splits)
    moreover have "fscale (psd_window ff p) = fscale p" by (simp add: psd_window_def make_window_def Let_def)
    moreover have "\<not> replan p \<longrightarrow> s3 = s2" using ready_plan(6) [OF assms(1) s(2,3)] ri(6) rw(5) by simp
    moreover have "\<not> replan s3"
    proof (cases "replan s2")
      case True
      then have "make_plan ff s2 = (s3, Ok ())" using s(3,4) by (simp add: psd_plan_def)
      then show ?thesis
        using make_plan_sizes [OF assms(1), of s2] s(2) by (auto simp: ready_def)
    next
      case False
      then show ?thesis using ready_plan(6) [OF assms(1) s(2,3)] by simp
    qed
    ultimately show ?thesis using q False by (auto simp: psd_fit_def planned_def)
  qed
  then show "psd_fit q" "replan q \<Longrightarrow> p_input q = []" "replan p \<longrightarrow> p_input p = [] \<Longrightarrow> fscale q = fscale p" by blast+
qed

lemma run_publish_fields:
  "c_psd (run_publish sc t c) = c_psd c" "c_worker (run_publish sc t c) = c_worker c"
  by (simp_all add: run_publish_def Let_def)

lemma run_publish_fit:
  assumes "psd_fit (c_psd c)" and "\<not> sc \<longrightarrow> scale_fit c"
  shows "scale_fit (run_publish sc t c)" and "c_valid (run_publish sc t c) \<Longrightarrow> results_fit (run_publish sc t c)"
  using assms by (auto simp: run_publish_def Let_def psd_fit_def scale_fit_def results_fit_def max_def Suc_le_eq)

lemma calc_inv_finish:
  assumes "fftw_ok ff" and "calc_inv ff c" and "c_worker c = Computing sc t" and "run_finish ff sc t c = (d, y)"
  shows "calc_inv ff d \<and> \<not> crashed y"
proof -
  obtain q z where q: "calculate ff (c_psd c) = (q, z)" by (cases "calculate ff (c_psd c)")
  have i: "psd_reach ff (c_psd c)" "c_valid c \<longrightarrow> results_fit c" "psd_fit (c_psd c)" "nfft (c_psd c) \<noteq> 0"
    "\<not> sc \<longrightarrow> (replan (c_psd c) \<longrightarrow> p_input (c_psd c) = []) \<and> scale_fit c"
    using assms(2,3) by (simp_all add: calc_inv_def)
  have ok: "psd_ok (c_psd c)" by (rule psd_reach_ok [OF i(1) assms(1)])
  show ?thesis
  proof (cases z)
    case (Ok u)
    have "calculate ff (c_psd c) = (q, Ok ())" using q Ok by simp
    note cf = calculate_fit [OF assms(1) ok i(4,3) this]
    let ?c = "run_publish sc t (c\<lparr>c_psd := q\<rparr>)"
    have "\<not> sc \<longrightarrow> scale_fit (c\<lparr>c_psd := q\<rparr>)" using i(5) cf(3) by (simp add: scale_fit_def)
    then have f: "scale_fit ?c" "c_valid ?c \<Longrightarrow> results_fit ?c"
      using run_publish_fit [of "c\<lparr>c_psd := q\<rparr>" sc t] cf(1) by simp_all
    have d: "d = scanIoRequest ValueScan ((if sc then scanIoRequest ScaleScan ?c else ?c)\<lparr>c_worker := Waiting\<rparr>)" "y = Ok ()"
      using assms(4) q Ok by (auto simp: run_finish_def Let_def)
    have "psd_reach ff q" using psd_reach.calc [OF i(1)] q Ok by blast
    then show ?thesis
      using cf(1,2) f run_publish_fields [of sc t "c\<lparr>c_psd := q\<rparr>"] unfolding d
      by (cases sc) (simp_all add: calc_inv_def scanIoRequest_def results_fit_def scale_fit_def)
  next
    case (Throw e)
    then have "psd_reach ff q" using psd_reach.failed [OF i(1)] q by blast
    then show ?thesis using assms(4) q Throw i(2) by (auto simp: run_finish_def calc_inv_def results_fit_def)
  next
    case (Crash e)
    then show ?thesis using psd_ok_calculate [OF assms(1) ok q] by simp
  qed
qed

lemma run_take_psd:
  assumes "psd_reach ff (c_psd c)" and "psd_fit (c_psd c)" and "run_take c = (d, Some (sc, t))"
  shows "psd_reach ff (c_psd d)" and "psd_fit (c_psd d)" and "nfft (c_psd d) \<noteq> 0" and "d = c\<lparr>c_psd := c_psd d\<rparr>"
    and "\<not> sc \<Longrightarrow> c_psd d = (c_psd c)\<lparr>p_input := c_valin c, newval := True\<rparr> \<and>
      length (c_valin c) = length (p_input (c_psd c)) \<and> 0 < fsamp (c_psd c)"
proof -
  let ?p = "c_psd c"
  obtain p0 sc0 where p0: "take_windtype (c_windowtype c) ?p = (p0, sc0)" by (cases "take_windtype (c_windowtype c) ?p")
  obtain p1 sc1 where p1: "psd_set_fsamp (c_fsamp c) p0 = (p1, sc1)" by (cases "psd_set_fsamp (c_fsamp c) p0")
  obtain p2 sc2 where p2: "psd_set_nfft (unat (c_nfft c)) p1 = (p2, sc2)" by (cases "psd_set_nfft (unat (c_nfft c)) p1")
  obtain p3 sc3 where p3: "psd_set_input (c_valin c) (c_mult c) p2 = (p3, sc3)"
    by (cases "psd_set_input (c_valin c) (c_mult c) p2")
  have g: "0 < c_fsamp c" "c_nfft c \<noteq> 0" using assms(3) by (auto simp: run_take_def split: if_splits)
  then have d: "d = c\<lparr>c_psd := p3\<rparr>" "sc = (sc0 \<or> sc1 \<or> sc2 \<or> sc3)"
    using assms(3) by (simp_all add: run_take_def p0 p1 p2 p3)
  have q0: "p0 = (if sc0 then ?p\<lparr>windowtype := c_windowtype c, replan := True\<rparr> else ?p)"
    using p0 by (auto simp: take_windtype_def split: if_splits)
  have q1: "p1 = (if sc1 then p0\<lparr>fsamp := c_fsamp c, replan := True\<rparr> else p0)" "fsamp p1 = c_fsamp c"
    using p1 by (auto simp: psd_set_fsamp_def split: if_splits)
  have q2: "p2 = (if sc2 then p1\<lparr>nfft := unat (c_nfft c), replan := True\<rparr> else p1)" "nfft p2 = unat (c_nfft c)"
    using p2 by (auto simp: psd_set_nfft_def split: if_splits)
  have q3: "psd_fit p3 = psd_fit p2" "nfft p3 = nfft p2"
    "\<not> sc3 \<Longrightarrow> p3 = p2\<lparr>p_input := c_valin c, newval := True\<rparr> \<and> length (c_valin c) = length (p_input p2)"
    using p3 by (auto simp: psd_set_input_def psd_fit_def Let_def split: if_splits)
  have r0: "psd_reach ff p0" using assms(1) psd_reach.win by (simp add: q0)
  have r1: "psd_reach ff p1" using psd_reach.fsamp [OF r0, of "c_fsamp c"] p1 by simp
  have r2: "psd_reach ff p2" using psd_reach.nfft [OF r1, of "unat (c_nfft c)"] p2 by simp
  show "psd_reach ff (c_psd d)" using psd_reach.inp [OF r2, of "c_valin c" "c_mult c"] p3 d(1) by simp
  show "nfft (c_psd d) \<noteq> 0" using g(2) d(1) q2(2) q3(2) by (simp add: unat_eq_zero)
  have "psd_fit p2 = psd_fit ?p" by (simp add: q2(1) q1(1) q0 psd_fit_def)
  then show "psd_fit (c_psd d)" using assms(2) q3(1) d(1) by simp
  show "d = c\<lparr>c_psd := c_psd d\<rparr>" by (simp add: d(1))
  show "c_psd d = ?p\<lparr>p_input := c_valin c, newval := True\<rparr> \<and>
      length (c_valin c) = length (p_input ?p) \<and> 0 < fsamp ?p" if "\<not> sc"
    using that d g(1) q0 q1 q2 q3(3) by simp
qed

lemma calc_inv_wake:
  assumes "calc_inv ff c" and "c_worker c = Waiting"
  shows "calc_inv ff (run_wake c)"
proof -
  let ?c = "c\<lparr>c_wake := False\<rparr>"
  have i: "psd_reach ff (c_psd c)" "c_valid c \<longrightarrow> results_fit c" "psd_fit (c_psd c)"
    "replan (c_psd c) \<longrightarrow> p_input (c_psd c) = []" "fsamp (c_psd c) \<noteq> 0 \<longrightarrow> scale_fit c"
    using assms by (simp_all add: calc_inv_def)
  obtain d x where t: "run_take ?c = (d, x)" by (cases "run_take ?c")
  show ?thesis
  proof (cases x)
    case None
    then have "d = scanIoRequest ValueScan (?c\<lparr>c_valid := False\<rparr>)"
      using t by (auto simp: run_take_def Let_def split: if_splits prod.splits)
    then show ?thesis
      using t None i assms(2) by (simp add: run_wake_def calc_inv_def scanIoRequest_def scale_fit_def)
  next
    case (Some y)
    obtain sc tm where y: "y = (sc, tm)" by (cases y)
    have "psd_reach ff (c_psd ?c)" "psd_fit (c_psd ?c)" using i(1,3) by simp_all
    note rt = run_take_psd [OF this t [unfolded Some y]]
    have w: "run_wake c = d\<lparr>c_worker := Computing sc tm\<rparr>" using t Some y by (simp add: run_wake_def)
    have same: "c_valid d = c_valid c" "c_valout d = c_valout c" "c_valoutint d = c_valoutint c"
      "c_scaleout d = c_scaleout c" using arg_cong [OF rt(4), of c_valid] arg_cong [OF rt(4), of c_valout]
        arg_cong [OF rt(4), of c_valoutint] arg_cong [OF rt(4), of c_scaleout] by simp_all
    have "(replan (c_psd d) \<longrightarrow> p_input (c_psd d) = []) \<and> scale_fit d" if "\<not> sc"
      using rt(5) [OF that] i(4,5) same by (auto simp: scale_fit_def)
    then show ?thesis
      using rt(1-3) i(2) same unfolding w by (simp add: calc_inv_def results_fit_def scale_fit_def)
  qed
qed

lemma calc_reach_inv: "calc_reach ff c \<Longrightarrow> fftw_ok ff \<Longrightarrow> calc_inv ff c"
proof (induction rule: calc_reach.induct)
  case (new wt psdwt lt now)
  have "psd_reach ff (PSDCalc_new psdwt)" by (rule psd_reach.new)
  then show ?case by (simp add: calc_inv_def Calc_new_def psd_fit_def PSDCalc_new_def)
next
  case (run c)
  then show ?case by (simp add: calc_inv_def results_fit_def scale_fit_def)
next
  case (out c cputime d w w1 c1 y)
  then show ?case using calc_inv_cong same_get unfolding get_wf_output_def by blast
next
  case (outi c cputime d w w1 c1 y)
  then show ?case using calc_inv_cong same_get unfolding get_wf_outputint_def by blast
next
  case (wake c)
  then show ?case using calc_inv_wake by blast
next
  case (fin c sc t c1 y)
  then show ?case using calc_inv_finish by blast
qed (metis calc_inv_cong same_settings same_store)+




section \<open>Properties\<close>


definition demo_calc :: calc where
  "demo_calc = (Calc_new 0 0 0 0)\<lparr>c_worker := Waiting\<rparr>"

lemma demo_calc_reach: "calc_reach ideal_fftw demo_calc"
  unfolding demo_calc_def by (rule calc_reach.run [OF calc_reach.new]) (simp add: Calc_new_def)


text \<open>
  C24: The window of samples that the records START and WIDTH choose. The spectrum is calculated of the samples from START
  on, WIDTH of them, when the link has that many. When it has fewer, the number of samples is not reduced by START: the
  samples that are missing are taken from what the buffer of the record held before, and where the buffer ends the copy
  reads past it.
\<close>

theorem calc_input_window:
  assumes "cs nm = Some c" and "length (f_buf r) = f_nelm r" and "0 < c_sampWidth c"
    and "unat (c_sampStart c) + unat (c_sampWidth c) < 2 ^ 32"
    and "link (wf_request c (f_nelm r)) = Some xs" and "length xs \<le> wf_request c (f_nelm r)"
    and "set_wf_input link ltime now cputime cname (Some nm) r cs = (r1, (cs1, d), y)"
  shows "let s = unat (c_sampStart c); w = unat (c_sampWidth c); n = min (length xs) w
    in (if 0 < n \<and> f_nelm r < s + n then y = Crash OutOfBounds
        else y = Ok DevOk \<and> f_nord r1 = n \<and>
          (\<exists>c1. cs1 nm = Some c1 \<and> c_wake c1 \<and> c_valin c1 = take n (drop s (xs @ drop (length xs) (f_buf r))) \<and>
             (s + w \<le> length xs \<longrightarrow> c_valin c1 = take w (drop s xs))))"
proof -
  let ?s = "unat (c_sampStart c)" and ?w = "unat (c_sampWidth c)" and ?n = "min (length xs) (unat (c_sampWidth c))"
  have "length xs \<le> f_nelm r" using assms(6) by (simp add: wf_request_def split: if_splits)
  then have l: "length (splice_at 0 xs (f_buf r)) = f_nelm r" using assms(2) by simp
  have b: "splice_at 0 xs (f_buf r) = xs @ drop (length xs) (f_buf r)" by (simp add: splice_at_def)
  obtain r2 t where f: "wf_fetch link ltime now c r = (r2, t)" "f_buf r2 = splice_at 0 xs (f_buf r)"
    "f_nord r2 = length xs" using assms(5) by (simp add: wf_fetch_def)
  have u: "usewindow c" using assms(3) by (simp add: usewindow_def)
  have c: "f_buf (wf_clip c r2) = splice_at 0 xs (f_buf r)" "f_nord (wf_clip c r2) = ?n"
    using f u by (auto simp: wf_clip_def)
  obtain r3 c3 z where st: "wf_store t cputime c (wf_clip c r2) = (r3, c3, z)" by (metis prod_cases3)
  then have s: "if 0 < ?n \<and> f_nelm r < ?s + ?n then z = Crash OutOfBounds
      else z = Ok DevOk \<and> f_nord r3 = ?n \<and> c_wake c3 \<and> c_valin c3 = take ?n (drop ?s (splice_at 0 xs (f_buf r)))"
    using u l unfolding wf_store_def c Let_def by (auto simp: poke_def c split: if_splits)
  have "(r1, (cs1, d), y) = CATCH (r3, (cs(nm \<mapsto> c3), Some nm), z)"
    using assms(1,7) f(1) st by (simp add: set_wf_input_def find_calc_def)
  then have e: "if 0 < ?n \<and> f_nelm r < ?s + ?n then y = Crash OutOfBounds
      else y = Ok DevOk \<and> f_nord r1 = ?n \<and> cs1 nm = Some c3"
    using s by (auto simp: CATCH_def split: if_splits)
  have "?s + ?w \<le> length xs \<Longrightarrow> take ?n (drop ?s (splice_at 0 xs (f_buf r))) = take ?w (drop ?s xs)"
    unfolding b by (simp add: min_def)
  then show ?thesis using e s unfolding b Let_def by (auto split: if_splits)
qed

theorem calc_input_window_witness:
  "\<exists>c. c_valin c = [8, 0] \<and>
     fst (fst (snd (set_wf_input (\<lambda>_. Some [7, 8]) None (0, 0) 0 None (Some ''a'')
       \<lparr>tse_device = False, rec_time = (0, 0), alarms = [], f_buf = [0, 0, 0, 0], f_nelm = 4, f_nord = 0\<rparr>
       [''a'' \<mapsto> demo_calc\<lparr>c_sampStart := 1, c_sampWidth := 2\<rparr>]))) ''a'' = Some c"
proof -
  let ?r = "\<lparr>tse_device = False, rec_time = (0, 0), alarms = [], f_buf = [0, 0, 0, 0], f_nelm = 4, f_nord = 0\<rparr>"
  let ?c = "demo_calc\<lparr>c_sampStart := 1, c_sampWidth := 2\<rparr>"
  obtain r1 cs1 d y where s: "set_wf_input (\<lambda>_. Some [7, 8]) None (0, 0) 0 None (Some ''a'') ?r [''a'' \<mapsto> ?c] = (r1, (cs1, d), y)"
    by (metis prod.collapse)
  have u: "unat (c_sampStart ?c) = 1" "unat (c_sampWidth ?c) = 2" "wf_request ?c (f_nelm ?r) = 3"
    by (simp_all add: wf_request_def usewindow_def)
  have "0 < c_sampWidth ?c" by simp
  from calc_input_window [OF _ _ this _ _ _ s] have "\<exists>c1. cs1 ''a'' = Some c1 \<and> c_valin c1 = take 2 (drop 1 [7, 8, 0, 0])"
    unfolding u by (simp add: Let_def) blast
  then show ?thesis using s by auto
qed

text \<open>
  A turn of the worker with incomplete settings makes the results invalid. With an empty signal it presents
  the results of the signal before as valid, with the time of the empty one.
\<close>

theorem calc_stale_results:
  assumes "c_worker c = Waiting" and "c_valin c = []" and "p_output (c_psd c) \<noteq> []" and "psd_fit (c_psd c)"
    and "run_wake c = c1"
  shows "if c_fsamp c \<le> 0 \<or> c_nfft c = 0 then \<not> c_valid c1 \<and> c_worker c1 = Waiting
    else \<exists>sc. c_worker c1 = Computing sc (c_timein c) \<and>
      (let d = fst (run_finish ff sc (c_timein c) c1)
       in c_valid d \<and> c_valout d = p_output (c_psd c) \<and> c_timeout d = c_timein c)"
proof (cases "c_fsamp c \<le> 0 \<or> c_nfft c = 0")
  case True
  then show ?thesis using assms(1,5) by (auto simp: run_wake_def run_take_def scanIoRequest_def)
next
  case False
  let ?c = "c\<lparr>c_wake := False\<rparr>"
  obtain d sc where t: "run_take ?c = (d, Some (sc, c_timein c))"
    using False by (auto simp: run_take_def split_beta Let_def)
  have q: "p_input (c_psd d) = []" "p_output (c_psd d) = p_output (c_psd c)" "outint (c_psd d) = outint (c_psd c)"
    "fscale (c_psd d) = fscale (c_psd c)"
    using t False assms(2) by (auto simp: run_take_def take_windtype_def psd_set_fsamp_def psd_set_nfft_def
        psd_set_input_def Let_def split: if_splits)
  have c1: "c1 = d\<lparr>c_worker := Computing sc (c_timein c)\<rparr>" using t assms(5) by (simp add: run_wake_def)
  have "calculate ff (c_psd c1) = (c_psd d, Ok ())" using q(1) by (simp add: c1 calculate_def)
  moreover have "outint (c_psd c) \<noteq> []" "fscale (c_psd c) \<noteq> []" using assms(3,4) by (auto simp: psd_fit_def)
  ultimately show ?thesis
    using False q assms(3) by (auto simp: run_finish_def run_publish_def scanIoRequest_def Let_def c1)
qed

theorem calc_stale_results_witness:
  "\<not> c_valid (run_wake demo_calc)"
proof -
  have "c_worker (demo_calc\<lparr>c_psd := demo_planned\<rparr>) = Waiting" "psd_fit demo_planned" "p_output demo_planned \<noteq> []"
    by (simp_all add: demo_calc_def psd_fit_def demo_planned_def)
  then have "\<not> c_valid (run_wake (demo_calc\<lparr>c_psd := demo_planned\<rparr>))"
    using calc_stale_results [of "demo_calc\<lparr>c_psd := demo_planned\<rparr>"] by (simp add: demo_calc_def Calc_new_def)
  then show ?thesis by (simp add: demo_calc_def Calc_new_def run_wake_def run_take_def scanIoRequest_def)
qed

text \<open>A calculation whose plan exists returns.\<close>

lemma calculate_planned:
  assumes "fftw_ok ff" and "psd_ok s" and "p_input s \<noteq> []" and "nfft s \<noteq> 0" and "\<not> replan s"
  shows "\<exists>t. calculate ff s = (t, Ok ())"
proof -
  obtain t y where c: "calculate ff s = (t, y)" by (cases "calculate ff s")
  from calculate_stages [OF assms(1-4) c] obtain s2 s3 z where
    z: "psd_input (psd_window ff s) = (s2, Ok ())" "psd_plan ff s2 = (s3, z)" "y = z" by metis
  have "\<not> replan s2"
    using ready_input(6) [OF ready_window(1) [OF assms(2-4)] z(1)] ready_window(5) [OF assms(2-4)] assms(5) by simp
  then show ?thesis using c z(2,3) by (simp add: psd_plan_def)
qed

text \<open>The settings, for signals of \<open>n\<close> samples without window, are those of a calculation that was made before.\<close>

definition settled :: "calc \<Rightarrow> nat \<Rightarrow> bool" where
  "settled c n \<longleftrightarrow>
     (let p = c_psd c
      in 0 < n \<and> n \<le> unat (c_nfft c) \<and> 0 < c_fsamp c \<and> c_sampWidth c = 0 \<and> c_worker c = Waiting \<and>
         windowtype p = c_windowtype c \<and> fsamp p = c_fsamp c \<and> nfft p = unat (c_nfft c) \<and>
         mult p = (if c_mult c = 0 then 1 else c_mult c) \<and> length (p_input p) = n \<and> \<not> replan p \<and>
         window p = replicate n 1)"

lemma settled_wake:
  assumes "settled c n" and "length (c_valin c) = n"
  shows "run_wake c = c\<lparr>c_wake := False, c_psd := (c_psd c)\<lparr>p_input := c_valin c, newval := True\<rparr>,
    c_worker := Computing False (c_timein c)\<rparr>"
proof -
  have "c_nfft c \<noteq> 0" using assms(1) by (auto simp: settled_def Let_def)
  then show ?thesis
    using assms by (simp add: settled_def Let_def run_wake_def run_take_def take_windtype_def psd_set_fsamp_def
        psd_set_nfft_def psd_set_input_def)
qed

lemma set_wf_input_plain:
  assumes "cs nm = Some c" and "c_sampWidth c = 0" and "length (f_buf r) = f_nelm r" and "length xs \<le> f_nelm r"
    and "link (f_nelm r) = Some xs" and "set_wf_input link ltime now cputime cname (Some nm) r cs = (r1, (cs1, d), y)"
  shows "y = Ok DevOk \<and> (\<exists>t. cs1 nm = Some (poke (c\<lparr>c_calctime := cputime, c_timein := t, c_valin := xs\<rparr>)))"
proof -
  have u: "\<not> usewindow c" using assms(2) by (simp add: usewindow_def)
  then have q: "wf_request c (f_nelm r) = f_nelm r" by (simp add: wf_request_def)
  have "length (splice_at 0 xs (f_buf r)) = f_nelm r" "take (length xs) (splice_at 0 xs (f_buf r)) = xs"
    using assms(3,4) by (simp_all add: splice_at_def)
  then show ?thesis
    using assms(1,4,5,6) u q
    by (intro conjI exI [of _ "case ltime of Some t \<Rightarrow> t | None \<Rightarrow> now"])
      (auto simp: set_wf_input_def find_calc_def wf_fetch_def wf_clip_def wf_store_def Let_def CATCH_def)
qed

text \<open>
  C16: From the signal to the power records (Parseval). When a record without window gives a signal of the length
  and settings of the calculation before, the turn of the worker that it wakes ends normally, and
  the record of the power in time shows the mean square of the scaled samples around their mean; the
  record of the power in frequency shows the same for an odd number of samples, while for an even number the
  highest frequency is counted twice.
\<close>

theorem calc_power:
  assumes "fftw_ok ff" and "execute ff = dft" and "calc_reach ff c" and "settled c (length xs)"
    and "cs nm = Some c" and "length (f_buf r) = f_nelm r" and "length xs \<le> f_nelm r" and "link (f_nelm r) = Some xs"
    and "set_wf_input link ltime now cputime cname (Some nm) r cs = (r1, (cs1, d), y)"
  shows "\<exists>c1 c2 sc t. y = Ok DevOk \<and> cs1 nm = Some c1 \<and> c_wake c1 \<and> c_worker (run_wake c1) = Computing sc t \<and>
    run_finish ff sc t (run_wake c1) = (c2, Ok ()) \<and>
    (let n = length xs; m = (if c_mult c = 0 then 1 else c_mult c);
         ys = map (\<lambda>x. (x - sum_list xs / real n) / m) xs; p = sum_list (map (\<lambda>y. y * y) ys) / real n
     in a_val (fst (get_totalptime True a c2)) = analogEGU2Raw (a_conv a) p \<and>
        a_val (fst (get_totalpfreq True a c2)) =
          analogEGU2Raw (a_conv a) (p + (if even n then (\<Sum>k<n. (- 1) ^ k * ys ! k)\<^sup>2 / (real n)\<^sup>2 else 0)))"
proof -
  let ?p = "(c_psd c)\<lparr>p_input := xs, newval := True\<rparr>"
  have st: "xs \<noteq> []" "length xs \<le> unat (c_nfft c)" "c_sampWidth c = 0" "nfft (c_psd c) = unat (c_nfft c)"
    "mult (c_psd c) = (if c_mult c = 0 then 1 else c_mult c)" "\<not> replan (c_psd c)" "window (c_psd c) = replicate (length xs) 1"
    "length (p_input (c_psd c)) = length xs"
    using assms(4) by (auto simp: settled_def Let_def)
  obtain t where y: "y = Ok DevOk" "cs1 nm = Some (poke (c\<lparr>c_calctime := cputime, c_timein := t, c_valin := xs\<rparr>))"
    using set_wf_input_plain [OF assms(5) st(3) assms(6-9)] by blast
  define c1 where "c1 = poke (c\<lparr>c_calctime := cputime, c_timein := t, c_valin := xs\<rparr>)"
  have c1: "settled c1 (length xs)" "c_valin c1 = xs" "c_psd c1 = c_psd c" "c_wake c1" "c_timein c1 = t"
    using assms(4) by (simp_all add: c1_def poke_def settled_def Let_def)
  have w: "run_wake c1 = c1\<lparr>c_wake := False, c_psd := ?p, c_worker := Computing False t\<rparr>"
    using settled_wake [OF c1(1)] c1(2,3,5) by simp
  have "psd_reach ff (c_psd c)" using calc_reach_inv [OF assms(3,1)] by (simp add: calc_inv_def)
  then have "psd_reach ff (fst (psd_set_input xs (mult (c_psd c)) (c_psd c)))" by (rule psd_reach.inp)
  moreover have "fst (psd_set_input xs (mult (c_psd c)) (c_psd c)) = ?p"
    using st(5,8) by (simp add: psd_set_input_def Let_def)
  ultimately have ok: "psd_ok ?p" using psd_reach_ok assms(1) by simp
  have "nfft ?p \<noteq> 0" using st(1,2,4) by (cases xs) simp_all
  then obtain q where q: "calculate ff ?p = (q, Ok ())"
    using calculate_planned [OF assms(1) ok] st(1,6) by auto
  define c2 where "c2 = scanIoRequest ValueScan ((run_publish False t ((run_wake c1)\<lparr>c_psd := q\<rparr>))\<lparr>c_worker := Waiting\<rparr>)"
  have "c_psd (run_wake c1) = ?p" by (simp add: w)
  then have fin: "run_finish ff False t (run_wake c1) = (c2, Ok ())" using q by (simp add: run_finish_def c2_def)
  have c2: "c_totalpowertime c2 = totalpowertime q" "c_totalpowerfreq c2 = totalpowerfreq q"
    by (simp_all add: c2_def scanIoRequest_def run_publish_def Let_def)
  have pw: "\<not> replan ?p" "newval ?p" "window ?p = replicate (length (p_input ?p)) 1" "length (p_input ?p) \<le> nfft ?p"
    using st by simp_all
  note power = psd_power [OF assms(1,2) ok pw q, unfolded Let_def]
  show ?thesis
    using y c1(4) fin w c2 power st(5)
    by (intro exI [of _ c1] exI [of _ c2] exI [of _ False] exI [of _ t])
      (simp add: Let_def c1_def [symmetric] get_totalptime_def get_totalpfreq_def with_calc_def CATCH_def get_analog_def)
qed

text \<open>The first calculation without window settles the settings.\<close>

lemma plan_loop_keeps:
  "plan_loop ff n i s = (t, y) \<Longrightarrow> windowtype t = windowtype s \<and> mult t = mult s"
  by (induction n arbitrary: i s) (auto simp: Let_def split: if_splits)

lemma calculate_settles:
  assumes "fftw_ok ff" and "psd_ok p" and "p_input p \<noteq> []" and "nfft p \<noteq> 0" and "windowtype p \<noteq> Hann" and "replan p"
    and "calculate ff p = (q, Ok ())"
  shows "\<not> replan q" and "window q = replicate (length (p_input p)) 1" and "windowtype q = windowtype p"
    and "mult q = mult p" and "fsamp q = fsamp p" and "nfft q = nfft p" and "length (p_input q) = length (p_input p)"
proof -
  from calculate_stages [OF assms(1-4,7)] obtain s2 s3 z where
    s: "psd_input (psd_window ff p) = (s2, Ok ())" "ready s2" "psd_plan ff s2 = (s3, z)" "Ok () = z"
    "planned s3 \<and> spectrum ff s3 = (q, Ok ())" by metis
  note rw = ready_window [OF assms(2-4), of ff]
  note ri = ready_input [OF rw(1) s(1)] and rp = ready_plan [OF assms(1) s(2,3)]
  have w: "psd_window ff p = p\<lparr>window := replicate (length (p_input p)) 1\<rparr>"
    using assms(5,6) by (simp add: psd_window_def make_window_def Let_def)
  have f: "windowtype s2 = windowtype p" "mult s2 = mult p" "fsamp s2 = fsamp p"
    using s(1) by (auto simp: w psd_input_def prepare_input_def Let_def split: if_splits)
  have m: "make_plan ff s2 = (s3, Ok ())" using s(3,4) ri(6) rw(5) assms(6) by (simp add: psd_plan_def)
  then have "windowtype s3 = windowtype s2 \<and> mult s3 = mult s2"
    unfolding make_plan_def Let_def by (auto split: prod.splits outcome.splits dest: plan_loop_keeps)
  moreover have "window s3 = window s2" "fsamp s3 = fsamp s2" "\<not> replan s3"
    using make_plan_sizes [OF assms(1), of s2] s(2) m by (auto simp: ready_def)
  moreover have "p_input q = p_input s3" "nfft q = nfft s3" "replan q = replan s3"
    using spectrum_sizes s(5) by blast+
  moreover have "window q = window s3" "windowtype q = windowtype s3" "mult q = mult s3" "fsamp q = fsamp s3"
    using spectrum_eq [of s3 ff] s(5) by auto
  ultimately show "\<not> replan q" "window q = replicate (length (p_input p)) 1" "windowtype q = windowtype p"
    "mult q = mult p" "fsamp q = fsamp p" "nfft q = nfft p" "length (p_input q) = length (p_input p)"
    using f ri(3-5) rp(2,3) rw(2,3) by (simp_all add: w)
qed

definition demo_signal :: calc where
  "demo_signal = demo_calc\<lparr>c_fsamp := 1, c_wake := True, c_nfft := 3, c_valin := [1, 3, 2]\<rparr>"

lemma demo_signal_reach: "calc_reach ideal_fftw demo_signal"
proof -
  let ?conv = "\<lparr>roff = 0, aslo = 0, aoff = 0, linear = False, eoff = 0, eslo = 0\<rparr>"
  let ?a = "\<lparr>tse_device = False, rec_time = (0, 0), alarms = [], a_rval = 0, a_val = 1, a_udf = False, a_conv = ?conv\<rparr>"
  let ?l = "\<lparr>tse_device = False, rec_time = (0, 0), alarms = [], l_val = 3\<rparr>"
  let ?w = "\<lparr>tse_device = False, rec_time = (0, 0), alarms = [], f_buf = [1, 3, 2], f_nelm = 3, f_nord = 3\<rparr>"
  let ?c1 = "demo_calc\<lparr>c_fsamp := 1, c_wake := True\<rparr>"
  let ?c2 = "?c1\<lparr>c_nfft := 3\<rparr>"
  have "set_fsamp True ?a demo_calc = (?a, ?c1, Ok DevNoConvert)"
    by (simp add: set_fsamp_def with_calc_def CATCH_def analogRaw2EGU_def poke_def demo_calc_def Calc_new_def Let_def)
  from calc_reach.fsamp [OF demo_calc_reach this] have c1: "calc_reach ideal_fftw ?c1" .
  have "set_nfft True ?l ?c1 = (?l, ?c2, Ok DevOk)"
    by (simp add: set_nfft_def with_calc_def CATCH_def poke_def demo_calc_def Calc_new_def)
  from calc_reach.nfft [OF c1 this] have c2: "calc_reach ideal_fftw ?c2" .
  have "wf_store (0, 0) 0 ?c2 ?w = (?w, demo_signal, Ok DevOk)"
    by (simp add: wf_store_def usewindow_def poke_def demo_signal_def demo_calc_def Calc_new_def Let_def)
  from calc_reach.signal [OF c2 this] show ?thesis .
qed

lemma demo_settled: "\<exists>c. calc_reach ideal_fftw c \<and> settled c 3 \<and> c_mult c = 1"
proof -
  let ?p = "(PSDCalc_new 0)\<lparr>fsamp := 1, nfft := 3, p_input := [1, 3, 2], mult := 1\<rparr>"
  have p: "replan ?p" "windowtype ?p \<noteq> Hann" "p_input ?p \<noteq> []" "nfft ?p \<noteq> 0" "psd_ok ?p"
    by (simp_all add: PSDCalc_new_def psd_ok_def)
  have w: "run_wake demo_signal = demo_signal\<lparr>c_wake := False, c_psd := ?p, c_worker := Computing True (0, 0)\<rparr>"
    by (simp add: run_wake_def run_take_def demo_signal_def demo_calc_def Calc_new_def take_windtype_def
        psd_set_fsamp_def psd_set_nfft_def psd_set_input_def PSDCalc_new_def Let_def)
  define W where "W = run_wake demo_signal"
  have W: "c_psd W = ?p" "c_worker W = Computing True (0, 0)" "c_nfft W = 3" "c_fsamp W = 1" "c_sampWidth W = 0"
    "c_windowtype W = 0" "c_mult W = 1"
    unfolding W_def w by (simp_all add: demo_signal_def demo_calc_def Calc_new_def)
  have "calc_reach ideal_fftw W"
    unfolding W_def by (rule calc_reach.wake [OF demo_signal_reach]) (simp_all add: demo_signal_def demo_calc_def)
  then have r: "calc_reach ideal_fftw (fst (run_finish ideal_fftw True (0, 0) W))"
    by (rule calc_reach.fin [OF _ W(2)]) (simp add: prod_eq_iff)
  have "\<forall>i. plan_ok ideal_fftw i" by (simp add: ideal_fftw_def)
  then obtain q where q: "calculate ideal_fftw ?p = (q, Ok ())"
    using calculate_returns [OF ideal_fftw_ok _ p(5,3,4)] by blast
  note cs = calculate_settles [OF ideal_fftw_ok p(5,3,4,2,1) q]
  let ?c = "fst (run_finish ideal_fftw True (0, 0) W)"
  have "run_finish ideal_fftw True (0, 0) W =
      (scanIoRequest ValueScan ((scanIoRequest ScaleScan (run_publish True (0, 0) (W\<lparr>c_psd := q\<rparr>)))\<lparr>c_worker := Waiting\<rparr>), Ok ())"
    using q by (simp add: run_finish_def W(1))
  then have "c_psd ?c = q" "c_worker ?c = Waiting" "c_nfft ?c = 3" "c_fsamp ?c = 1" "c_sampWidth ?c = 0"
    "c_windowtype ?c = 0" "c_mult ?c = 1"
    using W by (simp_all add: scanIoRequest_def run_publish_def Let_def)
  moreover have r3: "replicate 3 (1 :: real) = [1, 1, 1]" by (simp add: numeral_3_eq_3)
  ultimately have "settled ?c 3 \<and> c_mult ?c = 1"
    using cs by (simp add: settled_def Let_def PSDCalc_new_def r3)
  then show ?thesis using r by blast
qed

theorem calc_power_witness:
  "\<exists>c1 c2 sc t. c_wake c1 \<and> run_finish ideal_fftw sc t (run_wake c1) = (c2, Ok ()) \<and>
     a_val (fst (get_totalpfreq True \<lparr>tse_device = False, rec_time = (0, 0), alarms = [], a_rval = 0, a_val = 0, a_udf = True,
       a_conv = \<lparr>roff = 0, aslo = 0, aoff = 0, linear = False, eoff = 0, eslo = 0\<rparr>\<rparr> c2)) = 2 / 3"
proof -
  let ?conv = "\<lparr>roff = 0, aslo = 0, aoff = 0, linear = False, eoff = 0, eslo = 0\<rparr>"
  let ?a = "\<lparr>tse_device = False, rec_time = (0, 0), alarms = [], a_rval = 0, a_val = 0, a_udf = True, a_conv = ?conv\<rparr>"
  let ?r = "\<lparr>tse_device = False, rec_time = (0, 0), alarms = [], f_buf = [0, 0, 0], f_nelm = 3, f_nord = 0\<rparr>"
  let ?xs = "[1, 3, 2] :: real list"
  obtain c where c: "calc_reach ideal_fftw c" "settled c 3" "c_mult c = 1" using demo_settled by blast
  obtain r1 cs1 d y where s: "set_wf_input (\<lambda>_. Some ?xs) None (0, 0) 0 None (Some ''a'') ?r [''a'' \<mapsto> c] = (r1, (cs1, d), y)"
    by (metis prod.collapse)
  have h: "execute ideal_fftw = dft" "settled c (length ?xs)" using c(2) by (simp_all add: ideal_fftw_def eval_nat_numeral)
  have "analogEGU2Raw ?conv x = x" for x :: real by (simp add: analogEGU2Raw_def Let_def)
  then have "\<exists>c1 c2 sc t. c_wake c1 \<and> run_finish ideal_fftw sc t (run_wake c1) = (c2, Ok ()) \<and>
      a_val (fst (get_totalpfreq True ?a c2)) * 3 = 2"
    using calc_power [OF ideal_fftw_ok h(1) c(1) h(2) _ _ _ _ s, of ?a] c(3) by (simp add: Let_def) metis
  then show ?thesis by (simp add: field_simps)
qed

end
