(* ===== verification/Sig_Stats.thy ===== *)
theory Sig_Stats
  imports Dev_Common
begin

text \<open>
  Statistics of a waveform (\<open>wf_stats\<close>, sigApp/src/asubwf.c), an aSub routine: mean, standard deviation, least and
  greatest value of the samples Y whose X lies in a window. Numbers are exact.
\<close>

section \<open>The record\<close>

text \<open>\<open>s_ft\<close> and \<open>s_ftv\<close> tell which of the first fields FTA, FTB, ... and FTVA, FTVB, ... are DOUBLE.\<close>

datatype magic = Unchecked | Magic | BadMagic

record asub_rec = dev_rec +
  s_dpvt :: magic
  s_ft :: "bool list"
  s_ftv :: "bool list"
  s_nea :: nat
  s_neb :: nat
  s_a :: "real list"
  s_b :: "real list"
  s_c :: real
  s_d :: real
  s_vala :: real
  s_valb :: real
  s_valc :: real
  s_vald :: real
  s_vale :: u32
  s_neva :: nat
  s_nevb :: nat
  s_nevc :: nat
  s_nevd :: nat


section \<open>The routine\<close>





definition usetime :: "asub_rec \<Rightarrow> bool" where
  "usetime r \<longleftrightarrow> s_neb r > 1"

definition stats_len :: "asub_rec \<Rightarrow> nat" where
  "stats_len r = (if usetime r \<and> s_neb r < s_nea r then s_neb r else s_nea r)"

definition stats_window :: "asub_rec \<Rightarrow> real \<times> real" where
  "stats_window r =
     (if s_c r \<le> 0 \<and> s_d r \<le> 0
      then (0, if usetime r then s_b r ! (s_neb r - 1) else real (s_neb r))
      else (s_c r, s_d r))"



section \<open>The loop selects a window\<close>

text \<open>The samples whose X is in the window.\<close>

definition selected :: "(nat \<Rightarrow> real) \<Rightarrow> real \<Rightarrow> real \<Rightarrow> nat \<Rightarrow> real list \<Rightarrow> real list" where
  "selected key begi wid i xs =
     map snd (filter (\<lambda>(k, x). begi \<le> k \<and> k < begi + wid) (zip (map key [i..<i + length xs]) xs))"

lemma selected_simps:
  "selected key begi wid i [] = []"
  "selected key begi wid i (x # xs) =
     (if begi \<le> key i \<and> key i < begi + wid then [x] else []) @ selected key begi wid (Suc i) xs"
proof -
  have "[i..<i + length (x # xs)] = i # [Suc i..<Suc i + length xs]" by (subst upt_conv_Cons) simp_all
  then show "selected key begi wid i (x # xs) =
     (if begi \<le> key i \<and> key i < begi + wid then [x] else []) @ selected key begi wid (Suc i) xs"
    by (simp only: selected_def list.map zip_Cons_Cons filter.simps split) simp
qed (simp add: selected_def)

lemma selected_beyond:
  assumes "\<forall>j. i \<le> j \<and> j < i + length xs \<longrightarrow> begi + wid \<le> key j"
  shows "selected key begi wid i xs = []"
  using assms
proof (induction xs arbitrary: i)
  case Nil
  then show ?case by (simp add: selected_simps)
next
  case (Cons x xs)
  have "begi + wid \<le> key i" using Cons.prems by simp
  moreover have "selected key begi wid (Suc i) xs = []" using Cons.prems by (intro Cons.IH) auto
  ultimately show ?case by (simp add: selected_simps)
qed






section \<open>Properties\<close>

definition stats_key :: "asub_rec \<Rightarrow> nat \<Rightarrow> real" where
  "stats_key r = (if usetime r then (\<lambda>i. s_b r ! i) else real)"

definition stats_of :: "asub_rec \<Rightarrow> real list" where
  "stats_of r =
     (let (begi, wid) = stats_window r in selected (stats_key r) begi wid 0 (take (stats_len r) (s_a r)))"



definition demo_asub :: asub_rec where
  "demo_asub =
     \<lparr>tse_device = False, rec_time = (0, 0), alarms = [], s_dpvt = Unchecked, s_ft = [True, True, True, True], s_ftv = [True, True],
      s_nea = 3, s_neb = 3, s_a = [4, 6, 5], s_b = [0, 1, 2], s_c = 0, s_d = 2, s_vala = 0, s_valb = 0, s_valc = 0, s_vald = 0,
      s_vale = 0, s_neva = 0, s_nevb = 0, s_nevc = 0, s_nevd = 0\<rparr>"




lemma selected_append:
  "selected key begi wid i (xs @ [x]) = selected key begi wid i xs @ (if begi \<le> key (i + length xs) \<and> key (i + length xs) < begi + wid then [x] else [])"
  by (induction xs arbitrary: i) (simp_all add: selected_simps)

lemma selected_all:
  "\<forall>j. i \<le> j \<and> j < i + length xs \<longrightarrow> begi \<le> key j \<and> key j < begi + wid \<Longrightarrow> selected key begi wid i xs = xs"
proof (induction xs arbitrary: i)
  case Nil
  then show ?case by (simp add: selected_simps)
next
  case (Cons x xs)
  have "selected key begi wid (Suc i) xs = xs" using Cons.prems by (intro Cons.IH) auto
  then show ?case using Cons.prems by (simp add: selected_simps)
qed

text \<open>
  The default window is meant to be the entire range, but leaves out the last sample: its width is the last value of X,
  and the loop stops at a sample whose X is not less than that. Without X the width is the
  length of B, which is at most one: only the first sample counts.
\<close>

theorem wf_stats_default:
  assumes "s_c r \<le> 0" and "s_d r \<le> 0" and "length (s_a r) = s_nea r" and "s_nea r > 0"
    and "usetime r \<longrightarrow> s_neb r = s_nea r \<and> 0 \<le> s_b r ! 0 \<and> (\<forall>j k. j < k \<and> k < s_nea r \<longrightarrow> s_b r ! j < s_b r ! k)"
  shows "stats_of r = (if usetime r then butlast (s_a r) else take (s_neb r) (s_a r))"
proof (cases "usetime r")
  case True
  let ?n = "s_nea r" and ?xs = "butlast (s_a r)"
  have b: "s_neb r = ?n" "0 \<le> s_b r ! 0" "\<forall>j k. j < k \<and> k < ?n \<longrightarrow> s_b r ! j < s_b r ! k" using assms(5) True by simp_all
  have "s_a r \<noteq> []" using assms(3,4) by auto
  then have a: "s_a r = ?xs @ [last (s_a r)]" "length ?xs = ?n - 1" using assms(3) by simp_all
  have w: "stats_window r = (0, s_b r ! (?n - 1))" using assms(1,2) True b(1) by (simp add: stats_window_def)
  have k: "0 \<le> stats_key r j \<and> stats_key r j < s_b r ! (?n - 1)" if "j < ?n - 1" for j
  proof -
    have "s_b r ! j < s_b r ! (?n - 1)" using b(3) that assms(4) by simp
    moreover have "s_b r ! 0 \<le> s_b r ! j" using b(3) that by (cases "j = 0") (auto intro: less_imp_le)
    ultimately show ?thesis using b(2) True by (simp add: stats_key_def)
  qed
  have "selected (stats_key r) 0 (s_b r ! (?n - 1)) 0 ?xs = ?xs" using k a(2) by (intro selected_all) simp
  then have "selected (stats_key r) 0 (s_b r ! (?n - 1)) 0 (?xs @ [last (s_a r)]) = ?xs"
    unfolding selected_append using a(2) True by (simp add: stats_key_def)
  then have "selected (stats_key r) 0 (s_b r ! (?n - 1)) 0 (s_a r) = ?xs" using a(1) by simp
  moreover have "take (stats_len r) (s_a r) = s_a r" using b(1) assms(3) by (simp add: stats_len_def)
  ultimately show ?thesis using True w by (simp add: stats_of_def)
next
  case False
  have w: "stats_window r = (0, real (s_neb r))" using assms(1,2) False by (simp add: stats_window_def)
  have n: "s_neb r = 0 \<or> s_neb r = 1" using False by (auto simp: usetime_def)
  obtain x xs where a: "s_a r = x # xs" using assms(3,4) by (cases "s_a r") auto
  have l: "take (stats_len r) (s_a r) = x # xs" using assms(3) a False by (simp add: stats_len_def)
  have k: "stats_key r = real" using False by (simp add: stats_key_def fun_eq_iff)
  have "selected real 0 (real (s_neb r)) (Suc 0) xs = []" using n by (intro selected_beyond) auto
  then have "selected real 0 (real (s_neb r)) 0 (x # xs) = take (s_neb r) (x # xs)"
    using n by (auto simp: selected_simps)
  then show ?thesis using False w l k a by (simp add: stats_of_def)
qed

theorem wf_stats_default_witness: "stats_of (demo_asub\<lparr>s_d := 0\<rparr>) = [4, 6]"
proof -
  have "\<forall>j k. j < k \<and> k < 3 \<longrightarrow> [0, 1, 2 :: real] ! j < [0, 1, 2] ! k" by (auto simp: nth_Cons' numeral_3_eq_3)
  then show ?thesis
    using wf_stats_default [of "demo_asub\<lparr>s_d := 0\<rparr>"] by (simp add: demo_asub_def usetime_def)
qed

end
