(* ===== verification/Sig_Plan.thy ===== *)
theory Sig_Plan
  imports Sig_Psd
begin

text \<open>
  The ownership of FFTW plans: class \<open>Plan\<close> (sigApp/src/fftwrap.h) and the vector of plans of \<open>PSDCalc\<close>. A plan is a
  handle, and \<open>pl_live\<close> has those that FFTW has made and not destroyed. An element of the vector holds a
  handle or none. Destroying or executing a plan that is not live is a crash.
\<close>

record plan_st =
  pl_held :: "nat option list"
  pl_live :: "nat set"
  pl_next :: nat

definition fftw_destroy_plan :: "nat \<Rightarrow> plan_st \<Rightarrow> plan_st \<times> unit outcome" where
  "fftw_destroy_plan h s =
     (if h \<in> pl_live s then (s\<lparr>pl_live := pl_live s - {h}\<rparr>, Ok ()) else (s, Crash UseAfterFree))"

text \<open>The planner returns a new plan, or none.\<close>

definition fftw_plan :: "bool \<Rightarrow> plan_st \<Rightarrow> plan_st \<times> nat option" where
  "fftw_plan ok s =
     (if ok then (s\<lparr>pl_live := insert (pl_next s) (pl_live s), pl_next := Suc (pl_next s)\<rparr>, Some (pl_next s)) else (s, None))"

definition Plan_clear :: "nat \<Rightarrow> plan_st \<Rightarrow> plan_st \<times> unit outcome" where
  "Plan_clear i s =
     (case pl_held s ! i of
        None \<Rightarrow> (s\<lparr>pl_held := (pl_held s)[i := None]\<rparr>, Ok ())
      | Some h \<Rightarrow>
          (case fftw_destroy_plan h s of
             (t, Ok _) \<Rightarrow> (t\<lparr>pl_held := (pl_held t)[i := None]\<rparr>, Ok ())
           | (t, y) \<Rightarrow> (t, y)))"

text \<open>\<open>reset\<close> of element \<open>i\<close>: if it holds a plan already, the new one is destroyed.\<close>

definition Plan_reset :: "nat \<Rightarrow> nat option \<Rightarrow> plan_st \<Rightarrow> plan_st \<times> unit outcome" where
  "Plan_reset i p s =
     (case p of
        None \<Rightarrow> (s, Throw BadAlloc)
      | Some h \<Rightarrow>
          (case (if pl_held s ! i \<noteq> None then fftw_destroy_plan h s else (s, Ok ())) of
             (t, Ok _) \<Rightarrow> (t\<lparr>pl_held := (pl_held t)[i := Some h]\<rparr>, Ok ())
           | (t, y) \<Rightarrow> (t, y)))"

text \<open>\<open>plans.clear()\<close>: the destructors of the elements from \<open>i\<close> on.\<close>

fun clear_from :: "nat \<Rightarrow> nat \<Rightarrow> plan_st \<Rightarrow> plan_st \<times> unit outcome" where
  "clear_from 0 i s = (s, Ok ())"
| "clear_from (Suc n) i s =
     (case Plan_clear i s of (t, Ok _) \<Rightarrow> clear_from n (Suc i) t | (t, y) \<Rightarrow> (t, y))"

text \<open>The loop that makes plans, from number \<open>i\<close> on for \<open>n\<close> more.\<close>

fun hold_plans :: "(nat \<Rightarrow> bool) \<Rightarrow> nat \<Rightarrow> nat \<Rightarrow> plan_st \<Rightarrow> plan_st \<times> unit outcome" where
  "hold_plans ok 0 i s = (s, Ok ())"
| "hold_plans ok (Suc n) i s =
     (case fftw_plan (ok i) s of (s1, p) \<Rightarrow>
        (case Plan_reset i p s1 of (t, Ok _) \<Rightarrow> hold_plans ok n (Suc i) t | (t, y) \<Rightarrow> (t, y)))"

definition replan_held :: "(nat \<Rightarrow> bool) \<Rightarrow> nat \<Rightarrow> plan_st \<Rightarrow> plan_st \<times> unit outcome" where
  "replan_held ok n s =
     (case clear_from (length (pl_held s)) 0 s of
        (t, Ok _) \<Rightarrow> hold_plans ok n 0 (t\<lparr>pl_held := replicate n None\<rparr>)
      | (t, y) \<Rightarrow> (t, y))"

definition execute_held :: "plan_st \<Rightarrow> unit outcome" where
  "execute_held s =
     (if None \<in> set (pl_held s) then Crash NullPointer
      else if \<exists>p \<in> set (pl_held s). the p \<notin> pl_live s then Crash UseAfterFree else Ok ())"

section \<open>Ownership\<close>

definition held :: "nat option list \<Rightarrow> nat list" where
  "held xs = map the (filter (\<lambda>x. x \<noteq> None) xs)"

text \<open>Every live plan has exactly one owner.\<close>

definition plans_owned :: "plan_st \<Rightarrow> bool" where
  "plans_owned s \<longleftrightarrow> distinct (held (pl_held s)) \<and> set (held (pl_held s)) = pl_live s \<and> (\<forall>h \<in> pl_live s. h < pl_next s)"

lemma held_append [simp]: "held (xs @ ys) = held xs @ held ys" "held [] = []" "held (None # xs) = held xs"
  "held (Some h # xs) = h # held xs" "held (replicate n None) = []"
  by (simp_all add: held_def)

lemma nth_split: "i < length xs \<Longrightarrow> xs = take i xs @ xs ! i # drop (Suc i) xs"
  by (simp add: id_take_nth_drop)

lemma clear_from_ok:
  assumes "plans_owned s" and "i + n = length (pl_held s)" and "held (take i (pl_held s)) = []"
  shows "\<exists>t. clear_from n i s = (t, Ok ()) \<and> pl_live t = {} \<and> pl_next t = pl_next s"
  using assms
proof (induction n arbitrary: i s)
  case 0
  then show ?case by (simp add: plans_owned_def)
next
  case (Suc n)
  let ?xs = "pl_held s"
  have sp: "?xs = take i ?xs @ ?xs ! i # drop (Suc i) ?xs" using Suc.prems(2) by (intro nth_split) simp
  have up: "?xs[i := None] = take i ?xs @ None # drop (Suc i) ?xs" using Suc.prems(2) by (simp add: upd_conv_take_nth_drop)
  define L where "L = (case ?xs ! i of None \<Rightarrow> pl_live s | Some h \<Rightarrow> pl_live s - {h})"
  let ?t = "s\<lparr>pl_held := ?xs[i := None], pl_live := L\<rparr>"
  have hd: "held ?xs = (case ?xs ! i of None \<Rightarrow> [] | Some h \<Rightarrow> [h]) @ held (drop (Suc i) ?xs)"
    using Suc.prems(3) by (subst sp) (simp split: option.split)
  have cl: "Plan_clear i s = (?t, Ok ())"
    using Suc.prems(1) hd by (cases "?xs ! i") (auto simp: Plan_clear_def fftw_destroy_plan_def L_def plans_owned_def)
  have "held (?xs[i := None]) = held (drop (Suc i) ?xs)" using up Suc.prems(3) by simp
  then have "plans_owned ?t"
    using Suc.prems(1) hd by (auto simp: plans_owned_def L_def split: option.splits)
  moreover have "held (take (Suc i) (?xs[i := None])) = []"
    using Suc.prems(2,3) up by (simp add: take_Suc_conv_app_nth)
  ultimately show ?case using Suc.IH [of ?t "Suc i"] Suc.prems(2) cl by simp
qed

lemma hold_plans_ok:
  assumes "plans_owned s" and "i + n = length (pl_held s)" and "drop i (pl_held s) = replicate n None"
    and "None \<notin> set (take i (pl_held s))"
  shows "\<exists>t y. hold_plans ok n i s = (t, y) \<and> plans_owned t \<and> length (pl_held t) = length (pl_held s) \<and>
    (if \<forall>j. i \<le> j \<and> j < i + n \<longrightarrow> ok j then y = Ok () \<and> None \<notin> set (pl_held t) else y = Throw BadAlloc)"
  using assms
proof (induction n arbitrary: i s)
  case 0
  then show ?case by auto
next
  case (Suc n)
  let ?xs = "pl_held s"
  have i: "?xs ! i = None" "i < length ?xs" "drop (Suc i) ?xs = replicate n None"
    using Suc.prems(2,3) by (simp_all add: Cons_nth_drop_Suc [symmetric])
  show ?case
  proof (cases "ok i")
    case False
    then have "hold_plans ok (Suc n) i s = (s, Throw BadAlloc)" by (simp add: fftw_plan_def Plan_reset_def)
    then show ?thesis using False Suc.prems(1) by auto
  next
    case True
    let ?h = "pl_next s"
    let ?t = "s\<lparr>pl_live := insert ?h (pl_live s), pl_next := Suc ?h, pl_held := ?xs[i := Some ?h]\<rparr>"
    have st: "hold_plans ok (Suc n) i s = hold_plans ok n (Suc i) ?t"
      using True i(1) by (simp add: fftw_plan_def Plan_reset_def)
    have up: "?xs[i := Some ?h] = take i ?xs @ Some ?h # replicate n None" using i(2,3) by (simp add: upd_conv_take_nth_drop)
    have sp: "?xs = take i ?xs @ None # replicate n None" using nth_split [OF i(2)] i(1,3) by simp
    have "held ?xs = held (take i ?xs)" by (subst sp) simp
    then have "plans_owned ?t" using Suc.prems(1) up by (auto simp: plans_owned_def)
    moreover have "None \<notin> set (take (Suc i) (?xs[i := Some ?h]))" "drop (Suc i) (?xs[i := Some ?h]) = replicate n None"
      using Suc.prems(4) i(2) up by (simp_all add: take_Suc_conv_app_nth)
    ultimately obtain t y where t: "hold_plans ok n (Suc i) ?t = (t, y)" "plans_owned t" "length (pl_held t) = length ?xs"
      "if \<forall>j. Suc i \<le> j \<and> j < Suc i + n \<longrightarrow> ok j then y = Ok () \<and> None \<notin> set (pl_held t) else y = Throw BadAlloc"
      using Suc.IH [of ?t "Suc i"] Suc.prems(2) by auto
    have "(\<forall>j. i \<le> j \<and> j < i + Suc n \<longrightarrow> ok j) \<longleftrightarrow> (\<forall>j. Suc i \<le> j \<and> j < Suc i + n \<longrightarrow> ok j)"
      using True by (metis Suc_leD add_Suc_shift le_less_Suc_eq not_less_eq_eq order_le_less)
    then show ?thesis using t st by auto
  qed
qed

lemma held_mem: "Some h \<in> set xs \<Longrightarrow> h \<in> set (held xs)"
  by (induction xs) (auto simp: held_def)

lemma execute_owned:
  assumes "plans_owned s" and "None \<notin> set (pl_held s)"
  shows "execute_held s = Ok ()"
proof -
  have "the p \<in> pl_live s" if p: "p \<in> set (pl_held s)" for p
  proof -
    obtain h where "p = Some h" by (metis option.exhaust p assms(2))
    then show ?thesis using p assms(1) held_mem [of h "pl_held s"] by (simp add: plans_owned_def)
  qed
  then show ?thesis using assms(2) by (simp add: execute_held_def)
qed

text \<open>The flags of \<open>PSDCalc\<close>'s model say which elements hold a plan: \<open>hold_plans\<close> refines \<open>plan_loop\<close>.\<close>

lemma hold_plans_refines:
  assumes "plans s = map (\<lambda>p. p \<noteq> None) (pl_held h)" and "i + n = length (pl_held h)"
    and "drop i (pl_held h) = replicate n None"
  shows "snd (plan_loop ff n i s) = snd (hold_plans (plan_ok ff) n i h) \<and>
    plans (fst (plan_loop ff n i s)) = map (\<lambda>p. p \<noteq> None) (pl_held (fst (hold_plans (plan_ok ff) n i h)))"
  using assms
proof (induction n arbitrary: i s h)
  case 0
  then show ?case by simp
next
  case (Suc n)
  have i: "pl_held h ! i = None" "drop (Suc i) (pl_held h) = replicate n None"
    using Suc.prems(2,3) by (simp_all add: Cons_nth_drop_Suc [symmetric])
  show ?case
  proof (cases "plan_ok ff i")
    case False
    then show ?thesis using Suc.prems(1) by (simp add: Let_def fftw_plan_def Plan_reset_def)
  next
    case True
    let ?h = "h\<lparr>pl_live := insert (pl_next h) (pl_live h), pl_next := Suc (pl_next h), pl_held := (pl_held h)[i := Some (pl_next h)]\<rparr>"
    let ?s = "s\<lparr>p_input := splice_at (i * ntime s) (plan_clobber ff i (segment s i)) (p_input s), plans := (plans s)[i := True]\<rparr>"
    have "plan_loop ff (Suc n) i s = plan_loop ff n (Suc i) ?s" using True by (simp add: Let_def)
    moreover have "hold_plans (plan_ok ff) (Suc n) i h = hold_plans (plan_ok ff) n (Suc i) ?h"
      using True i(1) by (simp add: fftw_plan_def Plan_reset_def)
    moreover have "plans ?s = map (\<lambda>p. p \<noteq> None) (pl_held ?h)" using Suc.prems(1) by (simp add: map_update)
    moreover have "drop (Suc i) (pl_held ?h) = replicate n None" using i(2) by simp
    ultimately show ?thesis using Suc.IH [of ?s ?h "Suc i"] Suc.prems(2) by simp
  qed
qed

text \<open>
  C19: Plans are neither leaked nor used after they are destroyed. Whenever \<open>calculate\<close> replans, from any state in which each
  live plan has one owner and whatever the planner answers, each live plan again has one owner, and nothing
  is destroyed twice. If the planner makes all plans, every block has one, which can be executed. Otherwise
  \<open>std::bad_alloc\<close> is thrown, and the next replanning starts from such a state again.
\<close>

theorem plan_lifetime:
  assumes "plans_owned s"
  shows "\<exists>t y. replan_held ok n s = (t, y) \<and> plans_owned t \<and> length (pl_held t) = n \<and>
    (if \<forall>j<n. ok j then y = Ok () \<and> execute_held t = Ok () else y = Throw BadAlloc)"
proof -
  obtain c where c: "clear_from (length (pl_held s)) 0 s = (c, Ok ())" "pl_live c = {}"
    using clear_from_ok [of s 0 "length (pl_held s)"] assms by auto
  let ?c = "c\<lparr>pl_held := replicate n None\<rparr>"
  have "plans_owned ?c" using c(2) by (simp add: plans_owned_def)
  then obtain t y where t: "hold_plans ok n 0 ?c = (t, y)" "plans_owned t" "length (pl_held t) = n"
    "if \<forall>j. 0 \<le> j \<and> j < 0 + n \<longrightarrow> ok j then y = Ok () \<and> None \<notin> set (pl_held t) else y = Throw BadAlloc"
    using hold_plans_ok [of ?c 0 n ok] by auto
  then show ?thesis using c(1) execute_owned [OF t(2)] by (auto simp: replan_held_def)
qed

theorem plan_lifetime_witness:
  "plans_owned \<lparr>pl_held = [Some 3, None, Some 1], pl_live = {1, 3}, pl_next = 4\<rparr> \<and>
   (\<exists>t y. replan_held (\<lambda>j. j \<noteq> 1) 2 \<lparr>pl_held = [Some 3, None, Some 1], pl_live = {1, 3}, pl_next = 4\<rparr> = (t, y) \<and>
     plans_owned t \<and> length (pl_held t) = 2 \<and> y = Throw BadAlloc)"
proof -
  let ?s = "\<lparr>pl_held = [Some 3, None, Some 1], pl_live = {1, 3}, pl_next = 4\<rparr>"
  have o: "plans_owned ?s" by (auto simp: plans_owned_def)
  show ?thesis using o plan_lifetime [OF o, of "\<lambda>j. j \<noteq> 1" 2] by auto
qed

text \<open>
  \<open>Plan::reset\<close> on an element that holds a plan destroys the new plan and keeps it: the old plan has no owner any more, and
  the element can not be executed. \<open>calculate\<close> never does this, as it clears all plans first.
\<close>

lemma plan_reset_twice:
  assumes "plans_owned s" and "i < length (pl_held s)" and "pl_held s ! i = Some h"
  shows "\<exists>t. (case fftw_plan True s of (s1, p) \<Rightarrow> Plan_reset i p s1) = (t, Ok ()) \<and> h \<in> pl_live t \<and> h \<notin> set (held (pl_held t)) \<and>
    pl_held t ! i = Some (pl_next s) \<and> pl_next s \<notin> pl_live t"
proof -
  let ?xs = "pl_held s" and ?n = "pl_next s"
  have sp: "?xs = take i ?xs @ Some h # drop (Suc i) ?xs" using nth_split [OF assms(2)] assms(3) by simp
  have up: "?xs[i := Some ?n] = take i ?xs @ Some ?n # drop (Suc i) ?xs" using assms(2) by (simp add: upd_conv_take_nth_drop)
  have hx: "held ?xs = held (take i ?xs) @ h # held (drop (Suc i) ?xs)" by (subst sp) simp
  have live: "h \<in> pl_live s" "?n \<notin> pl_live s" using assms(1) hx by (auto simp: plans_owned_def)
  moreover have "h \<notin> set (held (?xs[i := Some ?n]))"
    using assms(1) hx live unfolding up by (auto simp: plans_owned_def)
  ultimately show ?thesis using assms(2,3) by (auto simp: fftw_plan_def Plan_reset_def fftw_destroy_plan_def)
qed

end
