(* ===== verification/Unit_Tests.thy ===== *)
theory Unit_Tests
  imports Dev_Common Target_Msg
begin

text \<open>
  The unit tests of the repository (testApp/testValues.cpp, targetApp/testpscmsg.c) on the model. A test is the list
  of the results of its \<open>testOk\<close> calls, in order (those of strcpy, which cannot fail, are left out; strcmp compares
  the whole text with its terminator). The byte order of the host, libevent and the pair of sockets are
  parameters.
\<close>

section \<open>testValues.cpp\<close>

definition TEST16 :: "bool \<Rightarrow> u16" where "TEST16 le = (if le then 0x3412 else 0x1234)"
definition TEST32 :: "bool \<Rightarrow> u32" where "TEST32 le = (if le then 0x78563412 else 0x12345678)"
definition TEST64 :: "bool \<Rightarrow> u64" where "TEST64 le = (if le then 0xffdebc9a78563412 else 0x123456789abcdeff)"

text \<open>\<open>dbl\<close> is the memory image of the double 4.0e12.\<close>

definition test_bswap :: "bool \<Rightarrow> byte list \<Rightarrow> bool list" where
  "test_bswap le dbl =
     [hton le [0x42] = [0x42],
      unhost16 le (hton le (host16 le (TEST16 le))) = 0x1234,
      unhost32 le (hton le (host32 le (TEST32 le))) = 0x12345678,
      unhost64 le (hton le (host64 le (TEST64 le))) = 0x123456789abcdeff,
      hton le (hton le dbl) = dbl]"

definition testDblEq :: "real \<Rightarrow> real \<Rightarrow> bool" where
  "testDblEq a b \<longleftrightarrow> \<bar>a - b\<bar> < 1 / 10 ^ 6"

definition zero_rec :: "real analog" where
  "zero_rec = \<lparr>roff = 0, aslo = 0, aoff = 0, linear = False, eoff = 0, eslo = 0\<rparr>"

definition test_EGU2Raw :: "bool list" where
  "test_EGU2Raw =
     (let r = zero_rec; r1 = r\<lparr>aslo := 0.1, aoff := -1\<rparr>; r2 = r1\<lparr>eslo := 0.5, eoff := -1\<rparr>; r3 = r2\<lparr>linear := True\<rparr>
      in [testDblEq (analogEGU2Raw r 4) 4, testDblEq (analogEGU2Raw r 4.2) 4.2, testDblEq (analogEGU2Raw r 4.5) 4.5,
          testDblEq (analogEGU2Raw r 4.6) 4.6, testDblEq (analogEGU2Raw r 5) 5,
          testDblEq (analogEGU2Raw r (- 4)) (- 4), testDblEq (analogEGU2Raw r (- 4.2)) (- 4.2),
          testDblEq (analogEGU2Raw r (- 4.5)) (- 4.5), testDblEq (analogEGU2Raw r (- 4.6)) (- 4.6),
          testDblEq (analogEGU2Raw r (- 5)) (- 5),
          testDblEq (analogEGU2Raw r1 4) 50, testDblEq (analogEGU2Raw r1 (- 4)) (- 30),
          testDblEq (analogEGU2Raw r2 4) 50, testDblEq (analogEGU2Raw r2 (- 4)) (- 30),
          testDblEq (analogEGU2Raw r3 4) 110, testDblEq (analogEGU2Raw r3 (- 4)) (- 50)])"

definition test_Raw2EGU :: "bool list" where
  "test_Raw2EGU =
     (let r = zero_rec; r1 = r\<lparr>aslo := 0.1, aoff := -1\<rparr>; r2 = r1\<lparr>eslo := 10, eoff := 1\<rparr>; r3 = r2\<lparr>linear := True\<rparr>
      in [testDblEq (analogRaw2EGU r 1.1) 1.1, testDblEq (analogRaw2EGU r (- 1.1)) (- 1.1),
          testDblEq (analogRaw2EGU r1 1.1) (- 0.89), testDblEq (analogRaw2EGU r1 (- 1.1)) (- 1.11),
          testDblEq (analogRaw2EGU r2 1.1) (- 0.89), testDblEq (analogRaw2EGU r2 (- 1.1)) (- 1.11),
          testDblEq (analogRaw2EGU r3 1.1) 1.1, testDblEq (analogRaw2EGU r3 (- 1.1)) (- 1.1)])"

text \<open>A comparison of the bytes that were copied with those that are expected, as memcmp makes it.\<close>

definition copied :: "(bool \<times> byte list) outcome \<Rightarrow> byte list \<Rightarrow> bool list" where
  "copied x bs = (case x of Ok (ok, out) \<Rightarrow> [ok, take (length bs) out = bs] | _ \<Rightarrow> [False, False])"

definition shaped :: "(nat \<times> byte list) outcome \<Rightarrow> nat \<Rightarrow> byte list \<Rightarrow> bool list" where
  "shaped x n bs = (case x of Ok (m, out) \<Rightarrow> [m = n, take (length bs) out = bs] | _ \<Rightarrow> [False, False])"

definition test_dbuffer_contig :: "evbuffer_api \<Rightarrow> bool list" where
  "test_dbuffer_contig ap =
     (let b = dbuffer_new 12; inp = [1, 2, 3, 4, 5, 6, 7, 8, 9, 10, 11, 12]; (b1, ok) = dbuffer_copyin b inp 0
      in [dbuffer_size ap b = 12, length (strides b) = 1, ok] @
         copied (dbuffer_copyout ap b1 0 12) inp @
         shaped (copyout_shape ap b1 2 2 2 5) 3 [3, 4, 7, 8, 11, 12])"

text \<open>\<open>temp\<close> is the buffer with the two pieces.\<close>

definition test_dbuffer_discontrig :: "evbuffer_api \<Rightarrow> evbuffer \<Rightarrow> bool list" where
  "test_dbuffer_discontrig ap temp =
     (case dbuffer_consume ap dbuffer_empty temp (2 ^ 64 - 1) of
        ((b, rest), Ok _) \<Rightarrow>
          [evbuffer_get_length ap rest = 0, dbuffer_size ap b = 16, length (strides b) = 2] @
          copied (dbuffer_copyout ap b 0 16) [1, 2, 3, 4, 5, 6, 7, 8, 9, 10, 11, 12, 13, 14, 15, 16] @
          shaped (copyout_shape ap b 2 2 2 8) 4 [3, 4, 7, 8, 11, 12, 15, 16]
      | _ \<Rightarrow> [])"

section \<open>testpscmsg.c\<close>

text \<open>
  A pair of connected sockets: what is sent on the one can be received from the other. Both are one state,
  of which \<open>inp\<close> gives the bytes that are under way.
\<close>

definition socketpair :: "'s sockops \<Rightarrow> ('s \<Rightarrow> byte list) \<Rightarrow> bool" where
  "socketpair ops inp \<longleftrightarrow> sends ops inp \<and> recvs ops inp"

definition hello_nul :: "byte list" where "hello_nul = [104, 101, 108, 108, 111, 0]"
definition testing_nul :: "byte list" where "testing_nul = [116, 101, 115, 116, 105, 110, 103, 0]"

text \<open>\<open>received\<close> compares a received message with its number and its text.\<close>

definition received :: "('s \<times> (u16 \<times> byte list) option) \<times> nat outcome \<Rightarrow> u16 \<Rightarrow> byte list \<Rightarrow> bool list" where
  "received x k bs =
     [snd x = Ok 0, map_option fst (snd (fst x)) = Some k, map_option (\<lambda>m. length (snd m)) (snd (fst x)) = Some (length bs),
      map_option snd (snd (fst x)) = Some bs]"

definition testMsg :: "'s sockops \<Rightarrow> 's \<Rightarrow> bool list" where
  "testMsg ops s =
     (let (r1, s1) = psc_sendall ops hello_nul s; (r2, inbuf, s2) = psc_recvall ops 6 s1;
          (r3, s3) = psc_sendmsg ops 42 testing_nul s2
      in [r1 = 0, r2 = 0, inbuf = hello_nul, r3 = 0] @ received (psc_recvmsg ops 128 s3) 42 testing_nul)"

definition testMsgTrucn :: "'s sockops \<Rightarrow> 's \<Rightarrow> bool list" where
  "testMsgTrucn ops s =
     (let (r1, s1) = psc_sendmsg ops 43 hello_nul s
      in (r1 = 0) # received (psc_recvmsg ops 4 s1) 43 (take 4 hello_nul))"

definition bad_frame :: "byte list" where
  "bad_frame = [80, 88, 0, 0x10, 0, 0, 0, 6] @ hello_nul @ [0]"

definition testMsgFail :: "'s sockops \<Rightarrow> 's \<Rightarrow> bool list" where
  "testMsgFail ops s =
     (let (r1, s1) = psc_sendall ops bad_frame s in [r1 = 0, snd (psc_recvmsg ops 4 s1) = Ok EIO])"

section \<open>Results\<close>

definition passed :: "bool list \<Rightarrow> bool" where
  "passed xs \<longleftrightarrow> list_all (\<lambda>x. x) xs"

lemma passed_simps [simp]: "passed [] \<longleftrightarrow> True" "passed (x # xs) \<longleftrightarrow> x \<and> passed xs" "passed (xs @ ys) \<longleftrightarrow> passed xs \<and> passed ys"
  by (simp_all add: passed_def)

lemma analog_tests: "passed test_EGU2Raw" "passed test_Raw2EGU"
  by (simp_all add: test_EGU2Raw_def test_Raw2EGU_def zero_rec_def testDblEq_def analogEGU2Raw_def analogRaw2EGU_def Let_def)

text \<open>
  The test of byte swapping passes on little endian hosts. On big endian hosts the one for 64 bits fails,
  and it is the only one.
\<close>

lemma swapped:
  "unbe16 (rev (be16 0x3412)) = 0x1234" "unbe32 (rev (be32 0x78563412)) = 0x12345678"
  "unbe64 (rev (be64 0xffdebc9a78563412)) = 0x123456789abcdeff" "nswap8 False 0x123456789abcdeff \<noteq> 0x123456789abcdeff"
  by code_simp+

lemma bswap_tests:
  assumes "length dbl = 8"
  shows "test_bswap le dbl = [True, True, True, le, True]"
proof (cases le)
  case True
  have h: "hton True x = rev x" if "length x \<in> {1, 2, 4, 8}" for x using hton_net [of x True] that by auto
  have d: "hton True (hton True dbl) = dbl" using hton_hton assms by simp
  show ?thesis
    using True d swapped
    by (simp add: test_bswap_def h TEST16_def TEST32_def TEST64_def unhost16_def unhost32_def unhost64_def
        host16_def host32_def host64_def)
next
  case False
  have h: "hton False x = x" if "length x \<in> {1, 2, 4}" for x using hton_net [of x False] that by auto
  have d: "hton False (hton False dbl) = dbl" using hton_hton assms by simp
  have "unhost64 False (hton False (host64 False w)) = nswap8 False w" for w by (simp add: hton_def)
  then show ?thesis
    using False d swapped(4) by (simp add: test_bswap_def h TEST16_def TEST32_def TEST64_def)
qed

text \<open>The accesses of the buffer tests, for any well-formed buffer.\<close>

lemma copied_all:
  assumes "evbuffer_lawful ap" and "dbuffer_ok d" and "dbytes d = bs" and "0 < n" and "n = length bs" and "n < 2 ^ 63"
  shows "passed (copied (dbuffer_copyout ap d 0 n) bs)"
proof -
  have "length (dbytes d) + n < 2 ^ 64" using assms(3,5,6) by simp
  from copyout_one [OF assms(1,2,4) this, of 0] show ?thesis using assms(3,5) by (simp add: copied_def dbuffer_copyout_def)
qed

lemma shaped_all:
  assumes "evbuffer_lawful ap" and "dbuffer_ok d" and "2 < length (dbytes d)" and "length (dbytes d) < 2 ^ 63" and "0 < n"
    and "m = min n (length (dbytes d) div 4)" and "elements (dbytes d) 2 2 2 m = bs"
  shows "passed (shaped (copyout_shape ap d 2 2 2 n) m bs)"
proof -
  have "length (dbytes d) + 2 + 2 < 2 ^ 64" using assms(4) by simp
  moreover have "length (dbytes d) - 2 + 2 = length (dbytes d)" using assms(3) by simp
  ultimately have "copyout_shape ap d 2 2 2 n = Ok (m, bs)"
    using copyout_shape_eq [OF assms(1,2,5,3), of 2 2] assms(6,7) by simp
  then show ?thesis by (simp add: shaped_def)
qed

lemma contig_test:
  assumes "evbuffer_lawful ap"
  shows "passed (test_dbuffer_contig ap)"
proof -
  let ?inp = "[1, 2, 3, 4, 5, 6, 7, 8, 9, 10, 11, 12] :: byte list"
  let ?b = "fst (dbuffer_copyin (dbuffer_new 12) ?inp 0)"
  have n: "dbuffer_ok (dbuffer_new 12)" "dbytes (dbuffer_new 12) = replicate 12 0" by (simp_all add: dbuffer_new_def dbuffer_ok_def dbytes_def)
  have b: "dbuffer_ok ?b" "dbytes ?b = ?inp" "snd (dbuffer_copyin (dbuffer_new 12) ?inp 0)"
    using copyin_refines [OF n(1), of ?inp 0] by (simp_all add: n(2))
  have "passed (copied (dbuffer_copyout ap ?b 0 12) ?inp)"
    by (rule copied_all [OF assms b(1,2)]) simp_all
  moreover have "passed (shaped (copyout_shape ap ?b 2 2 2 5) 3 [3, 4, 7, 8, 11, 12])"
    by (rule shaped_all [OF assms b(1)]) (simp_all add: b(2) elements_def upt_rec)
  moreover have "dbuffer_size ap (dbuffer_new 12) = 12" by (simp add: dbuffer_size_eq [OF assms] n(2))
  ultimately show ?thesis using b(3)
    by (simp add: test_dbuffer_contig_def Let_def split_beta) (simp add: dbuffer_new_def vec_stride_def)
qed

lemma discontrig_test:
  assumes "evbuffer_lawful ap" and "evbuffer_reliable ap"
    and "evbytes temp = [1, 2, 3, 4, 5, 6, 7, 8, 9, 10, 11, 12, 13, 14, 15, 16]"
    and "\<forall>b rest. dbuffer_consume ap dbuffer_empty temp (2 ^ 64 - 1) = ((b, rest), Ok ()) \<longrightarrow> length (strides b) = 2"
  shows "passed (test_dbuffer_discontrig ap temp)"
proof -
  let ?inp = "[1, 2, 3, 4, 5, 6, 7, 8, 9, 10, 11, 12, 13, 14, 15, 16] :: byte list"
  obtain b rest where c: "dbuffer_consume ap dbuffer_empty temp (2 ^ 64 - 1) = ((b, rest), Ok ())" "dbuffer_ok b"
    "dbytes b = ?inp" "evbytes rest = []"
    using consume_reliable [OF assms(1,2), of dbuffer_empty temp "2 ^ 64 - 1"] assms(3) by auto
  have "passed (copied (dbuffer_copyout ap b 0 16) ?inp)"
    by (rule copied_all [OF assms(1) c(2,3)]) simp_all
  moreover have "passed (shaped (copyout_shape ap b 2 2 2 8) 4 [3, 4, 7, 8, 11, 12, 15, 16])"
    by (rule shaped_all [OF assms(1) c(2)]) (simp_all add: c(3) elements_def upt_rec)
  moreover have "dbuffer_size ap b = 16" "evbuffer_get_length ap rest = 0"
    using c(3,4) assms(1) by (simp_all add: dbuffer_size_eq ev_laws)
  moreover have "length (strides b) = 2" using assms(4) c(1) by blast
  ultimately show ?thesis using c(1) by (simp add: test_dbuffer_discontrig_def)
qed

text \<open>The tests of messages, on any pair of sockets.\<close>

lemma received_ok: "length bs < 2 ^ 32 \<Longrightarrow> recvs ops inp \<Longrightarrow> inp s = frame k bs \<Longrightarrow>
    passed (received (psc_recvmsg ops maxlen s) k (take (unat maxlen) bs))"
  using recvmsg_ok [of ops inp bs s k "[]" maxlen] by (auto simp: received_def)

lemma msg_tests:
  assumes "socketpair ops inp" and "inp s = []"
  shows "passed (testMsg ops s)" "passed (testMsgTrucn ops s)" "passed (testMsgFail ops s)"
proof -
  have o: "sends ops inp" and r: "recvs ops inp" using assms(1) by (simp_all add: socketpair_def)
  obtain s1 where s1: "psc_sendall ops hello_nul s = (0, s1)" "inp s1 = hello_nul"
    using sendall_ok [OF o, of hello_nul s] assms(2) by auto
  have l: "length hello_nul = 6" by (simp add: hello_nul_def)
  obtain s2 where s2: "psc_recvall ops 6 s1 = (0, hello_nul, s2)" "inp s2 = []"
    using recvall_ok [OF r, of 6 s1] s1(2) l by auto
  obtain s3 where s3: "psc_sendmsg ops 42 testing_nul s2 = (0, s3)" "inp s3 = frame 42 testing_nul"
    using sendmsg_ok [OF o, of 42 testing_nul s2] s2(2) by auto
  have "take (unat (128 :: u32)) testing_nul = testing_nul" by (simp add: testing_nul_def)
  then have "passed (received (psc_recvmsg ops 128 s3) 42 testing_nul)"
    using received_ok [OF _ r s3(2), of 128] by (simp add: testing_nul_def)
  then show "passed (testMsg ops s)" using s1 s2 s3 by (simp add: testMsg_def)
  obtain t where t: "psc_sendmsg ops 43 hello_nul s = (0, t)" "inp t = frame 43 hello_nul"
    using sendmsg_ok [OF o, of 43 hello_nul s] assms(2) by auto
  have "passed (received (psc_recvmsg ops 4 t) 43 (take 4 hello_nul))"
    using received_ok [OF _ r t(2), of 4] l by simp
  then show "passed (testMsgTrucn ops s)" using t by (simp add: testMsgTrucn_def)
  obtain u where u: "psc_sendall ops bad_frame s = (0, u)" "inp u = bad_frame"
    using sendall_ok [OF o, of bad_frame s] assms(2) by auto
  obtain v where "psc_recvall ops 8 u = (0, take 8 bad_frame, v)"
    using recvall_ok [OF r, of 8 u] u(2) l by (auto simp: bad_frame_def)
  then have "psc_recvmsg ops 4 u = ((v, None), Ok EIO)"
    by (simp add: psc_recvmsg_def psc_recvhead_def hdr_marked_def bad_frame_def)
  then show "passed (testMsgFail ops s)" using u by (simp add: testMsgFail_def)
qed

section \<open>Properties\<close>

definition testValues :: "bool \<Rightarrow> byte list \<Rightarrow> evbuffer_api \<Rightarrow> evbuffer \<Rightarrow> bool list" where
  "testValues le dbl ap temp =
     test_bswap le dbl @ test_EGU2Raw @ test_Raw2EGU @ test_dbuffer_contig ap @ test_dbuffer_discontrig ap temp"

text \<open>
  the unit tests of values (testValues.cpp), with libevent as a parameter: on little endian hosts all 43 pass;
  on big endian hosts all but one, the conversion of 64 bit numbers.
\<close>

theorem value_tests:
  assumes "length dbl = 8" and "evbuffer_lawful ap" and "evbuffer_reliable ap"
    and "evbytes temp = [1, 2, 3, 4, 5, 6, 7, 8, 9, 10, 11, 12, 13, 14, 15, 16]"
    and "\<forall>b rest. dbuffer_consume ap dbuffer_empty temp (2 ^ 64 - 1) = ((b, rest), Ok ()) \<longrightarrow> length (strides b) = 2"
  shows "length (testValues le dbl ap temp) = 43 \<and> testValues le dbl ap temp = replicate 3 True @ le # replicate 39 True"
proof -
  have p: "passed xs \<Longrightarrow> xs = replicate (length xs) True" for xs by (induction xs) auto
  have "length test_EGU2Raw = 16" "length test_Raw2EGU = 8" by (simp_all add: test_EGU2Raw_def test_Raw2EGU_def Let_def)
  moreover have "length (copied x bs) = 2" "length (shaped y n bs) = 2" for x y n bs
    by (simp_all add: copied_def shaped_def split: outcome.split prod.split)
  then have "length (test_dbuffer_contig ap) = 7" "length (test_dbuffer_discontrig ap temp) = 7"
    using discontrig_test [OF assms(2-5)] consume_reliable [OF assms(2,3), of dbuffer_empty temp "2 ^ 64 - 1"]
    by (auto simp: test_dbuffer_contig_def test_dbuffer_discontrig_def split_beta Let_def)
  ultimately have "testValues le dbl ap temp = [True, True, True, le, True] @ replicate 16 True @ replicate 8 True @ replicate 7 True @ replicate 7 True"
    using bswap_tests [OF assms(1)] p [OF analog_tests(1)] p [OF analog_tests(2)] p [OF contig_test [OF assms(2)]]
      p [OF discontrig_test [OF assms(2-5)]] unfolding testValues_def by metis
  then show ?thesis by (simp flip: replicate_add add: numeral_eq_Suc)
qed

definition demo_pieces :: evbuffer where
  "demo_pieces = \<lparr>chains = [[1, 2, 3, 4, 5, 6, 7, 8, 9, 10, 11], [12, 13, 14, 15, 16]], room = 0\<rparr>"

lemma demo_pieces_strides:
  "dbuffer_consume chunk_api dbuffer_empty demo_pieces (2 ^ 64 - 1) = ((b, rest), Ok ()) \<Longrightarrow> length (strides b) = 2"
  by (auto simp: dbuffer_consume_def chunk_api_def demo_pieces_def Let_def peek_loop.simps)

theorem value_tests_witness:
  "testValues True (replicate 8 0) chunk_api demo_pieces = replicate 43 True"
proof -
  have "evbytes demo_pieces = [1, 2, 3, 4, 5, 6, 7, 8, 9, 10, 11, 12, 13, 14, 15, 16]"
    by (simp add: evbytes_def demo_pieces_def)
  then have "testValues True (replicate 8 0) chunk_api demo_pieces = replicate 3 True @ True # replicate 39 True"
    using value_tests [OF _ chunk_api_lawful chunk_api_reliable, of "replicate 8 0" demo_pieces True] demo_pieces_strides by simp
  then show ?thesis by (simp add: numeral_eq_Suc)
qed

text \<open>
  The unit tests of messages on the device (testpscmsg.c) pass on every pair of sockets, however it cuts the stream.
\<close>

theorem message_tests:
  assumes "socketpair ops inp" and "inp s = []"
  shows "passed (testMsg ops s @ testMsgTrucn ops s @ testMsgFail ops s)"
  using msg_tests [OF assms] by simp

text \<open>A pair of sockets that passes on one byte per call.\<close>

definition pair_ops :: "byte list sockops" where
  "pair_ops = \<lparr>sk_send = (\<lambda>buf s. (Inr 1, s @ take 1 buf)), sk_recv = (\<lambda>n s. (Inr (take 1 s), drop 1 s))\<rparr>"

theorem message_tests_witness: "passed (testMsg pair_ops [] @ testMsgTrucn pair_ops [] @ testMsgFail pair_ops [])"
proof -
  have "socketpair pair_ops (\<lambda>s. s)" by (auto simp: socketpair_def sends_def recvs_def pair_ops_def Suc_le_eq)
  then show ?thesis by (rule message_tests) simp
qed

end
