(* ===== verification/Ioc_Shell.thy ===== *)
theory Ioc_Shell
  imports Psc_Registry
begin

text \<open>
  The start-up script of an IOC: the commands that coreApp/src/pscbase.cpp and udpApp/src/udpdrv.cpp register with iocsh, the
  registration itself, and the report of the drivers. A specification says what a script configures: which names stand for
  which driver, its peer, and the sizes of its blocks. The commands are shown to implement it.

  iocsh reads a command line into values of the types that the command asks for; a missing string is a null
  pointer, a missing number is 0. What std::string makes of a null pointer is a parameter, as are the results of the system calls in
  the constructors of drivers, for each command of a script.
\<close>

section \<open>Commands\<close>

datatype iocsh_type = IocshArgString | IocshArgInt

datatype iocsh_arg = SArg "string option" | IArg int

primrec sval :: "iocsh_arg \<Rightarrow> string option" where
  "sval (SArg s) = s"
| "sval (IArg i) = None"

primrec ival :: "iocsh_arg \<Rightarrow> int" where
  "ival (SArg s) = 0"
| "ival (IArg i) = i"

record iocsh_def =
  d_name :: string
  d_args :: "(string \<times> iocsh_type) list"

definition createPSCDef :: iocsh_def where
  "createPSCDef = \<lparr>d_name = ''createPSC'', d_args =
     [(''name'', IocshArgString), (''hostname'', IocshArgString), (''port#'', IocshArgInt), (''enable recv timeout'', IocshArgInt)]\<rparr>"

definition createPSCUDPDef :: iocsh_def where
  "createPSCUDPDef = \<lparr>d_name = ''createPSCUDP'', d_args =
     [(''name'', IocshArgString), (''hostname'', IocshArgString), (''hostport#'', IocshArgInt), (''ifaceport#'', IocshArgInt)]\<rparr>"

definition setPSCDef :: iocsh_def where
  "setPSCDef = \<lparr>d_name = ''setPSCSendBlockSize'', d_args =
     [(''name'', IocshArgString), (''block'', IocshArgInt), (''size'', IocshArgInt)]\<rparr>"

definition createPSCUDPFastDef :: iocsh_def where
  "createPSCUDPFastDef = \<lparr>d_name = ''createPSCUDPFast'', d_args =
     [(''name'', IocshArgString), (''hostname'', IocshArgString), (''hostport#'', IocshArgInt), (''ifaceport#'', IocshArgInt)]\<rparr>"

text \<open>What the system answers while a command runs.\<close>

record 'w shell_env =
  sh_null :: "string outcome"
  sh_api :: evbuffer_api
  sh_loop :: bool
  sh_alloc :: bool
  sh_sock :: bool
  sh_events :: bool
  sh_resolved :: "string + u32"
  sh_bind :: "string option"
  sh_conf :: fast_conf
  sh_timeo :: bool
  sh_rxbuf :: nat
  sh_addr :: "addr option"
  sh_bound :: bool
  sh_named :: bool
  sh_world :: 'w

definition to_string :: "'w shell_env \<Rightarrow> string option \<Rightarrow> string outcome" where
  "to_string e p = (case p of Some s \<Rightarrow> Ok s | None \<Rightarrow> sh_null e)"

text \<open>The conversion of arguments stands in the \<open>try\<close> blocks of the commands. Only those that create a driver report an error.\<close>

definition with_string ::
  "bool \<Rightarrow> 'w shell_env \<Rightarrow> string option \<Rightarrow> (string \<Rightarrow> 'w registry \<times> bool outcome) \<Rightarrow> 'w registry \<Rightarrow> 'w registry \<times> bool outcome" where
  "with_string report e p f g =
     (case to_string e p of Ok s \<Rightarrow> f s | Throw x \<Rightarrow> (g, Ok report) | Crash c \<Rightarrow> (g, Crash c))"

definition createPSCArgsCallFunc :: "'w shell_env \<Rightarrow> iocsh_arg list \<Rightarrow> 'w registry \<Rightarrow> 'w registry \<times> bool outcome" where
  "createPSCArgsCallFunc e args g =
     with_string True e (sval (args ! 0)) (\<lambda>n. with_string True e (sval (args ! 1)) (\<lambda>h.
       createPSC (sh_api e) (sh_loop e) (sh_alloc e) (sh_world e) n h (ival (args ! 2)) (ival (args ! 3)) g) g) g"

definition createPSCUDPArgsCallFunc :: "'w shell_env \<Rightarrow> iocsh_arg list \<Rightarrow> 'w registry \<Rightarrow> 'w registry \<times> bool outcome" where
  "createPSCUDPArgsCallFunc e args g =
     with_string True e (sval (args ! 0)) (\<lambda>n. with_string True e (sval (args ! 1)) (\<lambda>h.
       createPSCUDP (sh_loop e) (sh_sock e) (sh_events e) (sh_resolved e) (sh_bind e) (sh_world e) n h (ival (args ! 2)) g) g) g"

definition createPSCUDPFastArgsCallFunc :: "'w shell_env \<Rightarrow> iocsh_arg list \<Rightarrow> 'w registry \<Rightarrow> 'w registry \<times> bool outcome" where
  "createPSCUDPFastArgsCallFunc e args g =
     with_string True e (sval (args ! 0)) (\<lambda>n. with_string True e (sval (args ! 1)) (\<lambda>h.
       createPSCUDPFast (sh_conf e) (sh_sock e) (sh_timeo e) (sh_rxbuf e) (sh_addr e) (sh_bound e) (sh_named e) (sh_world e) n h
         (ival (args ! 2)) g) g) g"

text \<open>\<open>setPSCSendBlockSize\<close> on whichever driver the name stands for.\<close>

fun drv_set_size :: "evbuffer_api \<Rightarrow> int \<Rightarrow> int \<Rightarrow> 'w driver \<Rightarrow> 'w driver" where
  "drv_set_size ap bid sz (Tcp s) = Tcp (setPSCSendBlockSize ap bid sz s)"
| "drv_set_size ap bid sz (Udp s) = Udp (setPSCSendBlockSize ap bid sz s)"
| "drv_set_size ap bid sz (Fast s) = Fast (setPSCSendBlockSize ap bid sz s)"

definition setPSCCallFunc :: "'w shell_env \<Rightarrow> iocsh_arg list \<Rightarrow> 'w registry \<Rightarrow> 'w registry \<times> bool outcome" where
  "setPSCCallFunc e args g =
     with_string False e (sval (args ! 0)) (\<lambda>n.
       (case getPSCBase n g of
          None \<Rightarrow> (g, Ok False)
        | Some i \<Rightarrow>
            (g\<lparr>objs := (objs g)(i := map_option (drv_set_size (sh_api e) (ival (args ! 1)) (ival (args ! 2))) (objs g i))\<rparr>,
             Ok False))) g"

section \<open>Registration\<close>

datatype call_func = CreatePSCCall | CreatePSCUDPCall | SetPSCCall | CreatePSCUDPFastCall

fun run_call :: "call_func \<Rightarrow> 'w shell_env \<Rightarrow> iocsh_arg list \<Rightarrow> 'w registry \<Rightarrow> 'w registry \<times> bool outcome" where
  "run_call CreatePSCCall e args g = createPSCArgsCallFunc e args g"
| "run_call CreatePSCUDPCall e args g = createPSCUDPArgsCallFunc e args g"
| "run_call SetPSCCall e args g = setPSCCallFunc e args g"
| "run_call CreatePSCUDPFastCall e args g = createPSCUDPFastArgsCallFunc e args g"

text \<open>The shell: its commands, whether the hook that starts the drivers is registered, and the limit of writev.\<close>

record shell =
  commands :: "(iocsh_def \<times> call_func) list"
  hooked :: bool
  iov_limit :: nat

definition iocshRegister :: "iocsh_def \<Rightarrow> call_func \<Rightarrow> shell \<Rightarrow> shell" where
  "iocshRegister d f sh = sh\<lparr>commands := commands sh @ [(d, f)]\<rparr>"

text \<open>\<open>ret\<close> is the result of evthread_use_pthreads.\<close>

definition PSCRegister :: "int \<Rightarrow> shell \<Rightarrow> shell" where
  "PSCRegister ret sh =
     (if ret \<noteq> 0 then sh
      else (iocshRegister setPSCDef SetPSCCall (iocshRegister createPSCUDPDef CreatePSCUDPCall
              (iocshRegister createPSCDef CreatePSCCall sh)))\<lparr>hooked := True\<rparr>)"

text \<open>\<open>limit\<close> is the result of sysconf.\<close>

definition pscudp :: "int \<Rightarrow> shell \<Rightarrow> shell" where
  "pscudp limit sh =
     (let sh1 = iocshRegister createPSCUDPFastDef CreatePSCUDPFastCall sh
      in if limit > 0 then sh1\<lparr>iov_limit := nat limit\<rparr> else sh1)"

definition lookup_cmd :: "string \<Rightarrow> shell \<Rightarrow> (iocsh_def \<times> call_func) option" where
  "lookup_cmd n sh = find (\<lambda>c. d_name (fst c) = n) (commands sh)"

text \<open>The arguments of a line as the command's definition has them.\<close>

fun pass_args :: "(string \<times> iocsh_type) list \<Rightarrow> iocsh_arg list \<Rightarrow> iocsh_arg list" where
  "pass_args [] as = []"
| "pass_args ((n, IocshArgString) # ts) [] = SArg None # pass_args ts []"
| "pass_args ((n, IocshArgInt) # ts) [] = IArg 0 # pass_args ts []"
| "pass_args ((n, IocshArgString) # ts) (a # as) = SArg (sval a) # pass_args ts as"
| "pass_args ((n, IocshArgInt) # ts) (a # as) = IArg (ival a) # pass_args ts as"

text \<open>One line of a script: an unknown command is an error of the shell. The limit of writev is that of the shell.\<close>

definition run_line :: "shell \<Rightarrow> 'w shell_env \<Rightarrow> string \<Rightarrow> iocsh_arg list \<Rightarrow> 'w registry \<Rightarrow> 'w registry \<times> bool outcome" where
  "run_line sh e n as g =
     (case lookup_cmd n sh of
        None \<Rightarrow> (g, Ok True)
      | Some (d, f) \<Rightarrow>
          run_call f (e\<lparr>sh_conf := (sh_conf e)\<lparr>iovLimit := iov_limit sh\<rparr>\<rparr>) (pass_args (d_args d) as) g)"

fun run_script ::
  "shell \<Rightarrow> ('w shell_env \<times> string \<times> iocsh_arg list) list \<Rightarrow> 'w registry \<Rightarrow> 'w registry \<times> bool list outcome" where
  "run_script sh [] g = (g, Ok [])"
| "run_script sh ((e, n, as) # ls) g =
     (case run_line sh e n as g of
        (g1, Ok err) \<Rightarrow> (case run_script sh ls g1 of (g2, Ok errs) \<Rightarrow> (g2, Ok (err # errs)) | (g2, y) \<Rightarrow> (g2, y))
      | (g1, Throw x) \<Rightarrow> (g1, Throw x)
      | (g1, Crash c) \<Rightarrow> (g1, Crash c))"

section \<open>What a script configures\<close>

datatype drv_kind = KTcp | KUdp | KFast

record drv_cfg =
  c_kind :: drv_kind
  c_host :: string
  c_port :: u16
  c_sizes :: "u16 \<Rightarrow> nat option"

type_synonym config = "string \<Rightarrow> drv_cfg option"

text \<open>A block has the size that was asked for last, or is empty when only sizes beyond a vector's were asked for.\<close>

definition resized :: "int \<Rightarrow> int \<Rightarrow> (u16 \<Rightarrow> nat option) \<Rightarrow> (u16 \<Rightarrow> nat option)" where
  "resized bid sz m =
     (let k = word_of_int bid; n = nat (sz mod 2 ^ 64)
      in m(k \<mapsto> if n \<le> vec_max then n else case m k of Some x \<Rightarrow> x | None \<Rightarrow> 0))"

definition spec_create :: "drv_kind \<Rightarrow> 'w shell_env \<Rightarrow> iocsh_arg list \<Rightarrow> bool \<Rightarrow> config \<Rightarrow> config" where
  "spec_create k e args err c =
     (case (to_string e (sval (args ! 0)), to_string e (sval (args ! 1))) of
        (Ok n, Ok h) \<Rightarrow>
          c(n := if err then None
                 else Some \<lparr>c_kind = k, c_host = h, c_port = word_of_int (ival (args ! 2)), c_sizes = Map.empty\<rparr>)
      | _ \<Rightarrow> c)"

definition spec_set :: "'w shell_env \<Rightarrow> iocsh_arg list \<Rightarrow> config \<Rightarrow> config" where
  "spec_set e args c =
     (case to_string e (sval (args ! 0)) of
        Ok n \<Rightarrow> c(n := map_option (\<lambda>d. d\<lparr>c_sizes := resized (ival (args ! 1)) (ival (args ! 2)) (c_sizes d)\<rparr>) (c n))
      | _ \<Rightarrow> c)"

fun spec_call :: "call_func \<Rightarrow> 'w shell_env \<Rightarrow> iocsh_arg list \<Rightarrow> bool \<Rightarrow> config \<Rightarrow> config" where
  "spec_call CreatePSCCall e args err c = spec_create KTcp e args err c"
| "spec_call CreatePSCUDPCall e args err c = spec_create KUdp e args err c"
| "spec_call SetPSCCall e args err c = spec_set e args c"
| "spec_call CreatePSCUDPFastCall e args err c = spec_create KFast e args err c"

text \<open>A line, with the error that the shell sees.\<close>

definition spec_line :: "shell \<Rightarrow> ('w shell_env \<times> string \<times> iocsh_arg list) \<times> bool \<Rightarrow> config \<Rightarrow> config" where
  "spec_line sh x c =
     (case x of ((e, n, as), err) \<Rightarrow>
        (case lookup_cmd n sh of None \<Rightarrow> c | Some (d, f) \<Rightarrow> spec_call f e (pass_args (d_args d) as) err c))"

definition line_err :: "shell \<Rightarrow> string \<Rightarrow> bool \<Rightarrow> bool" where
  "line_err sh n err \<longleftrightarrow>
     (case lookup_cmd n sh of None \<Rightarrow> err | Some (d, f) \<Rightarrow> f = SetPSCCall \<longrightarrow> \<not> err)"

section \<open>The commands implement it\<close>

definition sizes :: "'a psc_base_scheme \<Rightarrow> u16 \<Rightarrow> nat option" where
  "sizes s = blk_view (\<lambda>b. length (dbytes (data b))) (send_blocks s)"

fun describe :: "'w driver \<Rightarrow> drv_cfg" where
  "describe (Tcp s) = \<lparr>c_kind = KTcp, c_host = host s, c_port = port s, c_sizes = sizes s\<rparr>"
| "describe (Udp s) = \<lparr>c_kind = KUdp, c_host = host s, c_port = port s, c_sizes = sizes s\<rparr>"
| "describe (Fast s) = \<lparr>c_kind = KFast, c_host = host s, c_port = port s, c_sizes = sizes s\<rparr>"

fun drv_connected :: "'w driver \<Rightarrow> bool" where
  "drv_connected (Tcp s) = connected s"
| "drv_connected (Udp s) = connected s"
| "drv_connected (Fast s) = connected s"

definition config_of :: "'w registry \<Rightarrow> config" where
  "config_of g n = (case getPSCBase n g of None \<Rightarrow> None | Some i \<Rightarrow> map_option describe (objs g i))"

definition idle :: "'w registry \<Rightarrow> bool" where
  "idle g \<longleftrightarrow> reg_ok g \<and> refs_ok (pscmap g) g \<and> (\<forall>i d. objs g i = Some d \<longrightarrow> \<not> drv_connected d)"

lemma set_size_sizes:
  assumes "evbuffer_lawful ap"
  shows "sizes (setPSCSendBlockSize ap bid sz s) = resized bid sz (sizes s)"
proof -
  define n where "n = nat (sz mod 2 ^ 64)"
  define k :: u16 where "k = word_of_int bid"
  have len: "length (dbytes (fst (dbuffer_resize ap d n))) = (if n \<le> vec_max then n else length (dbytes d))" for d
    using resize_refines(3) [OF assms, of n d] by (auto simp: dbuffer_resize_def)
  have e: "dbytes dbuffer_empty = []" by (simp add: dbytes_def dbuffer_empty_def)
  have t: "\<not> n \<le> vec_max \<Longrightarrow> dbytes (fst (dbuffer_resize ap d n)) = dbytes d" for d by (simp add: dbuffer_resize_def)
  show ?thesis
    unfolding sizes_def resized_def setPSCSendBlockSize_def n_def [symmetric] k_def [symmetric] Let_def
    by (rule ext) (auto simp: upd_send_def getSend_def blk_view_def block_new_def len t e split: option.split)
qed

lemma set_size_sel [simp]:
  "host (setPSCSendBlockSize ap bid sz s) = host s" "port (setPSCSendBlockSize ap bid sz s) = port s"
  "connected (setPSCSendBlockSize ap bid sz s) = connected s"
  by (simp_all add: setPSCSendBlockSize_def Let_def upd_send_def getSend_def split: option.split)

lemma drv_set_size_sel:
  "evbuffer_lawful ap \<Longrightarrow>
     describe (drv_set_size ap bid sz d) = (describe d)\<lparr>c_sizes := resized bid sz (c_sizes (describe d))\<rparr>"
  "uses_loop (drv_set_size ap bid sz d) = uses_loop d" "drv_connected (drv_set_size ap bid sz d) = drv_connected d"
  by (cases d; simp add: set_size_sizes)+

lemma config_base [simp]:
  "config_of (g\<lparr>evbase := b\<rparr>) = config_of g" "config_of (g\<lparr>base_refs := k\<rparr>) = config_of g" "config_of (release_base g) = config_of g"
  by (simp_all add: fun_eq_iff config_of_def getPSCBase_def release_base_def split: option.split)

text \<open>The entry of a new driver under its name.\<close>

definition made_ok :: "drv_cfg \<Rightarrow> 'w driver outcome \<Rightarrow> bool" where
  "made_ok c made \<longleftrightarrow> \<not> crashed made \<and> (\<forall>d. made = Ok d \<longrightarrow> describe d = c \<and> \<not> drv_connected d)"

lemma construct_config:
  assumes "reg_ok g" and "made_ok c made" and "construct n made g = (g1, y)"
  shows "\<not> crashed y" and "config_of g1 = (config_of g)(n := if returns y then Some c else None)"
    and "(\<forall>i d. objs g i = Some d \<longrightarrow> \<not> drv_connected d) \<Longrightarrow> \<forall>i d. objs g1 i = Some d \<longrightarrow> \<not> drv_connected d"
proof -
  have m: "map_ok (pscmap g)" using assms(1) by (simp add: reg_ok_def)
  have f: "map_of (pscmap g) x = Some i \<Longrightarrow> i \<noteq> fresh g" for x i
    using assms(1) map_of_SomeD [of "pscmap g" x i] by (auto simp: reg_ok_def)
  show "\<not> crashed y" using assms(2,3) by (cases made) (auto simp: construct_def Let_def made_ok_def)
  show "config_of g1 = (config_of g)(n := if returns y then Some c else None)"
    using assms(2,3) f
    by (cases made)
      (auto simp: construct_def Let_def made_ok_def fun_eq_iff config_of_def getPSCBase_def map_of_map_set [OF m]
        map_of_map_erase split: option.split)
  show "\<forall>i d. objs g1 i = Some d \<longrightarrow> \<not> drv_connected d" if "\<forall>i d. objs g i = Some d \<longrightarrow> \<not> drv_connected d"
    using assms(2,3) that by (cases made) (auto simp: construct_def Let_def made_ok_def split: if_splits)
qed

lemma construct_ev_config:
  assumes "reg_ok g" and "made_ok c made" and "construct_ev loop n made g = (g1, y)"
  shows "\<not> crashed y" and "config_of g1 = (config_of g)(n := if returns y then Some c else None)"
    and "(\<forall>i d. objs g i = Some d \<longrightarrow> \<not> drv_connected d) \<Longrightarrow> \<forall>i d. objs g1 i = Some d \<longrightarrow> \<not> drv_connected d"
proof -
  have "\<not> crashed y \<and> config_of g1 = (config_of g)(n := if returns y then Some c else None) \<and>
    ((\<forall>i d. objs g i = Some d \<longrightarrow> \<not> drv_connected d) \<longrightarrow> (\<forall>i d. objs g1 i = Some d \<longrightarrow> \<not> drv_connected d))"
  proof (cases "makeBase loop (evbase g)")
    case (Ok b)
    obtain g2 z where z: "construct n made (g\<lparr>evbase := Some b\<rparr>) = (g2, z)" by (cases "construct n made (g\<lparr>evbase := Some b\<rparr>)")
    have "reg_ok (g\<lparr>evbase := Some b\<rparr>)" using assms(1) by simp
    note c = construct_config [OF this assms(2) z]
    have "objs (release_base g2) = objs g2" by (simp add: release_base_def)
    then show ?thesis using assms(3) Ok z c by (cases z) (auto simp: construct_ev_def)
  next
    case (Throw e)
    have "made_ok c (Throw e :: 'a driver outcome)" by (simp add: made_ok_def)
    from construct_config [OF assms(1) this] show ?thesis using assms(3) Throw by (auto simp: construct_ev_def)
  next
    case (Crash e)
    then show ?thesis by (simp add: makeBase_def EventBase_new_def split: option.splits if_splits)
  qed
  then show "\<not> crashed y" "config_of g1 = (config_of g)(n := if returns y then Some c else None)"
    "(\<forall>i d. objs g i = Some d \<longrightarrow> \<not> drv_connected d) \<Longrightarrow> \<forall>i d. objs g1 i = Some d \<longrightarrow> \<not> drv_connected d"
    by blast+
qed

lemma reported_ok: "\<not> crashed y \<Longrightarrow> reported (g1, y) = (g1, Ok (\<not> returns y))"
  by (cases y) (simp_all add: reported_def)

lemma construct_ev_idle:
  assumes "idle g" and "made_ok c made"
  shows "\<exists>g1 err. reported (construct_ev loop n made g) = (g1, Ok err) \<and> idle g1 \<and>
    config_of g1 = (config_of g)(n := if err then None else Some c)"
proof -
  obtain g1 y where y: "construct_ev loop n made g = (g1, y)" by (cases "construct_ev loop n made g")
  have r: "reg_ok g" "refs_ok (pscmap g) g" using assms(1) by (simp_all add: idle_def)
  note c = construct_ev_config [OF r(1) assms(2) y]
  have "idle g1"
    using reg_ok_construct_ev [OF r(1) y c(1)] refs_ok_construct_ev [OF r y c(1)] c(3) assms(1) by (simp add: idle_def)
  then show ?thesis using c(2) by (auto simp: y reported_ok [OF c(1)])
qed

lemma construct_idle:
  assumes "idle g" and "made_ok c made" and "c_kind c = KFast"
  shows "\<exists>g1 err. reported (construct n made g) = (g1, Ok err) \<and> idle g1 \<and>
    config_of g1 = (config_of g)(n := if err then None else Some c)"
proof -
  obtain g1 y where y: "construct n made g = (g1, y)" by (cases "construct n made g")
  have r: "reg_ok g" "refs_ok (pscmap g) g" using assms(1) by (simp_all add: idle_def)
  note c = construct_config [OF r(1) assms(2) y]
  have "(case made of Ok d \<Rightarrow> if uses_loop d then 1 else 0 | _ \<Rightarrow> 0) = (0 :: nat)"
    using assms(2,3) by (cases made) (auto simp: made_ok_def elim!: uses_loop.elims)
  then have "refs_ok (pscmap g1) g1" using on_loop_construct [OF r(1) y c(1)] r(2) by (auto simp: refs_ok_def)
  then have "idle g1"
    using reg_ok_construct [OF r(1) y c(1)] c(3) assms(1) by (simp add: idle_def)
  then show ?thesis using c(2) by (auto simp: y reported_ok [OF c(1)])
qed

text \<open>The four commands.\<close>

definition implements ::
  "('w registry \<Rightarrow> 'w registry \<times> bool outcome) \<Rightarrow> (bool \<Rightarrow> config \<Rightarrow> config) \<Rightarrow> (bool \<Rightarrow> bool) \<Rightarrow> 'w registry \<Rightarrow> bool" where
  "implements f spec ok g \<longleftrightarrow>
     (\<exists>g1 err. f g = (g1, Ok err) \<and> idle g1 \<and> ok err \<and> config_of g1 = spec err (config_of g))"

lemma bool_exists [simp]: "\<exists>b :: bool. b" "\<exists>b :: bool. \<not> b"
  by auto

lemma create_implements:
  assumes "idle g" and "\<not> crashed (sh_null e)"
    and "\<And>n h. \<exists>g1 err. mk n h g = (g1, Ok err) \<and> idle g1 \<and> config_of g1 = (config_of g)(n := if err then None
      else Some \<lparr>c_kind = k, c_host = h, c_port = word_of_int (ival (args ! 2)), c_sizes = Map.empty\<rparr>)"
  shows "implements (\<lambda>g. with_string True e (sval (args ! 0)) (\<lambda>n. with_string True e (sval (args ! 1)) (\<lambda>h. mk n h g) g) g)
    (spec_create k e args) (\<lambda>_. True) g"
proof -
  have t: "\<not> crashed (to_string e p)" for p using assms(2) by (simp add: to_string_def split: option.split)
  show ?thesis
    using assms(1,3) t [of "sval (args ! 0)"] t [of "sval (args ! 1)"]
    by (cases "to_string e (sval (args ! 0))"; cases "to_string e (sval (args ! 1))")
      (simp_all add: implements_def with_string_def spec_create_def)
qed

lemma sizes_new [simp]: "sizes (psc_base.extend (psc_base_new n h p) x) = Map.empty"
  by (simp add: sizes_def psc_base.defs psc_base_new_def blk_view_def)

lemma base_new_sel [simp]:
  "host (psc_base.extend (psc_base_new n h p) x) = h" "port (psc_base.extend (psc_base_new n h p) x) = p"
  "\<not> connected (psc_base.extend (psc_base_new n h p) x)"
  by (simp_all add: psc_base.defs psc_base_new_def)

lemma made_drivers:
  "made_ok \<lparr>c_kind = KTcp, c_host = h, c_port = p, c_sizes = Map.empty\<rparr> (map_outcome Tcp (PSC_new ap alloc n h p tm w))"
  "made_ok \<lparr>c_kind = KUdp, c_host = h, c_port = p, c_sizes = Map.empty\<rparr> (map_outcome Udp (PSCUDP_new sk ev rs bd n h p w))"
  "made_ok \<lparr>c_kind = KFast, c_host = h, c_port = p, c_sizes = Map.empty\<rparr>
     (map_outcome Fast (UDPFast_new cf sk ti rx ad bn nm n h p w))"
  by (auto simp: made_ok_def map_outcome_def PSC_new_def PSCUDP_new_def UDPFast_new_def split: option.splits sum.splits)

lemma set_size_idle:
  assumes "idle g" and "evbuffer_lawful ap" and "getPSCBase n g = Some i"
  shows "idle (g\<lparr>objs := (objs g)(i := map_option (drv_set_size ap bid sz) (objs g i))\<rparr>)"
    and "config_of (g\<lparr>objs := (objs g)(i := map_option (drv_set_size ap bid sz) (objs g i))\<rparr>) =
      (config_of g)(n := map_option (\<lambda>d. d\<lparr>c_sizes := resized bid sz (c_sizes d)\<rparr>) (config_of g n))"
proof -
  let ?g = "g\<lparr>objs := (objs g)(i := map_option (drv_set_size ap bid sz) (objs g i))\<rparr>"
  have r: "reg_ok g" using assms(1) by (simp add: idle_def)
  have "on_loop ?g = on_loop g" by (auto simp: fun_eq_iff on_loop_def drv_set_size_sel(2) split: option.split)
  then have "refs_ok (pscmap ?g) ?g" using assms(1) by (simp add: idle_def refs_ok_def)
  moreover have "reg_ok ?g" using r by (auto simp: reg_ok_def)
  ultimately show "idle ?g" using assms(1) by (auto simp: idle_def drv_set_size_sel(3) split: if_splits)
  have "getPSCBase m g = Some i \<Longrightarrow> m = n" for m
  proof -
    assume "getPSCBase m g = Some i"
    then have "(m, i) \<in> set (pscmap g)" "(n, i) \<in> set (pscmap g)"
      using assms(3) map_of_SomeD [of "pscmap g"] by (auto simp: getPSCBase_def)
    moreover have "inj_on snd (set (pscmap g))" using r by (simp add: reg_ok_def distinct_map)
    ultimately show "m = n" by (metis inj_onD prod.inject snd_conv)
  qed
  then have o: "config_of ?g m = config_of g m" if "m \<noteq> n" for m
    using that by (auto simp: config_of_def getPSCBase_def split: option.split)
  have "config_of ?g n = map_option (\<lambda>d. d\<lparr>c_sizes := resized bid sz (c_sizes d)\<rparr>) (config_of g n)"
    using assms(3) drv_set_size_sel(1) [OF assms(2)]
    by (cases "objs g i") (simp_all add: config_of_def getPSCBase_def)
  then show "config_of ?g = (config_of g)(n := map_option (\<lambda>d. d\<lparr>c_sizes := resized bid sz (c_sizes d)\<rparr>) (config_of g n))"
    using o by (simp add: fun_eq_iff)
qed

lemma set_implements:
  assumes "idle g" and "\<not> crashed (sh_null e)" and "evbuffer_lawful (sh_api e)"
  shows "implements (setPSCCallFunc e args) (\<lambda>err. spec_set e args) Not g"
proof (cases "to_string e (sval (args ! 0))")
  case (Ok n)
  show ?thesis
  proof (cases "getPSCBase n g")
    case None
    then have "config_of g n = None" by (simp add: config_of_def)
    then have "spec_set e args (config_of g) = config_of g" using Ok by (auto simp: spec_set_def fun_eq_iff)
    then show ?thesis using Ok None assms(1) by (simp add: implements_def setPSCCallFunc_def with_string_def)
  next
    case (Some i)
    then show ?thesis using Ok set_size_idle [OF assms(1,3) Some]
      by (simp add: implements_def setPSCCallFunc_def with_string_def spec_set_def)
  qed
next
  case (Throw x)
  then show ?thesis using assms(1) by (simp add: implements_def setPSCCallFunc_def with_string_def spec_set_def)
next
  case (Crash x)
  then show ?thesis using assms(2) by (auto simp: to_string_def split: option.splits)
qed

lemma call_implements:
  assumes "idle g" and "\<not> crashed (sh_null e)" and "evbuffer_lawful (sh_api e)"
  shows "implements (run_call f e args) (spec_call f e args) (\<lambda>err. f = SetPSCCall \<longrightarrow> \<not> err) g"
proof (cases f)
  case CreatePSCCall
  have "implements (createPSCArgsCallFunc e args) (spec_create KTcp e args) (\<lambda>_. True) g"
    unfolding createPSCArgsCallFunc_def createPSC_def
    by (rule create_implements [OF assms(1,2)]) (rule construct_ev_idle [OF assms(1) made_drivers(1)])
  then show ?thesis using CreatePSCCall by (simp add: implements_def)
next
  case CreatePSCUDPCall
  have "implements (createPSCUDPArgsCallFunc e args) (spec_create KUdp e args) (\<lambda>_. True) g"
    unfolding createPSCUDPArgsCallFunc_def createPSCUDP_def
    by (rule create_implements [OF assms(1,2)]) (rule construct_ev_idle [OF assms(1) made_drivers(2)])
  then show ?thesis using CreatePSCUDPCall by (simp add: implements_def)
next
  case SetPSCCall
  then show ?thesis using set_implements [OF assms, of args] by (simp add: implements_def)
next
  case CreatePSCUDPFastCall
  have "implements (createPSCUDPFastArgsCallFunc e args) (spec_create KFast e args) (\<lambda>_. True) g"
    unfolding createPSCUDPFastArgsCallFunc_def createPSCUDPFast_def
    by (rule create_implements [OF assms(1,2)]) (rule construct_idle [OF assms(1) made_drivers(3)], simp)
  then show ?thesis using CreatePSCUDPFastCall by (simp add: implements_def)
qed

lemma to_string_conf [simp]: "to_string (e\<lparr>sh_conf := c\<rparr>) p = to_string e p"
  by (simp add: to_string_def split: option.split)

lemma spec_call_conf [simp]: "spec_call f (e\<lparr>sh_conf := c\<rparr>) args err = spec_call f e args err"
  by (rule ext, cases f) (simp_all add: spec_create_def spec_set_def)

lemma line_implements:
  assumes "idle g" and "\<not> crashed (sh_null e)" and "evbuffer_lawful (sh_api e)"
  shows "implements (run_line sh e n as) (\<lambda>err. spec_line sh ((e, n, as), err)) (line_err sh n) g"
proof (cases "lookup_cmd n sh")
  case None
  then show ?thesis using assms(1) by (simp add: implements_def run_line_def spec_line_def line_err_def)
next
  case (Some x)
  obtain d f where x: "x = (d, f)" by (cases x)
  let ?e = "e\<lparr>sh_conf := (sh_conf e)\<lparr>iovLimit := iov_limit sh\<rparr>\<rparr>"
  have "implements (run_call f ?e (pass_args (d_args d) as)) (spec_call f ?e (pass_args (d_args d) as)) (\<lambda>err. f = SetPSCCall \<longrightarrow> \<not> err) g"
    using assms by (intro call_implements) simp_all
  then show ?thesis using Some x by (simp add: implements_def run_line_def spec_line_def line_err_def)
qed

definition script_env :: "('w shell_env \<times> string \<times> iocsh_arg list) list \<Rightarrow> bool" where
  "script_env ls \<longleftrightarrow> (\<forall>(e, n, as) \<in> set ls. evbuffer_lawful (sh_api e) \<and> \<not> crashed (sh_null e))"

lemma script_implements:
  "idle g \<Longrightarrow> script_env ls \<Longrightarrow>
     \<exists>g1 errs. run_script sh ls g = (g1, Ok errs) \<and> idle g1 \<and> list_all2 (\<lambda>(e, n, as) err. line_err sh n err) ls errs \<and>
       config_of g1 = fold (spec_line sh) (zip ls errs) (config_of g)"
proof (induction ls arbitrary: g)
  case (Cons l ls)
  obtain e n as where l: "l = (e, n, as)" by (cases l)
  have env: "\<not> crashed (sh_null e)" "evbuffer_lawful (sh_api e)" "script_env ls"
    using Cons.prems(2) l by (auto simp: script_env_def)
  obtain g1 err where g1: "run_line sh e n as g = (g1, Ok err)" "idle g1" "line_err sh n err"
    "config_of g1 = spec_line sh ((e, n, as), err) (config_of g)"
    using line_implements [OF Cons.prems(1) env(1,2), of sh n as] by (auto simp: implements_def)
  obtain g2 errs where g2: "run_script sh ls g1 = (g2, Ok errs)" "idle g2"
    "list_all2 (\<lambda>(e, n, as) err. line_err sh n err) ls errs" "config_of g2 = fold (spec_line sh) (zip ls errs) (config_of g1)"
    using Cons.IH [OF g1(2) env(3)] by blast
  then show ?case using g1 l by (intro exI [of _ g2] exI [of _ "err # errs"]) simp
qed simp

lemma idle_new: "idle registry_new" and config_new: "config_of registry_new = Map.empty"
  using reg_ok_new
  by (simp_all add: idle_def refs_ok_def fun_eq_iff config_of_def getPSCBase_def registry_new_def)

section \<open>Properties\<close>

text \<open>
  C33: a start-up script, whatever its lines are and whatever the system answers, configures what the specification says: a name
  stands for the driver that was created last under it, with its peer, or for none if that failed; the blocks of a driver have
  the sizes that were set last after its creation. The commands end for every line, the registry keeps its invariants, and no driver is
  connected yet. A line with an unknown command is an error of the shell, one that sets the size of a block never is, also if there is
  no such driver or the size is impossible.
\<close>

theorem startup_script:
  assumes "script_env ls"
  shows "\<exists>g errs. run_script sh ls registry_new = (g, Ok errs) \<and> reg_ok g \<and> refs_ok (pscmap g) g \<and>
    (\<forall>i d. objs g i = Some d \<longrightarrow> \<not> drv_connected d) \<and> list_all2 (\<lambda>(e, n, as) err. line_err sh n err) ls errs \<and>
    config_of g = fold (spec_line sh) (zip ls errs) Map.empty"
  using script_implements [OF idle_new assms, of sh] unfolding config_new by (auto simp: idle_def)

definition demo_shell :: shell where
  "demo_shell = pscudp 1024 (PSCRegister 0 \<lparr>commands = [], hooked = False, iov_limit = 16\<rparr>)"

definition demo_shell_env :: "unit shell_env" where
  "demo_shell_env = \<lparr>sh_null = Throw (LogicError ''basic_string''), sh_api = chunk_api, sh_loop = True, sh_alloc = True,
     sh_sock = True, sh_events = True, sh_resolved = Inr 0, sh_bind = None,
     sh_conf = \<lparr>PSCUDPMaxPacketSize = 1024, PSCUDPMaxPacketRate = 10, PSCUDPBufferPeriod = 1, iovLimit = 16\<rparr>,
     sh_timeo = True, sh_rxbuf = 4096, sh_addr = Some (0, 0), sh_bound = True, sh_named = True, sh_world = ()\<rparr>"

definition demo_script :: "(unit shell_env \<times> string \<times> iocsh_arg list) list" where
  "demo_script =
     [(demo_shell_env, ''createPSC'', [SArg (Some ''a''), SArg (Some ''h''), IArg 65546]),
      (demo_shell_env, ''setPSCSendBlockSize'', [SArg (Some ''a''), IArg 3, IArg 10]),
      (demo_shell_env, ''setPSCSendBlockSize'', [SArg (Some ''b''), IArg 3, IArg 10]),
      (demo_shell_env, ''setPSCSendBlockSize'', [SArg (Some ''a''), IArg 65539, IArg (- 1)]),
      (demo_shell_env, ''createPSC'', [])]"

lemma demo_lookup:
  "lookup_cmd ''createPSC'' demo_shell = Some (createPSCDef, CreatePSCCall)"
  "lookup_cmd ''setPSCSendBlockSize'' demo_shell = Some (setPSCDef, SetPSCCall)"
  by (simp_all add: lookup_cmd_def demo_shell_def pscudp_def PSCRegister_def iocshRegister_def createPSCDef_def setPSCDef_def
      createPSCUDPDef_def createPSCUDPFastDef_def Let_def)

lemma demo_errors: "snd (run_script demo_shell demo_script registry_new) = Ok [False, False, False, False, True]"
proof -
  have "evbuffer_new chunk_api \<noteq> None" by (simp add: chunk_api_def)
  then show ?thesis
    by (simp add: demo_script_def run_line_def demo_lookup createPSCDef_def setPSCDef_def createPSCArgsCallFunc_def setPSCCallFunc_def
        with_string_def to_string_def demo_shell_env_def createPSC_made registry_new_def getPSCBase_def)
qed

theorem startup_script_witness:
  "\<exists>g. run_script demo_shell demo_script registry_new = (g, Ok [False, False, False, False, True]) \<and>
     config_of g = [''a'' \<mapsto> \<lparr>c_kind = KTcp, c_host = ''h'', c_port = 10, c_sizes = [3 \<mapsto> 10]\<rparr>]"
proof -
  have "script_env demo_script" by (simp add: script_env_def demo_script_def demo_shell_env_def chunk_api_lawful)
  then obtain g errs where g: "run_script demo_shell demo_script registry_new = (g, Ok errs)"
    "config_of g = fold (spec_line demo_shell) (zip demo_script errs) Map.empty"
    using startup_script [of demo_script demo_shell] by blast
  have e: "errs = [False, False, False, False, True]" using demo_errors g(1) by simp
  have "vec_max \<ge> 10" "\<not> (2 ^ 64 - 1 :: nat) \<le> vec_max" by (simp_all add: vec_max_def)
  then have "config_of g = [''a'' \<mapsto> \<lparr>c_kind = KTcp, c_host = ''h'', c_port = 10, c_sizes = [3 \<mapsto> 10]\<rparr>]"
    unfolding g(2) e
    by (simp add: demo_script_def spec_line_def demo_lookup createPSCDef_def setPSCDef_def spec_create_def spec_set_def to_string_def
        demo_shell_env_def resized_def Let_def fun_eq_iff)
  then show ?thesis using g(1) e by blast
qed

end
