(* ===== verification/Psc_Report.thy ===== *)
theory Psc_Report
  imports Psc_Registry
begin

text \<open>
  The reports of the drivers, which dbior prints (coreApp/src/pscbase.cpp: \<open>ReportOne\<close>, \<open>pscreportblock\<close>; psc.cpp: \<open>PSC::report\<close>;
  udpApp/src/udpdrv.cpp: \<open>report1\<close>), as the list of the lines with their values. Maps are walked in the order of their keys.
\<close>

datatype report_line =
    RepDriver string string u16
  | RepConnected bool | RepConnCnt u32 | RepUnknCnt u32
  | RepLastMsg string | RepDecode bool u16 u32 | RepExpecting nat | RepBuffers nat nat
  | RepSendBlocks | RepRecvBlocks
  | RepBlock u16 | RepQueued bool | RepCounts u32 nat u32 u32
  | RepOnConnect nat | RepRecord rec_ptr
  | RepFast string | RepPool nat nat

section \<open>Drivers\<close>

definition pscreportblock :: "evbuffer_api \<Rightarrow> block \<Rightarrow> report_line list" where
  "pscreportblock ap b =
     [RepBlock (code b), RepQueued (queued b), RepCounts (blk_count b) (dbuffer_size ap (data b)) (scanCount b) (scanOflow b)]"

definition block_list :: "(u16 \<Rightarrow> block option) \<Rightarrow> block list" where
  "block_list m = List.map_filter m (map of_nat [0..<2 ^ 16])"

definition PSC_report :: "evbuffer_api \<Rightarrow> int \<Rightarrow> 'w psc \<Rightarrow> report_line list outcome" where
  "PSC_report ap lvl s =
     (let ls = [RepLastMsg (message s), RepDecode (have_head s) (header s) (bodylen s), RepExpecting (expect s)]
      in if lvl \<ge> 2 \<and> connected s then
           (case session s of
              None \<Rightarrow> Crash NullPointer
            | Some b \<Rightarrow> Ok (ls @ [RepBuffers (evbuffer_get_length ap (bev_output b)) (evbuffer_get_length ap (bev_input b))]))
         else Ok ls)"

text \<open>The virtual \<open>report\<close>, which does nothing for the other drivers.\<close>

fun drv_report :: "evbuffer_api \<Rightarrow> int \<Rightarrow> 'w driver \<Rightarrow> report_line list outcome" where
  "drv_report ap lvl (Tcp s) = PSC_report ap lvl s"
| "drv_report ap lvl (Udp s) = Ok []"
| "drv_report ap lvl (Fast s) = Ok []"

definition cache_lines :: "evbuffer_api \<Rightarrow> int \<Rightarrow> 'a psc_base_scheme \<Rightarrow> report_line list" where
  "cache_lines ap lvl s =
     [RepSendBlocks] @ concat (map (pscreportblock ap) (block_list (send_blocks s))) @
     [RepRecvBlocks] @ concat (map (pscreportblock ap) (block_list (recv_blocks s))) @
     [RepOnConnect (length (procOnConnect s))] @ (if lvl \<ge> 3 then map RepRecord (procOnConnect s) else [])"

definition base_report :: "evbuffer_api \<Rightarrow> int \<Rightarrow> report_line list outcome \<Rightarrow> 'a psc_base_scheme \<Rightarrow> report_line list outcome" where
  "base_report ap lvl own s =
     (if lvl \<le> 0 then Ok [RepDriver (name s) (host s) (port s)]
      else case own of
          Ok ls \<Rightarrow> Ok ([RepDriver (name s) (host s) (port s), RepConnected (connected s), RepConnCnt (conncount s),
                        RepUnknCnt (ukncount s)] @ ls @ (if lvl \<ge> 2 then cache_lines ap lvl s else []))
        | Throw e \<Rightarrow> Throw e
        | Crash c \<Rightarrow> Crash c)"

fun ReportOne :: "evbuffer_api \<Rightarrow> int \<Rightarrow> 'w driver \<Rightarrow> report_line list outcome" where
  "ReportOne ap lvl (Tcp s) = base_report ap lvl (drv_report ap lvl (Tcp s)) s"
| "ReportOne ap lvl (Udp s) = base_report ap lvl (drv_report ap lvl (Udp s)) s"
| "ReportOne ap lvl (Fast s) = base_report ap lvl (drv_report ap lvl (Fast s)) s"

text \<open>The other report is that of the fast receivers only.\<close>

fun report1 :: "int \<Rightarrow> 'w driver \<Rightarrow> report_line list outcome" where
  "report1 lvl (Fast s) =
     Ok (RepFast (name s) # (if lvl \<le> 0 then [] else [RepPool (length (vpool s)) (length (pend s))]))"
| "report1 lvl d = Ok []"

section \<open>All drivers\<close>

text \<open>\<open>visit\<close> ends early when the function returns false, which the reports never do.\<close>

fun visit :: "('d \<Rightarrow> (report_line list \<times> bool) outcome) \<Rightarrow> 'd option list \<Rightarrow> report_line list outcome" where
  "visit fn [] = Ok []"
| "visit fn (None # xs) = Crash UseAfterFree"
| "visit fn (Some d # xs) =
     (case fn d of
        Ok (ls, val) \<Rightarrow>
          if \<not> val then Ok ls
          else (case visit fn xs of Ok ms \<Rightarrow> Ok (ls @ ms) | Throw e \<Rightarrow> Throw e | Crash c \<Rightarrow> Crash c)
      | Throw e \<Rightarrow> Throw e
      | Crash c \<Rightarrow> Crash c)"

definition drivers :: "'w registry \<Rightarrow> 'w driver option list" where
  "drivers g = map (\<lambda>x. objs g (snd x)) (pscmap g)"

definition pscreport :: "evbuffer_api \<Rightarrow> int \<Rightarrow> 'w registry \<Rightarrow> report_line list outcome" where
  "pscreport ap lvl g = visit (\<lambda>d. map_outcome (\<lambda>ls. (ls, True)) (ReportOne ap lvl d)) (drivers g)"

definition fast_report :: "int \<Rightarrow> 'w registry \<Rightarrow> report_line list outcome" where
  "fast_report lvl g = visit (\<lambda>d. map_outcome (\<lambda>ls. (ls, True)) (report1 lvl d)) (drivers g)"

section \<open>What reports show\<close>

text \<open>The blocks of a map, each once, in the order of their numbers.\<close>

lemma set_map_filter: "set (List.map_filter f xs) = {y. \<exists>x \<in> set xs. f x = Some y}"
  by (force simp: List.map_filter_def)

lemma block_list_set: "set (block_list m) = ran m"
proof -
  have "k \<in> of_nat ` {0..<2 ^ 16}" for k :: u16
  proof -
    have "unat k < 2 ^ LENGTH(16)" by (rule unsigned_less)
    then show ?thesis by (intro image_eqI [of _ _ "unat k"]) simp_all
  qed
  then have "of_nat ` {0..<2 ^ 16} = (UNIV :: u16 set)" by blast
  then show ?thesis by (auto simp: block_list_def set_map_filter ran_def)
qed

lemma block_list_sorted:
  assumes "blocks_ok m"
  shows "sorted_wrt (<) (map code (block_list m))"
proof -
  have s: "sorted_wrt (<) (map code (List.map_filter m ks))" if "sorted_wrt (<) ks" for ks
    using that
  proof (induction ks)
    case (Cons k ks)
    have "k < code b" if b: "b \<in> set (List.map_filter m ks)" for b
    proof -
      obtain j where "j \<in> set ks" "m j = Some b" using b by (auto simp: set_map_filter)
      then show ?thesis using Cons.prems blocks_okD [OF assms, of j b] by simp
    qed
    then show ?case
      using Cons blocks_okD [OF assms, of k] by (auto simp: List.map_filter_simps split: option.split)
  qed (simp add: List.map_filter_simps)
  have "sorted_wrt (\<lambda>i j. (of_nat i :: u16) < of_nat j) [0..<2 ^ 16]"
    by (rule sorted_wrt_mono_rel [OF _ sorted_wrt_upt]) (simp add: word_less_nat_alt unat_of_nat)
  then show ?thesis unfolding block_list_def by (intro s) (simp add: sorted_wrt_map)
qed

lemma report_one:
  assumes "\<forall>s. d = Tcp s \<and> connected s \<longrightarrow> session s \<noteq> None"
  shows "\<exists>ls. ReportOne ap lvl d = Ok ls"
  using assms by (cases d) (auto simp: base_report_def PSC_report_def Let_def)

lemma visit_all:
  "list_all2 (\<lambda>x ls. \<exists>d. x = Some d \<and> f d = Ok ls) xs lss \<Longrightarrow>
     visit (\<lambda>d. map_outcome (\<lambda>ls. (ls, True)) (f d)) xs = Ok (concat lss)"
  by (induction rule: list_all2_induct) (auto simp: map_outcome_def)

text \<open>
  A report ends in every state in which the connected TCP drivers have a session. It shows each registered driver once, in the
  order of the names; from level 2 on with all of its blocks, each once and in the order of their numbers.
\<close>

theorem report_complete:
  assumes "reg_ok g" and "\<forall>i s. objs g i = Some (Tcp s) \<and> connected s \<longrightarrow> session s \<noteq> None"
  shows "\<exists>lss. pscreport ap lvl g = Ok (concat lss) \<and>
      list_all2 (\<lambda>x ls. \<exists>d. objs g (snd x) = Some d \<and> ReportOne ap lvl d = Ok ls) (pscmap g) lss \<and> sorted_wrt (<) (map fst (pscmap g))"
    and "set (block_list m) = ran m" and "blocks_ok m \<Longrightarrow> sorted_wrt (<) (map code (block_list m))"
proof -
  have "\<exists>ls d. objs g (snd x) = Some d \<and> ReportOne ap lvl d = Ok ls" if x: "x \<in> set (pscmap g)" for x
  proof -
    obtain d where d: "objs g (snd x) = Some d" using assms(1) x by (auto simp: reg_ok_def)
    then have "\<forall>s. d = Tcp s \<and> connected s \<longrightarrow> session s \<noteq> None" using assms(2) by blast
    from report_one [OF this] show ?thesis using d by blast
  qed
  then obtain f where f: "\<forall>x \<in> set (pscmap g). \<exists>d. objs g (snd x) = Some d \<and> ReportOne ap lvl d = Ok (f x)" by metis
  then have l: "list_all2 (\<lambda>x ls. \<exists>d. objs g (snd x) = Some d \<and> ReportOne ap lvl d = Ok ls) (pscmap g) (map f (pscmap g))"
    by (simp add: list_all2_conv_all_nth)
  then have "pscreport ap lvl g = Ok (concat (map f (pscmap g)))"
    unfolding pscreport_def drivers_def by (intro visit_all) (simp add: list_all2_map1)
  moreover have "sorted_wrt (<) (map fst (pscmap g))" using assms(1) by (simp add: reg_ok_def map_ok_def)
  ultimately show "\<exists>lss. pscreport ap lvl g = Ok (concat lss) \<and>
      list_all2 (\<lambda>x ls. \<exists>d. objs g (snd x) = Some d \<and> ReportOne ap lvl d = Ok ls) (pscmap g) lss \<and> sorted_wrt (<) (map fst (pscmap g))"
    using l by blast
  show "set (block_list m) = ran m" "blocks_ok m \<Longrightarrow> sorted_wrt (<) (map code (block_list m))"
    by (simp_all add: block_list_set block_list_sorted)
qed

end
