(* ===== verification/Spec2Isabelle.thy ===== *)
theory Spec2Isabelle
  imports Psc_Tcp_Conn Psc_Udp_Send Psc_Registry Dev_Sets Dev_Single Dev_Ctrl Fast_Data Target_App Bpm_Server Sig_Calc Sig_Stats Sig_Plan Unit_Tests
    Ioc_Shell Psc_Report
begin

text \<open>
  pscdrv, the EPICS driver for Portable Streaming Controllers: a verification library.

  \<^bold>\<open>The program.\<close> An IOC talks to devices (PSCs) that send and receive messages, each with an 8 byte
  header (marker, number, length) and a body. The driver keeps, for each message number, a block with the
  last body received and a block with the body to send. Records read and write fields of blocks
  through device supports; a driver object moves blocks to and from the network: over TCP (class
  \<open>PSC\<close>), over UDP (\<open>PSCUDP\<close>), or as a fast UDP receiver that also records to disk (\<open>UDPFast\<close>). The
  repository also has the other end of the connection, servers for devices in C (targetApp, xbpmApp), and
  records that calculate spectra and statistics of waveforms (sigApp).

  \<^bold>\<open>Theories and sources.\<close> Names of definitions are those of the code; a \<open>udp_\<close>, \<open>fast_\<close> or \<open>devudp_\<close>
  prefix tells methods of the same name apart. Paths are below src/coreApp/src/ unless given.

  \<^item> \<open>Psc_Prelude\<close>: bytes, words, byte order, the outcome of C++ code (value, exception, crash), and the
    splicing of byte lists. \<open>Libevent\<close>: the functions of libevent's evbuffer that the code calls, as a
    record of functions, with their documented laws (\<open>evbuffer_lawful\<close>), and an instance.
  \<^item> \<open>Dbuffer\<close>: class \<open>dbuffer\<close> (psc/evbase.h, evbase.cpp), a body that lies in memory in several pieces;
    every operation is shown to act on the concatenation of the pieces (\<open>dbytes\<close>).
  \<^item> \<open>Psc_Protocol\<close>: the wire format, and an abstract decoder of a byte stream as specification.
  \<^item> \<open>Psc_Base\<close>: \<open>Block\<close>, \<open>CBList\<close>, \<open>PSCBase\<close> (psc/device.h, psc/cblist.h, pscbase.cpp), the hand-shake
    with EPICS scan lists.
  \<^item> \<open>Psc_Tcp\<close>: class \<open>PSC\<close> (psc.cpp, pscwrap.cpp). \<open>Psc_Tcp_Recv\<close>: reception refines the abstract decoder and
    does not depend on segmentation. \<open>Psc_Tcp_Send\<close>: what is accepted goes out in order. \<open>Psc_Tcp_Conn\<close>:
    connection state machine, no crash in any order of events.
  \<^item> \<open>Psc_Udp\<close>, \<open>Psc_Udp_Recv\<close>, \<open>Psc_Udp_Send\<close>: class \<open>PSCUDP\<close> (pscudp.cpp) likewise.
  \<^item> \<open>Psc_Transport\<close>: the interfaces that device supports rely on, as locales: \<open>psc_transport\<close> (messages
    accepted are the messages on the wire), \<open>psc_driver\<close> (queueing keeps the cache), \<open>psc_settings\<close>
    (sending a cached block). \<open>Psc_Tcp_Send\<close> and \<open>Psc_Udp_Send\<close> interpret them for the two drivers.
  \<^item> \<open>Event_Base\<close>: the thread of the event loop, which the drivers for TCP and UDP share (evbase.cpp).
  \<^item> \<open>Psc_Registry\<close>: the map of drivers, createPSC and its variants, start and stop of the IOC (pscbase.cpp).
    \<open>Ioc_Shell\<close>: the commands of the IOC shell (pscbase.cpp, udpApp/src/udpdrv.cpp), a specification of what a start-up
    script configures, and that the commands implement it. \<open>Psc_Report\<close>: the reports of the drivers.
  \<^item> \<open>Dev_Common\<close>: links, byte order, analog conversion, time stamps, alarms (psc/devcommon.h,
    devcommon.cpp). \<open>Dev_Reg\<close> (devPSCReg.cpp), \<open>Dev_Block\<close> (devPSCWf.cpp, devPSCString.cpp), \<open>Dev_Single\<close>
    (devPSCSingle.cpp), \<open>Dev_Ctrl\<close> (devPSCCtrl.cpp): the device supports. \<open>Dev_Sets\<close>: the table of the register
    device support, by its exported names, and the scan lists of records.
  \<^item> \<open>Udp_Fast\<close>: class \<open>UDPFast\<close> (udpApp/src/udpdrv.h, udpdrv.cpp), its two threads as steps between their
    waits. \<open>Dev_Fast\<close>: its device support (udpApp/src/devudp.cpp). \<open>Fast_Sys\<close>: all interleavings of the
    steps, the invariant of the buffer pool and the ways to get stuck. \<open>Fast_Data\<close>: which datagrams are
    accepted, what reaches blocks, data files and arrays.
  \<^item> \<open>Target_Msg\<close>: messages on a blocking socket (targetApp/pscmsg.c). \<open>Target_Server\<close>: the clients of an
    embedded device, one thread each, in a linked list (targetApp/listener.c). \<open>Target_App\<close>: the example
    application that sends messages back (targetApp/pscapp.c).
    \<open>Device_Link\<close>: the interface of servers, as the locales \<open>broadcaster\<close> and \<open>lossless_broadcaster\<close>, which the two
    servers interpret.
  \<^item> \<open>Bpm_Server\<close>: the example server of the BPM application, driven by libevent (xbpmApp/target/main.c,
    app.c): list of connections, reception, sending to all.
  \<^item> \<open>Sig_Dft\<close>: the discrete Fourier transform of real signals and Parseval's theorem. \<open>Sig_Psd\<close>: class \<open>PSDCalc\<close>
    (sigApp/src/fftwrap.cpp). \<open>Sig_Plan\<close>: class \<open>Plan\<close> (fftwrap.h), who owns the plans of FFTW. \<open>Sig_Calc\<close>: its device support, with the worker thread as two steps between its
    critical sections (sigApp/src/fftcalc.cpp). \<open>Sig_Stats\<close>: statistics of a window (sigApp/src/asubwf.c).
  \<^item> \<open>Unit_Tests\<close>: the unit tests (testApp/testValues.cpp, targetApp/testpscmsg.c), as lists of results, and
    which of them pass.
  \<^item> \<open>Spec2Isabelle\<close>: properties from a record of one IOC to the wire and to the blocks of another, from the wire
    to the records of an IOC, and between an IOC and the servers of devices.

  \<^bold>\<open>State and effects.\<close> Objects are records; methods take and return the state with an outcome, so that
  exceptions and failed assertions are results. A record of parameters (\<open>psc_env\<close>, \<open>udp_env\<close>,
  \<open>fast_env\<close>) holds what is not under src/: libevent, sockets and files, the clock, scan lists, and
  listeners, which are functions on a world of their own. Observable calls are logged in \<open>io\<close>. Hypotheses on
  parameters (\<open>evbuffer_lawful\<close>, \<open>recv_env\<close>, \<open>tcp_sender\<close> and the like) state documented behaviour only, and
  each property that has one is applied to an instance by its witness.

  \<^bold>\<open>Bounds.\<close> Integers have their width where it matters: lengths and numbers on the wire, counters,
  offsets. \<open>size_t\<close> has 64 bits. There is no fuel: loops are recursions with proved termination, the
  receive loop on the length of the input, the record loop of a data file on the packets left. A loop that
  would not advance is a crash of its own (\<open>NoProgress\<close>). The loops along linked lists (\<open>send_list\<close>, \<open>tx_list\<close>)
  return \<open>None\<close> if they do not end; that they end is proved from the shape of the list.

  \<^bold>\<open>Findings.\<close> Properties about errors state what the code does where it is wrong: unframed bodies after a
  send while disconnected, a lost reconnection, packets sent twice, stale bytes in short datagrams, a wrapped
  length, synchronisation that never happens, and for the fast receiver a lost wake-up that stops both threads,
  an inverted length test, and records that reach beyond a buffer; an exit of the IOC that stops only the first
  driver of the event loop; for the servers of devices lost clients, freed
  nodes that are used, and a reception that waits for the wrong size; for the spectra an input that is
  overwritten, and samples from outside of the chosen window.

  \<^bold>\<open>Not modelled.\<close> The inside of the event loop (libevent), locks as such (each method and each step runs
  under its lock; the cache worker's step is not divided where it releases the lock for file operations),
  the format of printed text, timing, how iocsh splits a line, the tables of device supports other than that for registers,
  socket options, the network interface and lwIP constants of the device (main of targetApp/pscapp.c, lwipopts.h). Doubles: the
  conversions that only scale, the spectra and the statistics are exact, in a field or in the reals, without NaN
  and rounding; other conversions are parameters. FFTW is a parameter: what planning does to the
  arrays, and the transform, which one property takes to be the discrete Fourier transform. The
  main programs of IOCs and record instances are left out.
\<close>

section \<open>End to end\<close>

lemma log_of_view: "notified (io s) = v_log (view s)"
  by (simp add: view_def)

text \<open>
  C1: messages sent by one TCP driver arrive at another. What the sender accepted and
  flushed, cut into arbitrary segments by the network, is delivered by the receiver to its
  listeners complete and in order; only messages that nobody listens to, and messages with
  an empty body, which complete with their header, are not announced.
\<close>

theorem tcp_end_to_end:
  assumes "tcp_sender env s" and "\<forall>m \<in> set ms. msg_fits (snd m)"
    and "tcp_pending s = []" and "tcp_wire s = []"
    and "queue_all (queueSend_id env) ms s = (t, acc)" and "flushSend env t = (u, Ok ())"
    and "recv_env env'" and "appends arrive" and "rx_ready r" and "in_bytes r = []" and "tcp_wait r = None"
    and "concat segs = tcp_wire u"
  shows "\<exists>r'. tcp_feed env' arrive segs r = (r', Ok ()) \<and> rx_ready r' \<and> in_bytes r' = [] \<and>
    notified (io r') = notified (io r) @ filter (\<lambda>(k, bs). known r k \<and> bs \<noteq> []) acc"
proof -
  have run: "rx_run (known r) (tcp_wait r) (in_bytes r @ concat segs) =
      (concat (map (msg_events (known r)) acc), None, [], False)"
    using tcp.sent_decoded [OF assms(1-6)] assms(10-12) by simp
  obtain r' where r': "tcp_feed env' arrive segs r = (r', Ok ())"
    "feed_to r (concat (map (msg_events (known r)) acc), None, [], False) r'"
    using tcp_feed_refines [OF assms(7-9), of segs] unfolding run by blast
  then have "view r' = fold rx_apply (concat (map (msg_events (known r)) acc)) (view r)"
    by (simp add: feed_to_def)
  then have "notified (io r') = notified (io r) @ filter (\<lambda>(k, bs). known r k \<and> bs \<noteq> []) acc"
    by (simp add: log_of_view rx_apply_log delivered_msgs)
  then show ?thesis using r' by (auto simp: feed_to_def)
qed

theorem tcp_end_to_end_witness:
  "\<exists>t u r'. queue_all (queueSend_id demo_tx_env) [(7, [1, 2]), (8, [3]), (9, [])] demo_tx =
       (t, [(7, [1, 2]), (8, [3]), (9, [])]) \<and>
     flushSend demo_tx_env t = (u, Ok ()) \<and>
     tcp_feed demo_env demo_arrive [take 5 (tcp_wire u), drop 5 (tcp_wire u)] demo_psc = (r', Ok ()) \<and>
     notified (io r') = [(7, [1, 2])]"
proof -
  let ?ms = "[(7, [1, 2]), (8, [3]), (9, [])] :: (u16 \<times> byte list) list"
  let ?q = "queue_all (queueSend_id demo_tx_env) ?ms demo_tx"
  have "snd ?q = ?ms" and "snd (flushSend demo_tx_env (fst ?q)) = Ok ()"
    by (simp_all add: demo_tx_eval)
  then obtain t u where t: "?q = (t, ?ms)" and u: "flushSend demo_tx_env t = (u, Ok ())"
    by (metis prod.collapse)
  have "\<forall>m \<in> set ?ms. msg_fits (snd m)" by (simp add: msg_fits_def)
  moreover have "concat [take 5 (tcp_wire u), drop 5 (tcp_wire u)] = tcp_wire u" by simp
  ultimately obtain r' where
    "tcp_feed demo_env demo_arrive [take 5 (tcp_wire u), drop 5 (tcp_wire u)] demo_psc = (r', Ok ())"
    "notified (io r') = notified (io demo_psc) @ filter (\<lambda>(k, bs). known demo_psc k \<and> bs \<noteq> []) ?ms"
    using tcp_end_to_end [OF demo_tx_sender(1) _ demo_tx_sender(2,3) t u demo_env_recv
        demo_arrive_appends demo_psc_ready(1,3,2)] by blast
  then show ?thesis using t u by (simp add: demo_psc_ready(4))
qed

section \<open>Records and drivers\<close>

text \<open>What the device supports prove for any driver, for the two drivers.\<close>

lemmas tcp_settings_sent = psc_settings.settings_sent [OF tcp_set.psc_settings_axioms]
lemmas tcp_single_sends = psc_driver.single_binary_sends [OF tcp_drv.psc_driver_axioms]
lemmas udp_wf_sends = psc_driver.write_wf_sends [OF udp_drv.psc_driver_axioms]
lemmas udp_wrote_def = psc_driver.wrote_def [OF udp_drv.psc_driver_axioms]

text \<open>
  C4: a setting reaches the wire. A register record writes a value into the cached block, a
  longout record sends the block, a bo record flushes: if neither is refused, the TCP stream
  has one more frame, which carries the cached block with the new value in network byte order
  at the record's offset, and nothing is left pending.
\<close>

theorem settings_to_wire:
  assumes "tcp_sender env s" and "tcp_pending s = []" and "p_block p = PSend k" and "send_blocks s k = Some b"
    and "evbuffer_lawful ap" and "r_val r \<noteq> []"
    and "p_offset p + length (r_val r) \<le> length (dbytes (data b))" and "msg_fits (dbytes (data b))"
    and "l_val l = ucast k"
  shows "\<exists>r1 t l1 u x. write_from_val ap le (Some p) r s = (r1, t, Ok DevOk) \<and>
    write_lo_send_block (queueSend_buf env) True l t = (l1, u, Ok x) \<and> (x = DevOk \<or> x = DevBadRequest) \<and>
    (\<forall>q1 v. x = DevOk \<and> write_bo_send_changed (flushSend env) True q u = (q1, v, Ok DevOk) \<longrightarrow>
       tcp_wire v = tcp_wire s @ frame k (splice_at (p_offset p) (hton le (r_val r)) (dbytes (data b))) \<and>
       tcp_pending v = [])"
  using assms by (rule tcp_settings_sent)

definition demo_set :: "unit psc" where
  "demo_set = demo_tx\<lparr>send_blocks := [7 \<mapsto> demo_blk]\<rparr>"

lemma demo_set_ok:
  "tcp_sender demo_tx_env demo_set" "tcp_pending demo_set = []" "send_blocks demo_set 7 = Some demo_blk"
  "tcp_wire demo_set = []"
proof -
  have "dbuffer_ok (data demo_blk)" using demo_blk_ok(3) by (simp add: dbuffer_lawful_def)
  then have "block_ok 7 demo_blk" by (simp add: block_ok_def demo_blk_def block_new_def)
  then show "tcp_sender demo_tx_env demo_set" "tcp_pending demo_set = []" "send_blocks demo_set 7 = Some demo_blk"
    "tcp_wire demo_set = []"
    using demo_tx_sender
    by (simp_all add: demo_set_def tcp_sender_def base_ok_def tcp_pending_def tcp_wire_def blocks_ok_upd1)
qed

theorem settings_to_wire_witness:
  "\<exists>r1 t l1 u x. write_from_val chunk_api False (Some (demo_priv 2))
       \<lparr>tse_device = False, rec_time = (0, 0), alarms = [], r_val = [8, 9]\<rparr> demo_set = (r1, t, Ok DevOk) \<and>
     write_lo_send_block (queueSend_buf demo_tx_env) True
       \<lparr>tse_device = False, rec_time = (0, 0), alarms = [], l_val = 7\<rparr> t = (l1, u, Ok x) \<and>
     (\<forall>q1 v. x = DevOk \<and> write_bo_send_changed (flushSend demo_tx_env) True demo_bin u = (q1, v, Ok DevOk) \<longrightarrow>
        tcp_wire v = frame 7 [1, 2, 8, 9, 5, 6])"
proof -
  let ?r = "\<lparr>tse_device = False, rec_time = (0, 0), alarms = [], r_val = [8, 9]\<rparr>"
  let ?l = "\<lparr>tse_device = False, rec_time = (0, 0), alarms = [], l_val = 7\<rparr>"
  have h: "hton False [8, 9] = [8, 9 :: byte]" using hton_net [of "[8, 9]" False] by simp
  have p: "p_block (demo_priv 2) = PSend 7" "p_offset (demo_priv 2) = 2" by (simp_all add: demo_priv_def)
  have fit: "p_offset (demo_priv 2) + length (r_val ?r) \<le> length (dbytes (data demo_blk))"
    "msg_fits (dbytes (data demo_blk))" "r_val ?r \<noteq> []" "l_val ?l = ucast (7 :: u16)"
    by (simp_all add: p demo_blk_ok(2) msg_fits_def)
  have "splice_at 2 [8, 9] [1, 2, 3, 4, 5, 6] = [1, 2, 8, 9, 5, 6 :: byte]" by (simp add: splice_at_def)
  then have sp: "splice_at (p_offset (demo_priv 2)) (hton False (r_val ?r)) (dbytes (data demo_blk)) = [1, 2, 8, 9, 5, 6]"
    by (simp add: p demo_blk_ok(2) h)
  show ?thesis
    using settings_to_wire [OF demo_set_ok(1,2) p(1) demo_set_ok(3) chunk_api_lawful fit(3,1,2,4),
        where q = demo_bin and le = False]
    unfolding sp demo_set_ok(4) append_Nil by blast
qed

text \<open>
  C26: a register written through single-register support leaves as one message: the body is
  the address and the masked value, 32 bits each, in network byte order, on hosts of either
  byte order; a message that the TCP driver refuses leaves the queue alone and raises an
  alarm.
\<close>

theorem single_write_message:
  assumes "tcp_sender env s" and "length mem0 = 8" and "\<not> syncNow p"
  shows "\<exists>r1 t x. write_msg_binary_rval ap (queueSend_id env) le mem0 (Some p) r s = (r1, (Some p, t), Ok x) \<and>
    tcp_sender env t \<and> tcp_wire t = tcp_wire s \<and>
    (x = DevOk \<and> r1 = r \<and> tcp_pending t =
       tcp_pending s @ frame (p_bid p) (be32 (of_nat (p_offset p)) @ be32 (masked (r_mask r) (r_rval r))) \<or>
     x = DevBadRequest \<and> alarms r1 \<noteq> alarms r \<and> tcp_pending t = tcp_pending s)"
  using tcp_single_sends [OF assms refl] .

theorem single_write_message_witness:
  "\<exists>r1 t x. write_msg_binary_rval chunk_api (queueSend_id demo_tx_env) True (replicate 8 0xFF) (Some demo_single) demo_bin demo_set =
       (r1, (Some demo_single, t), Ok x) \<and>
     (x = DevOk \<and> tcp_pending t = frame 7 (be32 1 @ be32 (masked 0xFF00 0xABCD)) \<or> x = DevBadRequest)"
proof -
  have d: "\<not> syncNow demo_single" "p_bid demo_single = 7" "p_offset demo_single = 1" "r_mask demo_bin = 0xFF00"
    "r_rval demo_bin = 0xABCD"
    by (simp_all add: demo_single_def single_new_def priv.defs demo_priv_def demo_bin_def)
  have "length (replicate 8 0xFF :: byte list) = 8" by simp
  from single_write_message [OF demo_set_ok(1) this d(1), of chunk_api True demo_bin] show ?thesis
    unfolding d demo_set_ok(2) append_Nil of_nat_1 by blast
qed

text \<open>
  a waveform of numbers is sent through the UDP driver as one packet: its frame carries
  the NORD elements, converted and in network byte order, one after the other; or nothing is
  queued and the record raises an alarm.
\<close>

theorem waveform_write_packet:
  assumes "udp_sender s" and "msg_fits (wf_net le unconv r)" and "p_block p = PSend k"
    and "send_blocks s k \<noteq> None"
  shows "\<exists>r1 t x. write_wf udp_queueSend_raw le unconv (Some p) r s = (r1, t, Ok x) \<and> udp_sender t \<and>
    udp_wire t = udp_wire s \<and>
    (x = DevOk \<and> r1 = r \<and> udp_pending t = udp_pending s @ frame k (wf_net le unconv r) \<or>
     x = DevBadRequest \<and> alarms r1 \<noteq> alarms r \<and> udp_pending t = udp_pending s)"
  using udp_wf_sends [OF assms] unfolding udp_wrote_def
  by (auto split: prod.splits)

theorem waveform_write_packet_witness:
  "\<exists>r1 t x. write_wf udp_queueSend_raw False (take 2) (Some (demo_priv 0)) (demo_wf\<lparr>w_nord := 2, w_buf := map of_nat [1 ..< 17]\<rparr>)
       (demo_udp\<lparr>send_blocks := [7 \<mapsto> demo_blk]\<rparr>) = (r1, t, Ok x) \<and>
     (x = DevOk \<and> udp_pending t = frame 7 [1, 2, 9, 10] \<or> x = DevBadRequest)"
proof -
  let ?r = "demo_wf\<lparr>w_nord := 2, w_buf := map of_nat [1 ..< 17]\<rparr>" and ?s = "demo_udp\<lparr>send_blocks := [7 \<mapsto> demo_blk]\<rparr>"
  have h: "hton False [a, b] = [a, b]" for a b :: byte using hton_net [of "[a, b]" False] by simp
  have net: "wf_net False (take 2) ?r = [1, 2, 9, 10]"
    by (simp add: wf_net_def upt_rec h numeral_2_eq_2)
  have "block_ok 7 demo_blk"
    using demo_blk_ok(3) by (simp add: block_ok_def demo_blk_def block_new_def dbuffer_lawful_def)
  then have s: "udp_sender ?s" "udp_pending ?s = []"
    using demo_udp_ok(1) by (simp_all add: udp_sender_def base_ok_def blocks_ok_upd1 udp_pending_def)
  have p: "p_block (demo_priv 0) = PSend 7" "send_blocks ?s 7 \<noteq> None" by (simp_all add: demo_priv_def)
  have f: "msg_fits (wf_net False (take 2) ?r)" unfolding net by (simp add: msg_fits_def)
  from waveform_write_packet [OF s(1) f p] show ?thesis unfolding net s(2) append_Nil by blast
qed

section \<open>IOC and device\<close>

text \<open>What the TCP driver makes of a stream of frames.\<close>

lemma tcp_feed_view:
  assumes "recv_env env'" and "appends arrive" and "rx_ready r" and "in_bytes r = []" and "tcp_wait r = None"
    and "\<forall>m \<in> set ms. length (snd m) < 2 ^ 32" and "concat segs = frames ms"
  shows "\<exists>r'. tcp_feed env' arrive segs r = (r', Ok ()) \<and> rx_ready r' \<and> known r' = known r \<and>
    view r' = fold rx_apply (concat (map (msg_events (known r)) ms)) (view r)"
proof -
  have run: "rx_run (known r) (tcp_wait r) (in_bytes r @ concat segs) =
      (concat (map (msg_events (known r)) ms), None, [], False)"
    using rx_run_frames [OF assms(6), of "known r" "[]"] assms(4,5,7) by (simp add: rx_run_short)
  obtain r' where "tcp_feed env' arrive segs r = (r', Ok ())"
    "feed_to r (concat (map (msg_events (known r)) ms), None, [], False) r'"
    using tcp_feed_refines [OF assms(1-3), of segs] unfolding run by blast
  then show ?thesis by (auto simp: feed_to_def)
qed

lemma tcp_feed_frames:
  assumes "recv_env env'" and "appends arrive" and "rx_ready r" and "in_bytes r = []" and "tcp_wait r = None"
    and "\<forall>m \<in> set ms. length (snd m) < 2 ^ 32" and "concat segs = frames ms"
  shows "\<exists>r'. tcp_feed env' arrive segs r = (r', Ok ()) \<and> rx_ready r' \<and>
    notified (io r') = notified (io r) @ filter (\<lambda>(k, bs). known r k \<and> bs \<noteq> []) ms"
  using tcp_feed_view [OF assms] by (auto simp: log_of_view rx_apply_log delivered_msgs)

section \<open>From the wire to records\<close>



text \<open>
  The driver and the device understand each other. What the TCP driver accepted and flushed is received
  by the code of the device as the same messages in the same order, each cut to the size of the device's buffer;
  and the stream is empty after them.
\<close>

theorem ioc_to_device:
  assumes "tcp_sender env s" and "\<forall>m \<in> set ms. msg_fits (snd m)" and "tcp_pending s = []" and "tcp_wire s = []"
    and "queue_all (queueSend_id env) ms s = (t, acc)" and "flushSend env t = (u, Ok ())"
    and "recvs ops inp" and "inp r = tcp_wire u"
  shows "\<exists>r1. recv_msgs ops maxlen (length acc) r = (map (\<lambda>m. (fst m, take (unat maxlen) (snd m))) acc, r1) \<and>
    inp r1 = []"
proof -
  have u: "tcp_wire u = frames acc" "set acc \<subseteq> set ms"
    using tcp.sent_messages [OF assms(1-3,5,6)] assms(4) by auto
  then have "\<forall>m \<in> set acc. length (snd m) < 2 ^ 32" using assms(2) unfolding msg_fits_def by fastforce
  from recv_msgs_ok [OF assms(7) this, of r "[]"] show ?thesis using assms(8) u(1) by simp
qed

theorem ioc_to_device_witness:
  "\<exists>t u r1. queue_all (queueSend_id demo_tx_env) [(7, [1, 2]), (8, [3]), (9, [])] demo_tx =
       (t, [(7, [1, 2]), (8, [3]), (9, [])]) \<and>
     flushSend demo_tx_env t = (u, Ok ()) \<and>
     recv_msgs byte_ops 1 3 \<lparr>s_out = [], s_in = tcp_wire u\<rparr> = ([(7, [1]), (8, [3]), (9, [])], r1) \<and> s_in r1 = []"
proof -
  let ?ms = "[(7, [1, 2]), (8, [3]), (9, [])] :: (u16 \<times> byte list) list"
  let ?q = "queue_all (queueSend_id demo_tx_env) ?ms demo_tx"
  have "snd ?q = ?ms" and "snd (flushSend demo_tx_env (fst ?q)) = Ok ()"
    by (simp_all add: demo_tx_eval)
  then obtain t u where t: "?q = (t, ?ms)" and u: "flushSend demo_tx_env t = (u, Ok ())"
    by (metis prod.collapse)
  have "\<forall>m \<in> set ?ms. msg_fits (snd m)" by (simp add: msg_fits_def)
  moreover have "s_in \<lparr>s_out = [], s_in = tcp_wire u\<rparr> = tcp_wire u" by simp
  ultimately obtain r1 where
    "recv_msgs byte_ops 1 (length ?ms) \<lparr>s_out = [], s_in = tcp_wire u\<rparr> = (map (\<lambda>m. (fst m, take (unat (1 :: u32)) (snd m))) ?ms, r1)"
    "s_in r1 = []"
    using ioc_to_device [OF demo_tx_sender(1) _ demo_tx_sender(2,3) t u byte_ops_ok(2), of "\<lparr>s_out = [], s_in = tcp_wire u\<rparr>" 1]
    by blast
  then show ?thesis using t u by (simp add: eval_nat_numeral)
qed

text \<open>
  And the other way: the messages that the device has sent, in whatever segments they arrive, are
  delivered by the TCP driver complete and in order, except those that nobody listens to and empty ones.
\<close>

theorem device_to_ioc:
  assumes "sends ops out'" and "out' s = []" and "\<forall>m \<in> set ms. length (snd m) < 2 ^ 32"
    and "recv_env env'" and "appends arrive" and "rx_ready r" and "in_bytes r = []" and "tcp_wait r = None"
    and "concat segs = out' (send_msgs ops ms s)"
  shows "\<exists>r'. tcp_feed env' arrive segs r = (r', Ok ()) \<and> rx_ready r' \<and>
    notified (io r') = notified (io r) @ filter (\<lambda>(k, bs). known r k \<and> bs \<noteq> []) ms"
  using tcp_feed_frames [OF assms(4-8,3)] send_msgs_ok [OF assms(1), of ms s] assms(2,9) by simp

theorem device_to_ioc_witness:
  "\<exists>r'. tcp_feed demo_env demo_arrive [s_out (send_msgs byte_ops [(7, [1, 2]), (9, [])] \<lparr>s_out = [], s_in = []\<rparr>)]
       demo_psc = (r', Ok ()) \<and> notified (io r') = [(7, [1, 2])]"
proof -
  let ?s = "\<lparr>s_out = [], s_in = []\<rparr>"
  have "\<exists>r'. tcp_feed demo_env demo_arrive [s_out (send_msgs byte_ops [(7, [1, 2]), (9, [])] ?s)] demo_psc = (r', Ok ()) \<and>
      rx_ready r' \<and>
      notified (io r') = notified (io demo_psc) @ filter (\<lambda>(k, bs). known demo_psc k \<and> bs \<noteq> []) [(7, [1, 2]), (9, [])]"
    by (rule device_to_ioc [OF byte_ops_ok(1) _ _ demo_env_recv demo_arrive_appends demo_psc_ready(1,3,2)]) simp_all
  then show ?thesis by (auto simp: demo_psc_ready(4))
qed

text \<open>
  C6: From the server of an embedded device to the IOC: while the sockets work, a series of messages sent to all clients
  reaches every active client complete; its stream, in whatever segments it arrives, is delivered by the TCP
  driver in order, except messages that nobody listens to and empty ones.
\<close>

theorem server_to_ioc:
  assumes "srv_valid ops out' s" and "fd \<in> srv_peers s" and "out' (socks s fd) = []"
    and "\<forall>m \<in> set ms. length (snd m) < 2 ^ 32"
    and "recv_env env'" and "appends arrive" and "rx_ready r" and "in_bytes r = []" and "tcp_wait r = None"
  shows "\<exists>t. bcasts (srv_send ops) ms s = Some (t, Ok ()) \<and>
    (\<forall>segs. concat segs = out' (socks t fd) \<longrightarrow> (\<exists>r'. tcp_feed env' arrive segs r = (r', Ok ()) \<and> rx_ready r' \<and>
       notified (io r') = notified (io r) @ filter (\<lambda>(k, bs). known r k \<and> bs \<noteq> []) ms))"
proof -
  obtain t where t: "bcasts (srv_send ops) ms s = Some (t, Ok ())"
    "\<forall>c \<in> srv_peers s. out' (socks t c) = out' (socks s c) @ frames ms"
    using srv.bcasts_all [OF assms(1)] by blast
  then have "out' (socks t fd) = frames ms" using assms(2,3) by simp
  then show ?thesis using t(1) tcp_feed_frames [OF assms(5-9,4)] by auto
qed

theorem server_to_ioc_witness:
  "\<exists>t r'. bcasts (srv_send byte_ops) [(7, [1, 2]), (9, [])] demo_server = Some (t, Ok ()) \<and>
     tcp_feed demo_env demo_arrive [s_out (socks t 3)] demo_psc = (r', Ok ()) \<and> notified (io r') = [(7, [1, 2])]"
proof -
  have c: "chain (nodes demo_server) (client_head demo_server) [Suc 0, 0]" by (rule demo_server_chain)
  have "own_socks (nodes demo_server) [Suc 0, 0]" by (simp add: own_socks_def demo_server_fields)
  then have v: "srv_valid byte_ops s_out demo_server"
    using c byte_ops_ok(1) unfolding srv_valid_def by blast
  have l: "0 \<in> listed demo_server" "Suc 0 \<in> listed demo_server" using c unfolding listed_def by (auto intro: exI [of _ "[Suc 0, 0]"])
  then have p: "3 \<in> srv_peers demo_server" "s_out (socks demo_server 3) = []"
    by (force simp: srv_peers_def demo_server_fields)+
  have "\<forall>m \<in> set [(7, [1, 2]), (9 :: u16, [])]. length (snd m :: byte list) < 2 ^ 32" by simp
  from server_to_ioc [OF v p this demo_env_recv demo_arrive_appends demo_psc_ready(1,3,2)] obtain t where
    t: "bcasts (srv_send byte_ops) [(7, [1, 2]), (9, [])] demo_server = Some (t, Ok ())"
    "\<forall>segs. concat segs = s_out (socks t 3) \<longrightarrow> (\<exists>r'. tcp_feed demo_env demo_arrive segs demo_psc = (r', Ok ()) \<and> rx_ready r' \<and>
       notified (io r') = notified (io demo_psc) @ filter (\<lambda>(k, bs). known demo_psc k \<and> bs \<noteq> []) [(7, [1, 2]), (9, [])])"
    by blast
  from t(2) [rule_format, of "[s_out (socks t 3)]"] show ?thesis using t(1) by (auto simp: demo_psc_ready(4))
qed

text \<open>
  C7: There and back. What one TCP driver accepted and flushed is received by the example application of the device,
  cut to 1024 bytes, and comes back under numbers that are 10 higher (modulo 65536) to every IOC that is connected:
  the TCP driver of each delivers the replies complete and in order, however the network cuts them.
  Messages of number 99 with 4 bytes get no reply.
\<close>

theorem device_echo:
  assumes "tcp_sender env s" and "\<forall>m \<in> set ms. msg_fits (snd m)" and "tcp_pending s = []" and "tcp_wire s = []"
    and "queue_all (queueSend_id env) ms s = (t, acc)" and "flushSend env t = (u, Ok ())"
    and "duplex ops out' inp" and "app_serving ops out' i fd d" and "inp (socks d fd) = tcp_wire u"
    and "p \<in> srv_peers d" and "out' (socks d p) = []"
    and "recv_env env'" and "appends arrive" and "rx_ready r" and "in_bytes r = []" and "tcp_wait r = None"
  shows "\<exists>d'. serve_rounds (app_conf ops le) i (length acc) d = Some (d', Ok ()) \<and> inp (socks d' fd) = [] \<and>
    (\<forall>segs. concat segs = out' (socks d' p) \<longrightarrow> (\<exists>r'. tcp_feed env' arrive segs r = (r', Ok ()) \<and> rx_ready r' \<and>
       notified (io r') = notified (io r) @ filter (\<lambda>(k, bs). known r k \<and> bs \<noteq> []) (concat (map app_reply acc))))"
proof -
  have u: "tcp_wire u = frames acc" "set acc \<subseteq> set ms"
    using tcp.sent_messages [OF assms(1-3,5,6)] assms(4) by auto
  then have "\<forall>m \<in> set acc. length (snd m) < 2 ^ 32" using assms(2) unfolding msg_fits_def by fastforce
  from serve_rounds_ok [OF assms(7,8) _ this, of le] obtain d' where
    d: "serve_rounds (app_conf ops le) i (length acc) d = Some (d', Ok ())" "inp (socks d' fd) = []"
    "out' (socks d' p) = frames (concat (map app_reply acc))"
    using assms(9-11) u(1) by auto
  have "\<forall>m \<in> set (concat (map app_reply acc)). length (snd m) < 2 ^ 32"
    by (auto simp: app_reply_def Let_def)
  from tcp_feed_frames [OF assms(12-16) this] show ?thesis using d by metis
qed

theorem device_echo_witness:
  "\<exists>t u d' r'. queue_all (queueSend_id demo_tx_env) [(65533, [1, 2]), (99, [0, 0, 0, 0])] demo_tx =
       (t, [(65533, [1, 2]), (99, [0, 0, 0, 0])]) \<and> flushSend demo_tx_env t = (u, Ok ()) \<and>
     serve_rounds (app_conf byte_ops True) 0 2 (demo_app (tcp_wire u)) = Some (d', Ok ()) \<and>
     tcp_feed demo_env demo_arrive [s_out (socks d' 3)] demo_psc = (r', Ok ()) \<and> notified (io r') = [(7, [1, 2])]"
proof -
  let ?ms = "[(65533, [1, 2]), (99, [0, 0, 0, 0])] :: (u16 \<times> byte list) list"
  let ?q = "queue_all (queueSend_id demo_tx_env) ?ms demo_tx"
  have "snd ?q = ?ms" and "snd (flushSend demo_tx_env (fst ?q)) = Ok ()"
    by (simp_all add: demo_tx_eval)
  then obtain t u where t: "?q = (t, ?ms)" and u: "flushSend demo_tx_env t = (u, Ok ())"
    by (metis prod.collapse)
  have "\<forall>m \<in> set ?ms. msg_fits (snd m)" by (simp add: msg_fits_def)
  from device_echo [OF demo_tx_sender(1) this demo_tx_sender(2,3) t u byte_ops_duplex demo_app_serving
      demo_env_recv demo_arrive_appends demo_psc_ready(1,3,2), of True]
  obtain d' where d: "serve_rounds (app_conf byte_ops True) 0 (length ?ms) (demo_app (tcp_wire u)) = Some (d', Ok ())"
    "\<forall>segs. concat segs = s_out (socks d' 3) \<longrightarrow> (\<exists>r'. tcp_feed demo_env demo_arrive segs demo_psc = (r', Ok ()) \<and> rx_ready r' \<and>
       notified (io r') = notified (io demo_psc) @ filter (\<lambda>(k, bs). known demo_psc k \<and> bs \<noteq> []) (concat (map app_reply ?ms)))"
    by blast
  have "concat [s_out (socks d' 3)] = s_out (socks d' 3)" by simp
  from d(2) [rule_format, OF this] obtain r' where r:
    "tcp_feed demo_env demo_arrive [s_out (socks d' 3)] demo_psc = (r', Ok ())"
    "notified (io r') = notified (io demo_psc) @ filter (\<lambda>(k, bs). known demo_psc k \<and> bs \<noteq> []) (concat (map app_reply ?ms))"
    by blast
  have "notified (io r') = [(7, [1, 2])]" using r(2) by (simp add: demo_psc_ready(4) app_reply_def)
  moreover have "length ?ms = 2" by simp
  ultimately show ?thesis using t u d(1) r(1) by metis
qed



end
